(* ===== verification/Prelude.thy ===== *)
theory Prelude
  imports Main "HOL-Library.Word"
begin

text \<open>
  The shared base of the development: the machine integers of the Rust code as words, the
  outcome of a fallible Rust computation (a value, an error of the function's own error type, or
  a panic), its sequencing, and little-endian encoding of words as byte lists
  (\<open>uN::to_le_bytes\<close> and \<open>uN::from_le_bytes\<close> of Rust's standard library), with the
  round-trip lemmas every codec of the protocol rests on.

  Conventions used everywhere: \<open>usize\<close> is 64 bits wide (the daemon runs on 64-bit hosts),
  buffer lengths are \<open>nat\<close> where they are lengths of a list that exists in memory, and
  arithmetic that the source leaves unchecked wraps, as the workspace's release profile
  (no \<open>overflow-checks\<close>) compiles it.
\<close>

unbundle bit_operations_syntax

section \<open>Machine integers\<close>

type_synonym u8 = "8 word"
type_synonym u16 = "16 word"
type_synonym u32 = "32 word"
type_synonym u64 = "64 word"
type_synonym i32 = "32 word"
type_synonym i64 = "64 word"
type_synonym bytes = "u8 list"

text \<open>A word that is not the largest one is below its successor.\<close>

lemma word_less_succ:
  fixes w :: "'a::len word"
  assumes "w \<noteq> - 1"
  shows "w < w + 1" and "unat (w + 1) = Suc (unat w)"
proof -
  have "1 + w \<noteq> 0"
    using assms by (simp add: add_eq_0_iff)
  then show succ: "unat (w + 1) = Suc (unat w)"
    by (metis unatSuc add.commute)
  show "w < w + 1"
    by (simp only: word_less_nat_alt succ lessI)
qed

section \<open>Outcomes\<close>

text \<open>
  \<open>Ok v\<close> and \<open>Err e\<close> are Rust's \<open>Result\<close>; \<open>Panic\<close> is a panic, which the
  release profile turns into an abort of the whole daemon (\<open>panic = "abort"\<close>).
\<close>

datatype ('a, 'e) result = Ok 'a | Err 'e | Panic

primrec bind :: "('a, 'e) result \<Rightarrow> ('a \<Rightarrow> ('b, 'e) result) \<Rightarrow> ('b, 'e) result" where
  "bind (Ok v) f = f v"
| "bind (Err e) f = Err e"
| "bind Panic f = Panic"

text \<open>\<open>Option::ok_or\<close> and \<open>Result::map_err\<close>.\<close>

definition ok_or :: "'a option \<Rightarrow> 'e \<Rightarrow> ('a, 'e) result" where
  "ok_or x e = (case x of None \<Rightarrow> Err e | Some v \<Rightarrow> Ok v)"

primrec map_err :: "('e \<Rightarrow> 'f) \<Rightarrow> ('a, 'e) result \<Rightarrow> ('a, 'f) result" where
  "map_err f (Ok v) = Ok v"
| "map_err f (Err e) = Err (f e)"
| "map_err f Panic = Panic"

definition is_ok :: "('a, 'e) result \<Rightarrow> bool" where
  "is_ok r \<longleftrightarrow> (\<exists>v. r = Ok v)"

named_theorems outcome \<open>equations that evaluate the outcome combinators\<close>
named_theorems le_codec \<open>round trips of the little-endian codecs\<close>

declare bind.simps [outcome] map_err.simps [outcome]

lemma ok_or_simps [simp, outcome]: "ok_or None e = Err e" "ok_or (Some v) e = Ok v"
  by (simp_all add: ok_or_def)

lemma bind_eq_Ok [simp]: "bind r f = Ok v \<longleftrightarrow> (\<exists>w. r = Ok w \<and> f w = Ok v)"
  by (cases r) auto

lemma bind_eq_Err: "bind r f = Err e \<longleftrightarrow> r = Err e \<or> (\<exists>w. r = Ok w \<and> f w = Err e)"
  by (cases r) auto

lemma bind_eq_Panic: "bind r f = Panic \<longleftrightarrow> r = Panic \<or> (\<exists>w. r = Ok w \<and> f w = Panic)"
  by (cases r) auto

lemma bind_assoc: "bind (bind r f) g = bind r (\<lambda>v. bind (f v) g)"
  by (cases r) auto

lemma bind_Ok_right [simp]: "bind r Ok = r"
  by (cases r) auto

lemma bind_cong [fundef_cong]:
  "r = r' \<Longrightarrow> (\<And>v. r' = Ok v \<Longrightarrow> f v = f' v) \<Longrightarrow> bind r f = bind r' f'"
  by (cases r') auto

lemma map_err_eq_Ok [simp]: "map_err f r = Ok v \<longleftrightarrow> r = Ok v"
  by (cases r) auto

lemma map_err_eq_Panic [simp]: "map_err f r = Panic \<longleftrightarrow> r = Panic"
  by (cases r) auto

lemma ok_or_eq_Ok [simp]: "ok_or x e = Ok v \<longleftrightarrow> x = Some v"
  by (cases x) auto

lemma ok_or_not_Panic [simp]: "ok_or x e \<noteq> Panic"
  by (cases x) auto

section \<open>Little-endian byte lists\<close>

text \<open>\<open>to_le n w\<close> is the \<open>n\<close> low bytes of \<open>w\<close>, least significant first.\<close>

primrec to_le :: "nat \<Rightarrow> 'a::len word \<Rightarrow> bytes" where
  "to_le 0 w = []"
| "to_le (Suc n) w = ucast w # to_le n (drop_bit 8 w)"

primrec from_le :: "bytes \<Rightarrow> 'a::len word" where
  "from_le [] = 0"
| "from_le (b # bs) = ucast b OR push_bit 8 (from_le bs)"

abbreviation le16 :: "u16 \<Rightarrow> bytes" where "le16 \<equiv> to_le 2"
abbreviation le32 :: "u32 \<Rightarrow> bytes" where "le32 \<equiv> to_le 4"
abbreviation le64 :: "u64 \<Rightarrow> bytes" where "le64 \<equiv> to_le 8"

lemma length_to_le [simp]: "length (to_le n w) = n"
  by (induction n arbitrary: w) auto

lemma to_le_not_Nil [simp]: "to_le n w = [] \<longleftrightarrow> n = 0"
  by (cases n) auto

lemma from_le_to_le_take_bit:
  fixes w :: "'a::len word"
  shows "from_le (to_le n w) = take_bit (8 * n) w"
proof (induction n arbitrary: w)
  case 0
  then show ?case by simp
next
  case (Suc n)
  have "from_le (to_le (Suc n) w)
      = ucast (ucast w :: u8) OR push_bit 8 (take_bit (8 * n) (drop_bit 8 w))"
    by (simp add: Suc.IH)
  also have "\<dots> = take_bit (8 * Suc n) w"
    by (rule bit_word_eqI) (auto simp: bit_simps)
  finally show ?case .
qed

lemma from_le_to_le [simp, le_codec]:
  fixes w :: "'a::len word"
  assumes "LENGTH('a) \<le> 8 * n"
  shows "from_le (to_le n w) = w"
  using assms by (simp add: from_le_to_le_take_bit take_bit_word_eq_self)

lemma from_le_le16 [simp, le_codec]: "from_le (le16 w) = w"
  by (rule from_le_to_le) simp

lemma from_le_le32 [simp, le_codec]: "from_le (le32 w) = w"
  by (rule from_le_to_le) simp

lemma from_le_le64 [simp, le_codec]: "from_le (le64 w) = w"
  by (rule from_le_to_le) simp

lemma to_le_from_le [le_codec]:
  assumes "8 * length bs \<le> LENGTH('a::len)"
  shows "to_le (length bs) (from_le bs :: 'a word) = bs"
  using assms
proof (induction bs)
  case Nil
  then show ?case by simp
next
  case (Cons b bs)
  have len: "8 \<le> LENGTH('a)" "8 + 8 * length bs \<le> LENGTH('a)"
    using Cons.prems by simp_all
  have hd: "ucast (ucast b OR push_bit 8 (from_le bs :: 'a word)) = b"
    using len by (intro bit_word_eqI) (auto simp: bit_simps)
  have high: "take_bit (LENGTH('a) - 8) (from_le bs :: 'a word) = from_le bs"
  proof -
    have "to_le (length bs) (from_le bs :: 'a word) = bs"
      using len by (intro Cons.IH) simp
    then have "(from_le bs :: 'a word) = take_bit (8 * length bs) (from_le bs)"
      using from_le_to_le_take_bit [of "length bs" "from_le bs :: 'a word"] by simp
    then have "take_bit (LENGTH('a) - 8) (from_le bs :: 'a word)
        = take_bit (LENGTH('a) - 8) (take_bit (8 * length bs) (from_le bs))"
      by simp
    also have "\<dots> = take_bit (8 * length bs) (from_le bs)"
      using len by (simp add: min_absorb2)
    finally show ?thesis
      using \<open>(from_le bs :: 'a word) = take_bit (8 * length bs) (from_le bs)\<close> by simp
  qed
  have tl: "drop_bit 8 (ucast b OR push_bit 8 (from_le bs :: 'a word)) = from_le bs"
  proof -
    have "drop_bit 8 (ucast b OR push_bit 8 (from_le bs :: 'a word))
        = take_bit (LENGTH('a) - 8) (from_le bs :: 'a word)"
      using len by (intro bit_word_eqI) (auto simp: bit_simps dest: bit_imp_le_length)
    with high show ?thesis by simp
  qed
  have "to_le (length bs) (from_le bs :: 'a word) = bs"
    using len by (intro Cons.IH) simp
  then show ?case
    by (simp only: from_le.simps to_le.simps list.size add_Suc_right add_0_right hd tl)
qed

lemma to_le_inject:
  fixes v w :: "'a::len word"
  assumes "LENGTH('a) \<le> 8 * n" and "to_le n v = to_le n w"
  shows "v = w"
  using assms from_le_to_le by metis

section \<open>Lists\<close>

text \<open>\<open>buf[a..b]\<close> with both bounds in range.\<close>

definition slice_of :: "nat \<Rightarrow> nat \<Rightarrow> 'a list \<Rightarrow> 'a list" where
  "slice_of a b xs = take (b - a) (drop a xs)"

lemma length_slice_of [simp]: "b \<le> length xs \<Longrightarrow> length (slice_of a b xs) = b - a"
  by (simp add: slice_of_def)

lemma slice_of_append_left [simp]:
  "b \<le> length xs \<Longrightarrow> slice_of a b (xs @ ys) = slice_of a b xs"
  by (cases "a \<le> b") (auto simp: slice_of_def)

lemma slice_of_append_right:
  "length xs = n \<Longrightarrow> n \<le> a \<Longrightarrow> slice_of a b (xs @ ys) = slice_of (a - n) (b - n) ys"
  by (auto simp: slice_of_def)

lemma slice_of_0: "slice_of 0 b xs = take b xs"
  by (simp add: slice_of_def)

lemma slice_of_full [simp]: "length xs = n \<Longrightarrow> slice_of 0 n xs = xs"
  by (simp add: slice_of_def)

lemma slice_of_Cons_Suc [simp]: "slice_of (Suc a) (Suc b) (x # xs) = slice_of a b xs"
  by (simp add: slice_of_def)

lemma take_drop_split:
  "take n (drop m xs) @ take k (drop (m + n) xs) = take (n + k) (drop m xs)"
  by (simp add: take_add drop_drop add.commute [of m n])

end
