(* ===== verification/Proto_Error.thy ===== *)
theory Proto_Error
  imports Prelude
begin

text \<open>
  The error types of \<open>riftlessfs-proto\<close>: \<open>VirtqueueError\<close> (vhost\_user/virtqueue.rs)
  and \<open>ProtoError\<close> (error.rs). An \<open>io::Error\<close> is either an operating-system error, kept
  as its errno, or one made by the program itself, kept as its kind.
\<close>

datatype io_error_kind = InvalidInput

datatype io_error = OsError i32 | CustomError io_error_kind

datatype virtqueue_error = OutOfBounds | ChainTooLong | IndirectUnsupported

datatype proto_error =
    Io io_error
  | UnknownRequest u32
  | Truncated
  | Disconnected
  | PayloadTooLarge nat
  | MissingFd
  | Virtqueue virtqueue_error

type_synonym 'a proto_result = "('a, proto_error) result"
type_synonym 'a vq_result = "('a, virtqueue_error) result"

end
