(* ===== verification/Cursor.thy ===== *)
theory Cursor
  imports Proto_Error
begin

text \<open>
  The byte cursor of \<open>fuse/bytes.rs\<close>: \<open>Reader\<close>, a slice with a position, and
  \<open>Writer\<close>, a growing buffer. The lemmas describe a read by the offset it reads at, so that
  a struct parser built from reads is described by the offsets of its fields, and show that no
  sequence of reads ever slices out of bounds.
\<close>

section \<open>Reader\<close>

text \<open>\<open>Iterator::position\<close>: the index of the first element that satisfies the predicate.\<close>

primrec position :: "('a \<Rightarrow> bool) \<Rightarrow> 'a list \<Rightarrow> nat option" where
  "position p [] = None"
| "position p (x # xs) = (if p x then Some 0 else map_option Suc (position p xs))"

record reader =
  rd_buf :: bytes
  rd_pos :: nat

definition reader_new :: "bytes \<Rightarrow> reader" where
  "reader_new b = \<lparr>rd_buf = b, rd_pos = 0\<rparr>"

text \<open>
  \<open>take\<close>: \<open>checked_add\<close> fails when the end does not fit \<open>usize\<close>; \<open>get(pos..end)\<close>
  fails when the end is past the buffer.
\<close>

definition reader_take :: "nat \<Rightarrow> reader \<Rightarrow> (bytes \<times> reader) proto_result" where
  "reader_take n r =
     (let end_pos = rd_pos r + n in
      if 2 ^ 64 \<le> end_pos then Err Truncated
      else if end_pos \<le> length (rd_buf r)
           then Ok (slice_of (rd_pos r) end_pos (rd_buf r), r\<lparr>rd_pos := end_pos\<rparr>)
           else Err Truncated)"

text \<open>
  The fixed-width reads: \<open>take(n)?.try_into().unwrap()\<close>, whose \<open>unwrap\<close> panics if the
  slice does not have exactly \<open>n\<close> bytes.
\<close>

definition reader_word :: "nat \<Rightarrow> reader \<Rightarrow> ('a::len word \<times> reader) proto_result" where
  "reader_word n r =
     bind (reader_take n r) (\<lambda>(s, r'). if length s = n then Ok (from_le s, r') else Panic)"

definition reader_u16 :: "reader \<Rightarrow> (u16 \<times> reader) proto_result" where
  "reader_u16 r = reader_word 2 r"

definition reader_u32 :: "reader \<Rightarrow> (u32 \<times> reader) proto_result" where
  "reader_u32 r = reader_word 4 r"

definition reader_i32 :: "reader \<Rightarrow> (i32 \<times> reader) proto_result" where
  "reader_i32 r = reader_word 4 r"

definition reader_u64 :: "reader \<Rightarrow> (u64 \<times> reader) proto_result" where
  "reader_u64 r = reader_word 8 r"

definition reader_skip :: "nat \<Rightarrow> reader \<Rightarrow> reader proto_result" where
  "reader_skip n r = bind (reader_take n r) (\<lambda>(_, r'). Ok r')"

text \<open>\<open>&self.buf[self.pos..]\<close> panics when the position is past the end.\<close>

definition reader_remaining :: "reader \<Rightarrow> bytes proto_result" where
  "reader_remaining r =
     (if rd_pos r \<le> length (rd_buf r) then Ok (drop (rd_pos r) (rd_buf r)) else Panic)"

definition reader_cstr :: "reader \<Rightarrow> (bytes \<times> reader) proto_result" where
  "reader_cstr r =
     bind (reader_remaining r) (\<lambda>rest.
     bind (ok_or (position (\<lambda>b. b = 0) rest) Truncated) (\<lambda>nul.
     Ok (take nul rest, r\<lparr>rd_pos := rd_pos r + (nul + 1)\<rparr>)))"

section \<open>Writer\<close>

type_synonym writer = bytes

definition writer_new :: writer where
  "writer_new = []"

definition writer_u16 :: "u16 \<Rightarrow> writer \<Rightarrow> writer" where
  "writer_u16 v w = w @ le16 v"

definition writer_u32 :: "u32 \<Rightarrow> writer \<Rightarrow> writer" where
  "writer_u32 v w = w @ le32 v"

definition writer_i32 :: "i32 \<Rightarrow> writer \<Rightarrow> writer" where
  "writer_i32 v w = w @ le32 v"

definition writer_u64 :: "u64 \<Rightarrow> writer \<Rightarrow> writer" where
  "writer_u64 v w = w @ le64 v"

definition writer_bytes :: "bytes \<Rightarrow> writer \<Rightarrow> writer" where
  "writer_bytes b w = w @ b"

definition writer_cstr :: "bytes \<Rightarrow> writer \<Rightarrow> writer" where
  "writer_cstr s w = (w @ s) @ [0]"

text \<open>\<open>Vec::resize(len, 0)\<close> on a shorter buffer appends zeros.\<close>

definition writer_pad_to :: "nat \<Rightarrow> writer \<Rightarrow> writer" where
  "writer_pad_to n w = (if length w < n then w @ replicate (n - length w) 0 else w)"

lemmas writer_defs =
  writer_new_def writer_u16_def writer_u32_def writer_i32_def writer_u64_def writer_bytes_def
  writer_cstr_def writer_pad_to_def

section \<open>Reads by offset\<close>

text \<open>The word of \<open>n\<close> bytes at offset \<open>o\<close> of a buffer.\<close>

definition word_at :: "nat \<Rightarrow> nat \<Rightarrow> bytes \<Rightarrow> 'a::len word" where
  "word_at n i b = from_le (slice_of i (i + n) b)"

abbreviation u16_at :: "nat \<Rightarrow> bytes \<Rightarrow> u16" where "u16_at \<equiv> word_at 2"
abbreviation u32_at :: "nat \<Rightarrow> bytes \<Rightarrow> u32" where "u32_at \<equiv> word_at 4"
abbreviation u64_at :: "nat \<Rightarrow> bytes \<Rightarrow> u64" where "u64_at \<equiv> word_at 8"

text \<open>
  A Rust slice never has more than \<open>isize::MAX\<close> bytes, so no position within one overflows
  \<open>usize\<close>. This is the standing assumption on every buffer.
\<close>

definition rust_slice :: "'a list \<Rightarrow> bool" where
  "rust_slice b \<longleftrightarrow> length b < 2 ^ 63"

named_theorems cursor \<open>reads of a cursor at a known position\<close>

lemma reader_take_at [cursor]:
  assumes "rust_slice b" and "n < 2 ^ 63" and "p \<le> length b"
  shows "reader_take n \<lparr>rd_buf = b, rd_pos = p\<rparr> =
     (if p + n \<le> length b then Ok (slice_of p (p + n) b, \<lparr>rd_buf = b, rd_pos = p + n\<rparr>)
      else Err Truncated)"
  using assms by (simp add: reader_take_def Let_def rust_slice_def)

lemma reader_word_at [cursor]:
  assumes "rust_slice b" and "n < 2 ^ 63" and "p \<le> length b"
  shows "reader_word n \<lparr>rd_buf = b, rd_pos = p\<rparr> =
     (if p + n \<le> length b then Ok (word_at n p b, \<lparr>rd_buf = b, rd_pos = p + n\<rparr>)
      else Err Truncated)"
  using assms by (simp add: reader_word_def reader_take_at word_at_def)

lemma reader_skip_at [cursor]:
  assumes "rust_slice b" and "n < 2 ^ 63" and "p \<le> length b"
  shows "reader_skip n \<lparr>rd_buf = b, rd_pos = p\<rparr> =
     (if p + n \<le> length b then Ok \<lparr>rd_buf = b, rd_pos = p + n\<rparr> else Err Truncated)"
  using assms by (simp add: reader_skip_def reader_take_at)

lemma reader_remaining_at [cursor]:
  "p \<le> length b \<Longrightarrow> reader_remaining \<lparr>rd_buf = b, rd_pos = p\<rparr> = Ok (drop p b)"
  by (simp add: reader_remaining_def)

lemma position_Some:
  "position p xs = Some n \<Longrightarrow> n < length xs \<and> p (xs ! n) \<and> (\<forall>k < n. \<not> p (xs ! k))"
proof (induction xs arbitrary: n)
  case Nil
  then show ?case by simp
next
  case (Cons x xs)
  then show ?case
    by (auto split: if_splits simp: less_Suc_eq_0_disj nth_Cons split: nat.splits)
qed

lemma position_None: "position p xs = None \<longleftrightarrow> (\<forall>x \<in> set xs. \<not> p x)"
  by (induction xs) auto

lemma position_append_hit:
  "\<forall>x \<in> set xs. \<not> p x \<Longrightarrow> p y \<Longrightarrow> position p (xs @ y # ys) = Some (length xs)"
  by (induction xs) auto

lemma reader_cstr_at [cursor]:
  assumes "p \<le> length b"
  shows "reader_cstr \<lparr>rd_buf = b, rd_pos = p\<rparr> =
     (case position (\<lambda>c. c = 0) (drop p b) of
        None \<Rightarrow> Err Truncated
      | Some n \<Rightarrow> Ok (take n (drop p b), \<lparr>rd_buf = b, rd_pos = p + (n + 1)\<rparr>))"
  using assms by (simp add: reader_cstr_def reader_remaining_at split: option.splits)

lemma position_drop_bound:
  "position q (drop p b) = Some n \<Longrightarrow> p \<le> length b \<Longrightarrow> p + (n + 1) \<le> length b"
  using position_Some [of q "drop p b" n] by auto

lemmas reader_defs = reader_new_def reader_u16_def reader_u32_def reader_i32_def reader_u64_def

text \<open>The string before the first NUL is what a NUL-terminated writer put there.\<close>

lemma take_position_nul:
  assumes "0 \<notin> set (s :: bytes)"
  shows "position (\<lambda>c. c = 0) (s @ 0 # rest) = Some (length s)"
  using assms by (intro position_append_hit) auto

lemma word_at_append_le [simp]:
  fixes v :: "'a::len word"
  assumes "length pre = i" and "LENGTH('a) \<le> 8 * n"
  shows "word_at n i (pre @ to_le n v @ post) = v"
  using assms by (simp add: word_at_def slice_of_append_right slice_of_def)

lemma word_at_append_left: "i + n \<le> length b \<Longrightarrow> word_at n i (b @ c) = word_at n i b"
  by (simp add: word_at_def)

lemma word_at_append_right:
  "length b = k \<Longrightarrow> k \<le> i \<Longrightarrow> word_at n i (b @ c) = word_at n (i - k) c"
  by (simp add: word_at_def slice_of_append_right)

lemma word_at_to_le [simp]:
  fixes v :: "'a::len word"
  shows "LENGTH('a) \<le> 8 * n \<Longrightarrow> word_at n 0 (to_le n v @ post) = v"
  using word_at_append_le [of "[]" 0 n v post] by simp

end
