(* ===== verification/Vhost_Message.thy ===== *)
theory Vhost_Message
  imports Cursor
begin

text \<open>
  The vhost-user messages: the header and request codes of \<open>vhost_user/header.rs\<close> and the
  payloads of \<open>vhost_user/payload.rs\<close>.

  The locale \<open>fixed_codec\<close> is the contract of a structure of fixed size: decoding inverts
  encoding and fails exactly on a short buffer. Every payload keeps it; the region table of
  \<open>SET_MEM_TABLE\<close> is decoded entry by entry, and its round trip is proved from the contract
  of one entry.
\<close>

section \<open>Header\<close>

definition HEADER_LEN :: nat where "HEADER_LEN = 12"
definition FLAG_VERSION_1 :: u32 where "FLAG_VERSION_1 = 0x1"
definition FLAG_REPLY :: u32 where "FLAG_REPLY = 0x4"
definition FLAG_NEED_REPLY :: u32 where "FLAG_NEED_REPLY = 0x8"

datatype request =
    GetFeatures | SetFeatures | SetOwner | ResetOwner | SetMemTable | SetLogBase | SetLogFd
  | SetVringNum | SetVringAddr | SetVringBase | GetVringBase | SetVringKick | SetVringCall
  | SetVringErr | GetProtocolFeatures | SetProtocolFeatures | GetQueueNum | SetVringEnable

fun request_code :: "request \<Rightarrow> u32" where
  "request_code GetFeatures = 1"
| "request_code SetFeatures = 2"
| "request_code SetOwner = 3"
| "request_code ResetOwner = 4"
| "request_code SetMemTable = 5"
| "request_code SetLogBase = 6"
| "request_code SetLogFd = 7"
| "request_code SetVringNum = 8"
| "request_code SetVringAddr = 9"
| "request_code SetVringBase = 10"
| "request_code GetVringBase = 11"
| "request_code SetVringKick = 12"
| "request_code SetVringCall = 13"
| "request_code SetVringErr = 14"
| "request_code GetProtocolFeatures = 15"
| "request_code SetProtocolFeatures = 16"
| "request_code GetQueueNum = 17"
| "request_code SetVringEnable = 18"

definition request_try_from :: "u32 \<Rightarrow> request proto_result" where
  "request_try_from v =
     (if v = 1 then Ok GetFeatures
      else if v = 2 then Ok SetFeatures
      else if v = 3 then Ok SetOwner
      else if v = 4 then Ok ResetOwner
      else if v = 5 then Ok SetMemTable
      else if v = 6 then Ok SetLogBase
      else if v = 7 then Ok SetLogFd
      else if v = 8 then Ok SetVringNum
      else if v = 9 then Ok SetVringAddr
      else if v = 10 then Ok SetVringBase
      else if v = 11 then Ok GetVringBase
      else if v = 12 then Ok SetVringKick
      else if v = 13 then Ok SetVringCall
      else if v = 14 then Ok SetVringErr
      else if v = 15 then Ok GetProtocolFeatures
      else if v = 16 then Ok SetProtocolFeatures
      else if v = 17 then Ok GetQueueNum
      else if v = 18 then Ok SetVringEnable
      else Err (UnknownRequest v))"

record msg_header =
  mh_request :: u32
  mh_flags :: u32
  mh_size :: u32

definition msg_header_new :: "request \<Rightarrow> u32 \<Rightarrow> u32 \<Rightarrow> msg_header" where
  "msg_header_new r flags sz =
     \<lparr>mh_request = request_code r, mh_flags = flags OR FLAG_VERSION_1, mh_size = sz\<rparr>"

definition msg_header_reply :: "request \<Rightarrow> u32 \<Rightarrow> msg_header" where
  "msg_header_reply r sz = msg_header_new r FLAG_REPLY sz"

definition msg_header_request :: "msg_header \<Rightarrow> request proto_result" where
  "msg_header_request h = request_try_from (mh_request h)"

definition msg_header_is_reply :: "msg_header \<Rightarrow> bool" where
  "msg_header_is_reply h \<longleftrightarrow> mh_flags h AND FLAG_REPLY \<noteq> 0"

definition msg_header_needs_reply :: "msg_header \<Rightarrow> bool" where
  "msg_header_needs_reply h \<longleftrightarrow> mh_flags h AND FLAG_NEED_REPLY \<noteq> 0"

definition msg_header_to_bytes :: "msg_header \<Rightarrow> bytes" where
  "msg_header_to_bytes h = le32 (mh_request h) @ le32 (mh_flags h) @ le32 (mh_size h)"

text \<open>The argument is a \<open>[u8; 12]\<close>, so the three slices are in range.\<close>

definition msg_header_from_bytes :: "bytes \<Rightarrow> msg_header" where
  "msg_header_from_bytes b =
     \<lparr>mh_request = u32_at 0 b, mh_flags = u32_at 4 b,
      mh_size = u32_at 8 b\<rparr>"

section \<open>Payloads\<close>

definition u64_payload_to_bytes :: "u64 \<Rightarrow> bytes" where
  "u64_payload_to_bytes v = le64 v"

text \<open>\<open>buf.get(..8).ok_or(Truncated)?.try_into().unwrap()\<close>.\<close>

definition u64_payload_from_bytes :: "bytes \<Rightarrow> u64 proto_result" where
  "u64_payload_from_bytes buf =
     bind (if 8 \<le> length buf then Ok (take 8 buf) else Err Truncated) (\<lambda>s.
     if length s = 8 then Ok (from_le s) else Panic)"

record vring_state =
  vs_index :: u32
  vs_num :: u32

definition vring_state_to_bytes :: "vring_state \<Rightarrow> bytes" where
  "vring_state_to_bytes s = le32 (vs_index s) @ le32 (vs_num s)"

definition vring_state_from_bytes :: "bytes \<Rightarrow> vring_state proto_result" where
  "vring_state_from_bytes buf =
     (if length buf < 8 then Err Truncated
      else Ok \<lparr>vs_index = u32_at 0 buf, vs_num = u32_at 4 buf\<rparr>)"

record vring_addr =
  va_index :: u32
  va_flags :: u32
  va_descriptor :: u64
  va_used :: u64
  va_avail :: u64
  va_log :: u64

definition vring_addr_from_bytes :: "bytes \<Rightarrow> vring_addr proto_result" where
  "vring_addr_from_bytes buf =
     (if length buf < 40 then Err Truncated
      else Ok \<lparr>va_index = u32_at 0 buf, va_flags = u32_at 4 buf,
               va_descriptor = u64_at 8 buf, va_used = u64_at 16 buf,
               va_avail = u64_at 24 buf, va_log = u64_at 32 buf\<rparr>)"

definition vring_addr_to_bytes :: "vring_addr \<Rightarrow> bytes" where
  "vring_addr_to_bytes a =
     le32 (va_index a) @ le32 (va_flags a) @ le64 (va_descriptor a) @ le64 (va_used a)
     @ le64 (va_avail a) @ le64 (va_log a)"

definition VRING_NOFD_MASK :: u64 where "VRING_NOFD_MASK = 0x100"

record vring_fd_payload =
  vf_index :: u8
  vf_no_fd :: bool

definition vring_fd_payload_from_bytes :: "bytes \<Rightarrow> vring_fd_payload proto_result" where
  "vring_fd_payload_from_bytes buf =
     bind (u64_payload_from_bytes buf) (\<lambda>u.
     Ok \<lparr>vf_index = ucast (u AND 0xff), vf_no_fd = (u AND VRING_NOFD_MASK \<noteq> 0)\<rparr>)"

definition vring_fd_payload_to_bytes :: "vring_fd_payload \<Rightarrow> bytes" where
  "vring_fd_payload_to_bytes p =
     (let v = ucast (vf_index p) :: u64;
          v = (if vf_no_fd p then v OR VRING_NOFD_MASK else v)
      in u64_payload_to_bytes v)"

record memory_region =
  guest_phys_addr :: u64
  memory_size :: u64
  userspace_addr :: u64
  mmap_offset :: u64

definition memory_region_from_bytes :: "bytes \<Rightarrow> memory_region proto_result" where
  "memory_region_from_bytes buf =
     (if length buf < 32 then Err Truncated
      else Ok \<lparr>guest_phys_addr = u64_at 0 buf, memory_size = u64_at 8 buf,
               userspace_addr = u64_at 16 buf, mmap_offset = u64_at 24 buf\<rparr>)"

definition memory_region_to_bytes :: "memory_region \<Rightarrow> bytes" where
  "memory_region_to_bytes r =
     le64 (guest_phys_addr r) @ le64 (memory_size r) @ le64 (userspace_addr r)
     @ le64 (mmap_offset r)"

text \<open>
  The loop of \<open>MemoryRegions::from_bytes\<close>: \<open>count\<close> entries of \<open>n\<close> bytes from an
  offset on, each cut out with \<open>get(offset..end)\<close>.
\<close>

primrec entries_at ::
  "(bytes \<Rightarrow> 'a proto_result) \<Rightarrow> nat \<Rightarrow> nat \<Rightarrow> nat \<Rightarrow> bytes \<Rightarrow> 'a list proto_result" where
  "entries_at dec n 0 offset buf = Ok []"
| "entries_at dec n (Suc count) offset buf =
     (let e = offset + n in
      bind (if e \<le> length buf then Ok (slice_of offset e buf) else Err Truncated) (\<lambda>s.
      bind (dec s) (\<lambda>x.
      bind (entries_at dec n count e buf) (\<lambda>xs. Ok (x # xs)))))"

definition memory_regions_from_bytes :: "bytes \<Rightarrow> memory_region list proto_result" where
  "memory_regions_from_bytes buf =
     (if length buf < 8 then Err Truncated
      else let count = unat (u32_at 0 buf)
           in entries_at memory_region_from_bytes 32 count 8 buf)"

definition memory_regions_to_bytes :: "memory_region list \<Rightarrow> bytes" where
  "memory_regions_to_bytes rs =
     le32 (of_nat (length rs)) @ le32 0 @ concat (map memory_region_to_bytes rs)"

section \<open>The contract of a fixed-size structure\<close>

locale fixed_codec =
  fixes enc :: "'a \<Rightarrow> bytes"
    and dec :: "bytes \<Rightarrow> 'a proto_result"
    and n :: nat
  assumes length_enc: "length (enc x) = n"
    and dec_enc: "dec (enc x @ rest) = Ok x"
    and dec_short: "length b < n \<Longrightarrow> dec b = Err Truncated"
    and dec_total: "n \<le> length b \<Longrightarrow> \<exists>x. dec b = Ok x"
begin

lemma enc_inject: "enc x = enc y \<longleftrightarrow> x = y"
  by (metis dec_enc result.inject(1))

lemma dec_no_panic: "dec b \<noteq> Panic"
  using dec_total [of b] dec_short [of b] by (cases "n \<le> length b") auto

lemma dec_Ok_iff: "(\<exists>x. dec b = Ok x) \<longleftrightarrow> n \<le> length b"
  using dec_total [of b] dec_short [of b] by (cases "n \<le> length b") auto

text \<open>A table of entries decodes to what was encoded, and a table cut short is refused.\<close>

lemma entries_at_enc:
  "length pre = offset \<Longrightarrow>
   entries_at dec n (length xs) offset (pre @ concat (map enc xs) @ rest) = Ok xs"
proof (induction xs arbitrary: pre offset)
  case Nil
  then show ?case by simp
next
  case (Cons x xs)
  have slice: "slice_of offset (offset + n) (pre @ enc x @ concat (map enc xs) @ rest) = enc x"
    using Cons.prems length_enc by (simp add: slice_of_def)
  have "entries_at dec n (length xs) (offset + n) ((pre @ enc x) @ concat (map enc xs) @ rest) = Ok xs"
    using Cons.prems length_enc by (intro Cons.IH) simp
  with slice show ?case
    using Cons.prems dec_enc [of x "[]"] length_enc by (simp add: Let_def)
qed

lemma entries_at_short:
  "length b < offset + n * count \<Longrightarrow> offset \<le> length b \<Longrightarrow>
   entries_at dec n count offset b = Err Truncated"
proof (induction count arbitrary: offset)
  case 0
  then show ?case by simp
next
  case (Suc count)
  show ?case
  proof (cases "offset + n \<le> length b")
    case True
    then have "\<exists>x. dec (slice_of offset (offset + n) b) = Ok x"
      by (intro dec_total) simp
    with True Suc show ?thesis
      by (auto simp: Let_def)
  qed simp
qed

lemma entries_at_no_panic: "entries_at dec n count offset b \<noteq> Panic"
  by (induction count arbitrary: offset) (auto simp: Let_def bind_eq_Panic dec_no_panic)

end

text \<open>A structure with no unused bits: the bytes are recovered from the value as well.\<close>

locale exact_codec = fixed_codec +
  assumes enc_dec: "dec b = Ok x \<Longrightarrow> enc x = take n b"
begin

lemma dec_prefix: "dec b = Ok x \<longleftrightarrow> n \<le> length b \<and> take n b = enc x"
proof
  assume "dec b = Ok x"
  then show "n \<le> length b \<and> take n b = enc x"
    using enc_dec dec_Ok_iff by metis
next
  assume "n \<le> length b \<and> take n b = enc x"
  then show "dec b = Ok x"
    using dec_enc [of x "drop n b"] by (metis append_take_drop_id)
qed

end

section \<open>The payloads keep the contract\<close>

lemma le_word_at:
  fixes b :: bytes
  shows "i + 4 \<le> length b \<Longrightarrow> le32 (word_at 4 i b) = slice_of i (i + 4) b"
    and "i + 8 \<le> length b \<Longrightarrow> le64 (word_at 8 i b) = slice_of i (i + 8) b"
  using to_le_from_le [of "slice_of i (i + 4) b", where 'a = 32]
    to_le_from_le [of "slice_of i (i + 8) b", where 'a = 64]
  by (simp_all add: word_at_def)

lemma le64_take: "8 \<le> length b \<Longrightarrow> le64 (from_le (take 8 b)) = take 8 b"
  using to_le_from_le [of "take 8 b", where 'a = 64] by simp

lemma slice_of_append_slice:
  "a \<le> m \<Longrightarrow> m \<le> c \<Longrightarrow> c \<le> length xs \<Longrightarrow> slice_of a m xs @ slice_of m c xs = slice_of a c xs"
  using take_drop_split [of "m - a" a xs "c - m"] by (simp add: slice_of_def)

lemma take_append_slice: "m \<le> c \<Longrightarrow> c \<le> length xs \<Longrightarrow> take m xs @ slice_of m c xs = take c xs"
  using slice_of_append_slice [of 0 m c xs] by (simp add: slice_of_0)

lemma word_at_to_le_only [simp]:
  fixes v :: "'a::len word"
  shows "LENGTH('a) \<le> 8 * n \<Longrightarrow> word_at n 0 (to_le n v) = v"
  using word_at_to_le [of n v "[]"] by simp

lemmas payload_defs =
  u64_payload_to_bytes_def u64_payload_from_bytes_def vring_state_to_bytes_def
  vring_state_from_bytes_def vring_addr_to_bytes_def vring_addr_from_bytes_def
  memory_region_to_bytes_def memory_region_from_bytes_def
  word_at_append_right le_word_at slice_of_append_slice take_append_slice slice_of_0

interpretation u64_payload: exact_codec u64_payload_to_bytes u64_payload_from_bytes 8
  by unfold_locales
    (auto simp: payload_defs le64_take split: if_splits)

interpretation vring_state: exact_codec vring_state_to_bytes vring_state_from_bytes 8
  by unfold_locales
    (auto simp: payload_defs split: if_splits)

interpretation vring_addr: exact_codec vring_addr_to_bytes vring_addr_from_bytes 40
  by unfold_locales
    (auto simp: payload_defs split: if_splits)

interpretation memory_region: exact_codec memory_region_to_bytes memory_region_from_bytes 32
  by unfold_locales
    (auto simp: payload_defs split: if_splits)

interpretation vring_fd_payload:
  fixed_codec vring_fd_payload_to_bytes vring_fd_payload_from_bytes 8
proof (unfold_locales, goal_cases)
  case (2 p rest)
  have "ucast ((if f then ucast i OR VRING_NOFD_MASK else ucast i) AND 0xff :: u64) = i"
    and "((if f then ucast i OR VRING_NOFD_MASK else ucast i) AND VRING_NOFD_MASK :: u64) \<noteq> 0 \<longleftrightarrow> f"
    for i :: u8 and f
  proof -
    let ?v = "(if f then ucast i OR VRING_NOFD_MASK else ucast i) :: u64"
    define m :: nat where "m = 8"
    have mask: "VRING_NOFD_MASK = 2 ^ m" and low: "0xff = (mask 8 :: u64)"
      by (simp_all add: VRING_NOFD_MASK_def mask_eq_exp_minus_1 m_def)
    have m: "8 \<le> m" "m < 64" by (simp_all add: m_def)
    show "ucast (?v AND 0xff) = i"
      unfolding low mask by (rule bit_word_eqI) (use m in \<open>auto simp: bit_simps bit_exp_iff\<close>)
    show "?v AND VRING_NOFD_MASK \<noteq> 0 \<longleftrightarrow> f"
      unfolding mask and_exp_eq_0_iff_not_bit
      using m by (auto simp: bit_simps bit_exp_iff dest: bit_imp_le_length)
  qed
  then show ?case
    by (simp add: vring_fd_payload_from_bytes_def vring_fd_payload_to_bytes_def Let_def
        u64_payload.dec_enc)
qed (auto simp: vring_fd_payload_from_bytes_def vring_fd_payload_to_bytes_def
    u64_payload_to_bytes_def u64_payload_from_bytes_def Let_def)

lemma msg_header_round_trip: "msg_header_from_bytes (msg_header_to_bytes h) = h"
  by (simp add: msg_header_from_bytes_def msg_header_to_bytes_def word_at_append_right)

lemma request_try_from_code: "request_try_from (request_code r) = Ok r"
  by (cases r) (simp_all add: request_try_from_def)

lemma request_try_from_Ok: "request_try_from v = Ok r \<Longrightarrow> v = request_code r"
  by (auto simp: request_try_from_def split: if_splits)

lemma memory_regions_round_trip:
  assumes "length rs < 2 ^ 32"
  shows "memory_regions_from_bytes (memory_regions_to_bytes rs @ rest) = Ok rs"
proof -
  let ?b = "memory_regions_to_bytes rs @ rest"
  have "u32_at 0 ?b = of_nat (length rs)"
    by (simp add: memory_regions_to_bytes_def)
  then have "unat (u32_at 0 ?b) = length rs"
    using assms by (simp add: unat_of_nat)
  moreover have "?b = (le32 (of_nat (length rs)) @ le32 0) @ concat (map memory_region_to_bytes rs) @ rest"
    by (simp add: memory_regions_to_bytes_def)
  ultimately show ?thesis
    using memory_region.entries_at_enc [of "le32 (of_nat (length rs)) @ le32 0" 8 rs rest]
    by (simp add: memory_regions_from_bytes_def)
qed

end
