(* ===== verification/Errno.thy ===== *)
theory Errno
  imports Prelude
begin

text \<open>
  Errno translation (\<open>fuse/linux_errno.rs\<close>). The numeric errno constants of the host come from
  the \<open>libc\<close> crate and differ between hosts, so they are a parameter: a table that gives
  every errno name the number the host uses. \<open>to_linux_errno\<close> is the ordered match of the
  source over that table. The tables of Linux and macOS, as their system headers document them,
  instantiate it.
\<close>

datatype (plugins only: size) errno_name =
    EPERM | ENOENT | ESRCH | EINTR | EIO | ENXIO | E2BIG | ENOEXEC | EBADF | ECHILD | EAGAIN
    | ENOMEM | EACCES | EFAULT | EBUSY | EEXIST | EXDEV | ENODEV | ENOTDIR | EISDIR | EINVAL
    | ENFILE | EMFILE | ENOTTY | ETXTBSY | EFBIG | ENOSPC | ESPIPE | EROFS | EMLINK | EPIPE
    | EDOM | ERANGE | EDEADLK | ENAMETOOLONG | ENOLCK | ENOSYS | ENOTEMPTY | ELOOP | ENOMSG
    | EIDRM | EOVERFLOW | EBADMSG | EILSEQ | ENOTSOCK | EDESTADDRREQ | EMSGSIZE | EPROTOTYPE
    | ENOPROTOOPT | EPROTONOSUPPORT | ENOTSUP | EOPNOTSUPP | EAFNOSUPPORT | EADDRINUSE
    | EADDRNOTAVAIL | ENETDOWN | ENETUNREACH | ENETRESET | ECONNABORTED | ECONNRESET
    | ENOBUFS | EISCONN | ENOTCONN | ETIMEDOUT | ECONNREFUSED | EHOSTUNREACH | EALREADY
    | EINPROGRESS | ESTALE | EDQUOT | ECANCELED

type_synonym errno_table = "errno_name \<Rightarrow> i32"

section \<open>The translation\<close>

text \<open>The arms of the match, in order: the names a guard compares with, and the number sent.\<close>

definition errno_arms :: "(errno_name list \<times> i32) list" where
  "errno_arms =
    [([EPERM], 1), ([ENOENT], 2), ([ESRCH], 3), ([EINTR], 4), ([EIO], 5), ([ENXIO], 6)
     , ([E2BIG], 7), ([ENOEXEC], 8), ([EBADF], 9), ([ECHILD], 10), ([EAGAIN], 11)
     , ([ENOMEM], 12), ([EACCES], 13), ([EFAULT], 14), ([EBUSY], 16), ([EEXIST], 17)
     , ([EXDEV], 18), ([ENODEV], 19), ([ENOTDIR], 20), ([EISDIR], 21), ([EINVAL], 22)
     , ([ENFILE], 23), ([EMFILE], 24), ([ENOTTY], 25), ([ETXTBSY], 26), ([EFBIG], 27)
     , ([ENOSPC], 28), ([ESPIPE], 29), ([EROFS], 30), ([EMLINK], 31), ([EPIPE], 32)
     , ([EDOM], 33), ([ERANGE], 34), ([EDEADLK], 35), ([ENAMETOOLONG], 36), ([ENOLCK], 37)
     , ([ENOSYS], 38), ([ENOTEMPTY], 39), ([ELOOP], 40), ([ENOMSG], 42), ([EIDRM], 43)
     , ([EOVERFLOW], 75), ([EBADMSG], 74), ([EILSEQ], 84), ([ENOTSOCK], 88)
     , ([EDESTADDRREQ], 89), ([EMSGSIZE], 90), ([EPROTOTYPE], 91), ([ENOPROTOOPT], 92)
     , ([EPROTONOSUPPORT], 93), ([ENOTSUP, EOPNOTSUPP], 95), ([EAFNOSUPPORT], 97)
     , ([EADDRINUSE], 98), ([EADDRNOTAVAIL], 99), ([ENETDOWN], 100), ([ENETUNREACH], 101)
     , ([ENETRESET], 102), ([ECONNABORTED], 103), ([ECONNRESET], 104), ([ENOBUFS], 105)
     , ([EISCONN], 106), ([ENOTCONN], 107), ([ETIMEDOUT], 110), ([ECONNREFUSED], 111)
     , ([EHOSTUNREACH], 113), ([EALREADY], 114), ([EINPROGRESS], 115), ([ESTALE], 116)
     , ([EDQUOT], 122), ([ECANCELED], 125)]"

definition to_linux_errno :: "errno_table \<Rightarrow> i32 \<Rightarrow> i32" where
  "to_linux_errno tbl host_errno =
     (case find (\<lambda>(names, _). host_errno \<in> tbl ` set names) errno_arms of
        Some (_, linux) \<Rightarrow> linux
      | None \<Rightarrow> 5)"

section \<open>Host tables\<close>

primrec linux_errno :: errno_table where
  "linux_errno EPERM = 1"
| "linux_errno ENOENT = 2"
| "linux_errno ESRCH = 3"
| "linux_errno EINTR = 4"
| "linux_errno EIO = 5"
| "linux_errno ENXIO = 6"
| "linux_errno E2BIG = 7"
| "linux_errno ENOEXEC = 8"
| "linux_errno EBADF = 9"
| "linux_errno ECHILD = 10"
| "linux_errno EAGAIN = 11"
| "linux_errno ENOMEM = 12"
| "linux_errno EACCES = 13"
| "linux_errno EFAULT = 14"
| "linux_errno EBUSY = 16"
| "linux_errno EEXIST = 17"
| "linux_errno EXDEV = 18"
| "linux_errno ENODEV = 19"
| "linux_errno ENOTDIR = 20"
| "linux_errno EISDIR = 21"
| "linux_errno EINVAL = 22"
| "linux_errno ENFILE = 23"
| "linux_errno EMFILE = 24"
| "linux_errno ENOTTY = 25"
| "linux_errno ETXTBSY = 26"
| "linux_errno EFBIG = 27"
| "linux_errno ENOSPC = 28"
| "linux_errno ESPIPE = 29"
| "linux_errno EROFS = 30"
| "linux_errno EMLINK = 31"
| "linux_errno EPIPE = 32"
| "linux_errno EDOM = 33"
| "linux_errno ERANGE = 34"
| "linux_errno EDEADLK = 35"
| "linux_errno ENAMETOOLONG = 36"
| "linux_errno ENOLCK = 37"
| "linux_errno ENOSYS = 38"
| "linux_errno ENOTEMPTY = 39"
| "linux_errno ELOOP = 40"
| "linux_errno ENOMSG = 42"
| "linux_errno EIDRM = 43"
| "linux_errno EOVERFLOW = 75"
| "linux_errno EBADMSG = 74"
| "linux_errno EILSEQ = 84"
| "linux_errno ENOTSOCK = 88"
| "linux_errno EDESTADDRREQ = 89"
| "linux_errno EMSGSIZE = 90"
| "linux_errno EPROTOTYPE = 91"
| "linux_errno ENOPROTOOPT = 92"
| "linux_errno EPROTONOSUPPORT = 93"
| "linux_errno ENOTSUP = 95"
| "linux_errno EOPNOTSUPP = 95"
| "linux_errno EAFNOSUPPORT = 97"
| "linux_errno EADDRINUSE = 98"
| "linux_errno EADDRNOTAVAIL = 99"
| "linux_errno ENETDOWN = 100"
| "linux_errno ENETUNREACH = 101"
| "linux_errno ENETRESET = 102"
| "linux_errno ECONNABORTED = 103"
| "linux_errno ECONNRESET = 104"
| "linux_errno ENOBUFS = 105"
| "linux_errno EISCONN = 106"
| "linux_errno ENOTCONN = 107"
| "linux_errno ETIMEDOUT = 110"
| "linux_errno ECONNREFUSED = 111"
| "linux_errno EHOSTUNREACH = 113"
| "linux_errno EALREADY = 114"
| "linux_errno EINPROGRESS = 115"
| "linux_errno ESTALE = 116"
| "linux_errno EDQUOT = 122"
| "linux_errno ECANCELED = 125"

primrec macos_errno :: errno_table where
  "macos_errno EPERM = 1"
| "macos_errno ENOENT = 2"
| "macos_errno ESRCH = 3"
| "macos_errno EINTR = 4"
| "macos_errno EIO = 5"
| "macos_errno ENXIO = 6"
| "macos_errno E2BIG = 7"
| "macos_errno ENOEXEC = 8"
| "macos_errno EBADF = 9"
| "macos_errno ECHILD = 10"
| "macos_errno EAGAIN = 35"
| "macos_errno ENOMEM = 12"
| "macos_errno EACCES = 13"
| "macos_errno EFAULT = 14"
| "macos_errno EBUSY = 16"
| "macos_errno EEXIST = 17"
| "macos_errno EXDEV = 18"
| "macos_errno ENODEV = 19"
| "macos_errno ENOTDIR = 20"
| "macos_errno EISDIR = 21"
| "macos_errno EINVAL = 22"
| "macos_errno ENFILE = 23"
| "macos_errno EMFILE = 24"
| "macos_errno ENOTTY = 25"
| "macos_errno ETXTBSY = 26"
| "macos_errno EFBIG = 27"
| "macos_errno ENOSPC = 28"
| "macos_errno ESPIPE = 29"
| "macos_errno EROFS = 30"
| "macos_errno EMLINK = 31"
| "macos_errno EPIPE = 32"
| "macos_errno EDOM = 33"
| "macos_errno ERANGE = 34"
| "macos_errno EDEADLK = 11"
| "macos_errno ENAMETOOLONG = 63"
| "macos_errno ENOLCK = 77"
| "macos_errno ENOSYS = 78"
| "macos_errno ENOTEMPTY = 66"
| "macos_errno ELOOP = 62"
| "macos_errno ENOMSG = 91"
| "macos_errno EIDRM = 90"
| "macos_errno EOVERFLOW = 84"
| "macos_errno EBADMSG = 94"
| "macos_errno EILSEQ = 92"
| "macos_errno ENOTSOCK = 38"
| "macos_errno EDESTADDRREQ = 39"
| "macos_errno EMSGSIZE = 40"
| "macos_errno EPROTOTYPE = 41"
| "macos_errno ENOPROTOOPT = 42"
| "macos_errno EPROTONOSUPPORT = 43"
| "macos_errno ENOTSUP = 45"
| "macos_errno EOPNOTSUPP = 102"
| "macos_errno EAFNOSUPPORT = 47"
| "macos_errno EADDRINUSE = 48"
| "macos_errno EADDRNOTAVAIL = 49"
| "macos_errno ENETDOWN = 50"
| "macos_errno ENETUNREACH = 51"
| "macos_errno ENETRESET = 52"
| "macos_errno ECONNABORTED = 53"
| "macos_errno ECONNRESET = 54"
| "macos_errno ENOBUFS = 55"
| "macos_errno EISCONN = 56"
| "macos_errno ENOTCONN = 57"
| "macos_errno ETIMEDOUT = 60"
| "macos_errno ECONNREFUSED = 61"
| "macos_errno EHOSTUNREACH = 65"
| "macos_errno EALREADY = 37"
| "macos_errno EINPROGRESS = 36"
| "macos_errno ESTALE = 70"
| "macos_errno EDQUOT = 69"
| "macos_errno ECANCELED = 89"

text \<open>
  What a host's table must satisfy: different errno names have different numbers, except that
  \<open>EOPNOTSUPP\<close> may be the number of \<open>ENOTSUP\<close>, as on Linux.
\<close>

definition errno_table_ok :: "errno_table \<Rightarrow> bool" where
  "errno_table_ok tbl \<longleftrightarrow>
     inj_on tbl (- {EOPNOTSUPP}) \<and>
     (\<forall>n. tbl n = tbl EOPNOTSUPP \<longrightarrow> n = EOPNOTSUPP \<or> n = ENOTSUP)"

section \<open>The translation is right on every host\<close>

text \<open>Every arm sends the Linux number of the names its guard compares with.\<close>

lemma errno_arms_linux: "\<forall>(names, v) \<in> set errno_arms. \<forall>n \<in> set names. linux_errno n = v"
  by (simp add: errno_arms_def)

lemma errno_arms_complete: "\<exists>(names, v) \<in> set errno_arms. n \<in> set names"
  by (cases n) (simp_all add: errno_arms_def)

text \<open>Names that a good host table cannot tell apart have the same Linux number.\<close>

lemma errno_table_ok_linux:
  assumes "errno_table_ok tbl" and "tbl n = tbl m"
  shows "linux_errno n = linux_errno m"
proof (cases "n = EOPNOTSUPP \<or> m = EOPNOTSUPP")
  case True
  with assms have "n \<in> {EOPNOTSUPP, ENOTSUP}" "m \<in> {EOPNOTSUPP, ENOTSUP}"
    unfolding errno_table_ok_def by (metis insertCI)+
  then show ?thesis by auto
next
  case False
  with assms have "n = m"
    unfolding errno_table_ok_def by (auto dest: inj_onD)
  then show ?thesis by simp
qed

lemma find_SomeE:
  assumes "x \<in> set xs" and "P x"
  obtains y where "find P xs = Some y" "y \<in> set xs" "P y"
  using assms by (metis find_Some_iff find_None_iff nth_mem option.exhaust)

lemma to_linux_errno_named:
  assumes "errno_table_ok tbl"
  shows "to_linux_errno tbl (tbl n) = linux_errno n"
proof -
  let ?P = "\<lambda>(names, v :: i32). tbl n \<in> tbl ` set names"
  obtain a where a: "a \<in> set errno_arms" "?P a"
    using errno_arms_complete [of n] by fastforce
  obtain names v where hit: "find ?P errno_arms = Some (names, v)"
      "(names, v) \<in> set errno_arms" "?P (names, v)"
    using find_SomeE [where P = ?P, OF a] by (metis surj_pair)
  then obtain m where m: "m \<in> set names" "tbl n = tbl m" by auto
  then have "v = linux_errno m"
    using hit(2) errno_arms_linux by fastforce
  also have "\<dots> = linux_errno n"
    using errno_table_ok_linux [OF assms] m(2) by metis
  finally show ?thesis
    by (simp add: to_linux_errno_def hit(1))
qed

text \<open>Whatever the host error, a Linux errno between 1 and 125 is sent.\<close>

lemma errno_arms_range: "\<forall>(names, v) \<in> set errno_arms. 1 \<le> v \<and> v \<le> 125"
  by (simp add: errno_arms_def)

lemma to_linux_errno_range:
  "1 \<le> to_linux_errno tbl e \<and> to_linux_errno tbl e \<le> 125"
proof (cases "find (\<lambda>(names, _). e \<in> tbl ` set names) errno_arms")
  case None
  then show ?thesis by (simp add: to_linux_errno_def)
next
  case (Some a)
  then have "a \<in> set errno_arms"
    by (auto simp: find_Some_iff in_set_conv_nth)
  with Some errno_arms_range show ?thesis
    by (auto simp: to_linux_errno_def)
qed

lemma to_linux_errno_unmapped:
  assumes "e \<notin> range tbl"
  shows "to_linux_errno tbl e = 5"
proof -
  have "find (\<lambda>(names, _). e \<in> tbl ` set names) errno_arms = None"
    using assms by (auto simp: find_None_iff)
  then show ?thesis by (simp add: to_linux_errno_def)
qed

section \<open>The documented tables are good\<close>

text \<open>
  To see that a table has no collision it is enough to list the names by increasing number:
  one comparison per name.
\<close>

lemma errno_table_okI:
  assumes names: "- {EOPNOTSUPP} \<subseteq> set names"
    and increasing: "successively (<) (map tbl names)"
    and unsupported: "\<forall>n \<in> set names. tbl n = tbl EOPNOTSUPP \<longrightarrow> n = ENOTSUP"
  shows "errno_table_ok tbl"
proof -
  have "sorted_wrt (<) (map tbl names)"
    using increasing by (simp add: successively_conv_sorted_wrt)
  then have "distinct (map tbl names)"
    by (simp add: strict_sorted_iff)
  then have "inj_on tbl (- {EOPNOTSUPP})"
    using names by (auto simp: distinct_map intro: inj_on_subset)
  moreover have "n = EOPNOTSUPP \<or> n = ENOTSUP" if "tbl n = tbl EOPNOTSUPP" for n
    using names unsupported that by (cases "n = EOPNOTSUPP") auto
  ultimately show ?thesis
    by (simp add: errno_table_ok_def)
qed

definition macos_names :: "errno_name list" where
  "macos_names =
    [EPERM, ENOENT, ESRCH, EINTR, EIO, ENXIO, E2BIG, ENOEXEC, EBADF, ECHILD, EDEADLK, ENOMEM,
     EACCES, EFAULT, EBUSY, EEXIST, EXDEV, ENODEV, ENOTDIR, EISDIR, EINVAL, ENFILE, EMFILE,
     ENOTTY, ETXTBSY, EFBIG, ENOSPC, ESPIPE, EROFS, EMLINK, EPIPE, EDOM, ERANGE, EAGAIN,
     EINPROGRESS, EALREADY, ENOTSOCK, EDESTADDRREQ, EMSGSIZE, EPROTOTYPE, ENOPROTOOPT,
     EPROTONOSUPPORT, ENOTSUP, EAFNOSUPPORT, EADDRINUSE, EADDRNOTAVAIL, ENETDOWN,
     ENETUNREACH, ENETRESET, ECONNABORTED, ECONNRESET, ENOBUFS, EISCONN, ENOTCONN, ETIMEDOUT,
     ECONNREFUSED, ELOOP, ENAMETOOLONG, EHOSTUNREACH, ENOTEMPTY, EDQUOT, ESTALE, ENOLCK,
     ENOSYS, EOVERFLOW, ECANCELED, EIDRM, ENOMSG, EILSEQ, EBADMSG]"

definition linux_names :: "errno_name list" where
  "linux_names =
    [EPERM, ENOENT, ESRCH, EINTR, EIO, ENXIO, E2BIG, ENOEXEC, EBADF, ECHILD, EAGAIN, ENOMEM,
     EACCES, EFAULT, EBUSY, EEXIST, EXDEV, ENODEV, ENOTDIR, EISDIR, EINVAL, ENFILE, EMFILE,
     ENOTTY, ETXTBSY, EFBIG, ENOSPC, ESPIPE, EROFS, EMLINK, EPIPE, EDOM, ERANGE, EDEADLK,
     ENAMETOOLONG, ENOLCK, ENOSYS, ENOTEMPTY, ELOOP, ENOMSG, EIDRM, EBADMSG, EOVERFLOW,
     EILSEQ, ENOTSOCK, EDESTADDRREQ, EMSGSIZE, EPROTOTYPE, ENOPROTOOPT, EPROTONOSUPPORT,
     ENOTSUP, EAFNOSUPPORT, EADDRINUSE, EADDRNOTAVAIL, ENETDOWN, ENETUNREACH, ENETRESET,
     ECONNABORTED, ECONNRESET, ENOBUFS, EISCONN, ENOTCONN, ETIMEDOUT, ECONNREFUSED,
     EHOSTUNREACH, EALREADY, EINPROGRESS, ESTALE, EDQUOT, ECANCELED]"

lemma macos_names_all: "n \<noteq> EOPNOTSUPP \<Longrightarrow> n \<in> set macos_names"
  by (cases n) (simp_all add: macos_names_def)

lemma linux_names_all: "n \<noteq> EOPNOTSUPP \<Longrightarrow> n \<in> set linux_names"
  by (cases n) (simp_all add: linux_names_def)

lemma errno_table_ok_macos: "errno_table_ok macos_errno"
proof (rule errno_table_okI)
  show "- {EOPNOTSUPP} \<subseteq> set macos_names"
    using macos_names_all by auto
  show "successively (<) (map macos_errno macos_names)"
    by (simp add: macos_names_def)
  show "\<forall>n \<in> set macos_names. macos_errno n = macos_errno EOPNOTSUPP \<longrightarrow> n = ENOTSUP"
    by (simp add: macos_names_def)
qed

lemma errno_table_ok_linux_table: "errno_table_ok linux_errno"
proof (rule errno_table_okI)
  show "- {EOPNOTSUPP} \<subseteq> set linux_names"
    using linux_names_all by auto
  show "successively (<) (map linux_errno linux_names)"
    by (simp add: linux_names_def)
  show "\<forall>n \<in> set linux_names. linux_errno n = linux_errno EOPNOTSUPP \<longrightarrow> n = ENOTSUP"
    by (simp add: linux_names_def)
qed

end
