(* ===== verification/Core_Types.thy ===== *)
theory Core_Types
  imports Errno
begin

text \<open>
  The plain data of \<open>riftlessfs-core\<close>: \<open>FsError\<close> (error.rs), \<open>Attr\<close> and
  \<open>SetAttr\<close> (attr.rs), \<open>FileKind\<close> (inode.rs), and the C structures \<open>stat\<close> and
  \<open>statvfs\<close> the host fills in, with the field widths of 64-bit Linux.
\<close>

section \<open>Errors\<close>

text \<open>
  The payload of an \<open>Io\<close> error is its errno; the \<open>io::Error\<close> it wraps only serves the
  message text. The strings are the messages of the source.
\<close>

datatype fs_error =
    FsIo i32
  | UnknownInode u64
  | UnknownHandle u64
  | Unsupported string
  | InvalidArgument string
  | NameTooLong
  | PathEscape

type_synonym 'a fs_result = "('a, fs_error) result"

fun fs_error_errno :: "errno_table \<Rightarrow> fs_error \<Rightarrow> i32" where
  "fs_error_errno tbl (FsIo errno) = errno"
| "fs_error_errno tbl (UnknownInode _) = tbl EBADF"
| "fs_error_errno tbl (UnknownHandle _) = tbl EBADF"
| "fs_error_errno tbl (Unsupported _) = tbl ENOSYS"
| "fs_error_errno tbl (InvalidArgument _) = tbl EINVAL"
| "fs_error_errno tbl NameTooLong = tbl ENAMETOOLONG"
| "fs_error_errno tbl PathEscape = tbl EACCES"

text \<open>\<open>From<io::Error>\<close>: the raw OS error, or \<open>EIO\<close> when the error has none.\<close>

definition fs_error_from_io :: "errno_table \<Rightarrow> i32 option \<Rightarrow> fs_error" where
  "fs_error_from_io tbl raw_os_error = FsIo (case raw_os_error of Some e \<Rightarrow> e | None \<Rightarrow> tbl EIO)"

text \<open>\<open>From<nix::Error>\<close>: the errno itself.\<close>

definition fs_error_from_nix :: "i32 \<Rightarrow> fs_error" where
  "fs_error_from_nix e = FsIo e"

definition fs_error_to_linux_errno :: "errno_table \<Rightarrow> fs_error \<Rightarrow> i32" where
  "fs_error_to_linux_errno tbl e = to_linux_errno tbl (fs_error_errno tbl e)"

section \<open>Host structures\<close>

record stat =
  st_dev :: u64
  st_ino :: u64
  st_mode :: u32
  st_nlink :: u64
  st_uid :: u32
  st_gid :: u32
  st_rdev :: u64
  st_size :: i64
  st_blksize :: i64
  st_blocks :: i64
  st_atime :: i64
  st_atime_nsec :: i64
  st_mtime :: i64
  st_mtime_nsec :: i64
  st_ctime :: i64
  st_ctime_nsec :: i64

record statvfs =
  f_bsize :: u64
  f_frsize :: u64
  f_blocks :: u64
  f_bfree :: u64
  f_bavail :: u64
  f_files :: u64
  f_ffree :: u64
  f_namemax :: u64

section \<open>Attributes\<close>

definition S_IFMT :: u32 where "S_IFMT = 0xF000"
definition S_IFDIR :: u32 where "S_IFDIR = 0x4000"
definition S_IFLNK :: u32 where "S_IFLNK = 0xA000"
definition S_IFREG :: u32 where "S_IFREG = 0x8000"

lemmas S_IF_defs = S_IFMT_def S_IFDIR_def S_IFLNK_def S_IFREG_def

record attr =
  attr_ino :: u64
  attr_size :: u64
  attr_blocks :: u64
  attr_atime :: "i64 \<times> u32"
  attr_mtime :: "i64 \<times> u32"
  attr_ctime :: "i64 \<times> u32"
  attr_mode :: u32
  attr_nlink :: u32
  attr_uid :: u32
  attr_gid :: u32
  attr_rdev :: u32
  attr_blksize :: u32

definition attr_from_stat :: "stat \<Rightarrow> attr" where
  "attr_from_stat st =
     \<lparr>attr_ino = st_ino st,
      attr_size = st_size st,
      attr_blocks = st_blocks st,
      attr_atime = (st_atime st, ucast (st_atime_nsec st)),
      attr_mtime = (st_mtime st, ucast (st_mtime_nsec st)),
      attr_ctime = (st_ctime st, ucast (st_ctime_nsec st)),
      attr_mode = st_mode st,
      attr_nlink = ucast (st_nlink st),
      attr_uid = st_uid st,
      attr_gid = st_gid st,
      attr_rdev = ucast (st_rdev st),
      attr_blksize = ucast (st_blksize st)\<rparr>"

definition attr_is_dir :: "attr \<Rightarrow> bool" where
  "attr_is_dir a \<longleftrightarrow> attr_mode a AND S_IFMT = S_IFDIR"

definition attr_is_symlink :: "attr \<Rightarrow> bool" where
  "attr_is_symlink a \<longleftrightarrow> attr_mode a AND S_IFMT = S_IFLNK"

definition attr_is_regular :: "attr \<Rightarrow> bool" where
  "attr_is_regular a \<longleftrightarrow> attr_mode a AND S_IFMT = S_IFREG"

record set_attr =
  set_size :: "u64 option"
  set_mode :: "u32 option"
  set_uid :: "u32 option"
  set_gid :: "u32 option"
  set_atime :: "(i64 \<times> u32) option"
  set_mtime :: "(i64 \<times> u32) option"

definition set_attr_default :: set_attr where
  "set_attr_default =
     \<lparr>set_size = None, set_mode = None, set_uid = None, set_gid = None,
      set_atime = None, set_mtime = None\<rparr>"

section \<open>File kinds\<close>

datatype file_kind = Dir | Symlink | Regular | Other

text \<open>
  \<open>libc::S_IF*\<close> are the POSIX file-type bits that attr.rs also writes out as its own
  constants.
\<close>

definition file_kind_from_mode :: "u32 \<Rightarrow> file_kind" where
  "file_kind_from_mode mode =
     (let m = mode AND S_IFMT in
      if m = S_IFDIR then Dir
      else if m = S_IFLNK then Symlink
      else if m = S_IFREG then Regular
      else Other)"

lemma file_kind_from_mode_iff:
  "file_kind_from_mode (attr_mode a) = Dir \<longleftrightarrow> attr_is_dir a"
  "file_kind_from_mode (attr_mode a) = Symlink \<longleftrightarrow> attr_is_symlink a"
  "file_kind_from_mode (attr_mode a) = Regular \<longleftrightarrow> attr_is_regular a"
  by (auto simp: file_kind_from_mode_def Let_def attr_is_dir_def attr_is_symlink_def
      attr_is_regular_def S_IF_defs)

end
