(* ===== verification/Host.thy ===== *)
theory Host
  imports Core_Types
begin

text \<open>
  The host, as the passthrough engine sees it. Everything the engine calls in \<open>libc\<close> and
  \<open>nix\<close> is a field of the record \<open>host\<close>, a parameter of every operation that uses it: a
  system call takes its C arguments and the state of the outside world and returns either the
  errno of a failed call (a negative return value) or its result, with the new state of the
  world. The mode of \<open>openat\<close> is optional, since
  the C function is variadic. The constants of \<open>libc\<close> and the iteration order of Rust's \<open>HashMap\<close> are fields
  too. \<open>platform/*.rs\<close>, which picks the flags of the per-inode reference descriptor, is
  modelled here.
\<close>

type_synonym fd = i32
type_synonym 'a sysret = "i32 + 'a"

text \<open>A \<open>timespec\<close>, as \<open>utimensat\<close> takes it.\<close>

type_synonym timespec = "i64 \<times> i64"

text \<open>
  An entry as \<open>readdir\<close> of an open directory stream returns it: the name, the inode number
  and the type byte, decoded by \<open>nix\<close> (\<open>None\<close> for an unknown type).
\<close>

datatype dirent_type = DtFifo | DtCharacter | DtDirectory | DtBlock | DtFile | DtSymlink | DtSocket

record raw_dirent =
  de_name :: bytes
  de_ino :: u64
  de_type :: "dirent_type option"

text \<open>An I/O vector: the host address of a buffer and its length.\<close>

type_synonym host_ptr = "nat \<times> nat"
type_synonym iovec = "host_ptr \<times> nat"
type_synonym heap = "host_ptr \<Rightarrow> u8"

datatype open_flag =
  O_RDONLY | O_WRONLY | O_RDWR | O_CREAT | O_EXCL | O_DIRECTORY | O_CLOEXEC | O_NOFOLLOW
  | O_PATH | O_EVTONLY | O_SYMLINK

datatype target_os = Linux | Macos | OtherUnix

record 'w host =
  target :: target_os
  errno_of :: errno_table
  oflag :: "open_flag \<Rightarrow> i32"
  at_symlink_nofollow :: i32
  at_removedir :: i32
  at_empty_path :: i32
  utime_omit :: i64
  sys_open :: "bytes \<Rightarrow> i32 \<Rightarrow> 'w \<Rightarrow> fd sysret \<times> 'w"
  sys_openat :: "fd \<Rightarrow> bytes \<Rightarrow> i32 \<Rightarrow> u32 option \<Rightarrow> 'w \<Rightarrow> fd sysret \<times> 'w"
  sys_close :: "fd \<Rightarrow> 'w \<Rightarrow> 'w"
  sys_dupfd :: "fd \<Rightarrow> 'w \<Rightarrow> fd sysret \<times> 'w"
  sys_fstat :: "fd \<Rightarrow> 'w \<Rightarrow> stat sysret \<times> 'w"
  sys_fstatat :: "fd \<Rightarrow> bytes \<Rightarrow> i32 \<Rightarrow> 'w \<Rightarrow> stat sysret \<times> 'w"
  sys_ftruncate :: "fd \<Rightarrow> i64 \<Rightarrow> 'w \<Rightarrow> unit sysret \<times> 'w"
  sys_fchmodat :: "fd \<Rightarrow> bytes \<Rightarrow> u32 \<Rightarrow> i32 \<Rightarrow> 'w \<Rightarrow> unit sysret \<times> 'w"
  sys_fchownat :: "fd \<Rightarrow> bytes \<Rightarrow> u32 \<Rightarrow> u32 \<Rightarrow> i32 \<Rightarrow> 'w \<Rightarrow> unit sysret \<times> 'w"
  sys_utimensat :: "fd \<Rightarrow> bytes \<Rightarrow> timespec \<times> timespec \<Rightarrow> i32 \<Rightarrow> 'w \<Rightarrow> unit sysret \<times> 'w"
  sys_mkdirat :: "fd \<Rightarrow> bytes \<Rightarrow> u32 \<Rightarrow> 'w \<Rightarrow> unit sysret \<times> 'w"
  sys_unlinkat :: "fd \<Rightarrow> bytes \<Rightarrow> i32 \<Rightarrow> 'w \<Rightarrow> unit sysret \<times> 'w"
  sys_renameat :: "fd \<Rightarrow> bytes \<Rightarrow> fd \<Rightarrow> bytes \<Rightarrow> 'w \<Rightarrow> unit sysret \<times> 'w"
  sys_symlinkat :: "bytes \<Rightarrow> fd \<Rightarrow> bytes \<Rightarrow> 'w \<Rightarrow> unit sysret \<times> 'w"
  sys_readlinkat :: "fd \<Rightarrow> bytes \<Rightarrow> nat \<Rightarrow> 'w \<Rightarrow> bytes sysret \<times> 'w"
  sys_linkat :: "fd \<Rightarrow> bytes \<Rightarrow> fd \<Rightarrow> bytes \<Rightarrow> i32 \<Rightarrow> 'w \<Rightarrow> unit sysret \<times> 'w"
  sys_pread :: "fd \<Rightarrow> nat \<Rightarrow> i64 \<Rightarrow> 'w \<Rightarrow> bytes sysret \<times> 'w"
  sys_pwrite :: "fd \<Rightarrow> bytes \<Rightarrow> i64 \<Rightarrow> 'w \<Rightarrow> nat sysret \<times> 'w"
  sys_preadv :: "fd \<Rightarrow> iovec list \<Rightarrow> i64 \<Rightarrow> heap \<Rightarrow> 'w \<Rightarrow> (nat sysret \<times> heap) \<times> 'w"
  sys_pwritev :: "fd \<Rightarrow> iovec list \<Rightarrow> i64 \<Rightarrow> heap \<Rightarrow> 'w \<Rightarrow> nat sysret \<times> 'w"
  sys_fsync :: "fd \<Rightarrow> 'w \<Rightarrow> unit sysret \<times> 'w"
  sys_fdopendir :: "fd \<Rightarrow> 'w \<Rightarrow> unit sysret \<times> 'w"
  sys_readdir :: "fd \<Rightarrow> 'w \<Rightarrow> (i32 + raw_dirent) list \<times> 'w"
  sys_fstatvfs :: "fd \<Rightarrow> 'w \<Rightarrow> statvfs sysret \<times> 'w"
  sys_now :: "'w \<Rightarrow> (u64 \<times> u32) \<times> 'w"
  hash_order :: "u64 set \<Rightarrow> u64 list"

section \<open>Reference descriptor flags\<close>

text \<open>
  \<open>reference_open_flags_impl\<close> and \<open>symlink_open_flags\<close> of platform/linux.rs, macos.rs
  and generic.rs, chosen by the compilation target.
\<close>

definition reference_open_flags_impl :: "'w host \<Rightarrow> i32" where
  "reference_open_flags_impl H =
     (case target H of
        Linux \<Rightarrow> oflag H O_PATH OR oflag H O_NOFOLLOW OR oflag H O_CLOEXEC
      | Macos \<Rightarrow> oflag H O_EVTONLY OR oflag H O_CLOEXEC
      | OtherUnix \<Rightarrow> oflag H O_RDONLY OR oflag H O_CLOEXEC)"

definition symlink_open_flags :: "'w host \<Rightarrow> i32" where
  "symlink_open_flags H =
     (case target H of
        Linux \<Rightarrow> oflag H O_PATH OR oflag H O_NOFOLLOW OR oflag H O_CLOEXEC
      | Macos \<Rightarrow> oflag H O_SYMLINK OR oflag H O_CLOEXEC
      | OtherUnix \<Rightarrow> oflag H O_RDONLY OR oflag H O_CLOEXEC)"

definition reference_open_flags :: "'w host \<Rightarrow> bool \<Rightarrow> bool \<Rightarrow> i32" where
  "reference_open_flags H is_dir is_symlink =
     (let base = (if is_dir then oflag H O_DIRECTORY else 0) in
      if is_symlink then symlink_open_flags H else base OR reference_open_flags_impl H)"

text \<open>
  On Linux every flag set for a reference descriptor has \<open>O_NOFOLLOW\<close>: opening the
  reference descriptor of a child never follows a symbolic link.
\<close>

lemma reference_open_flags_nofollow:
  assumes "target H = Linux"
  shows "reference_open_flags H is_dir is_symlink AND oflag H O_NOFOLLOW = oflag H O_NOFOLLOW"
  using assms
  by (intro bit_word_eqI)
    (auto simp: reference_open_flags_def symlink_open_flags_def reference_open_flags_impl_def
      Let_def bit_simps)

end
