(* ===== verification/Guest_Memory.thy ===== *)
theory Guest_Memory
  imports Vhost_Message Host
begin

text \<open>
  Guest memory (\<open>vhost_user/memory.rs\<close>): the regions of a \<open>SET_MEM_TABLE\<close> request, mapped
  into the daemon, and the translation of guest addresses into host memory. A region is known in
  two address spaces, by guest-physical address and by the front-end's own address.

  Mapped memory is a heap of bytes addressed by the object a mapping shows and an offset into
  it; a slice is a host address and a length. The lemmas show that a translated slice never
  leaves its mapping, when it exists, that a part of a slice translates to the part of its
  translation, and how loads and stores through slices interact.
\<close>

section \<open>The front-end and its descriptors\<close>

text \<open>
  What the daemon uses of the operating system towards the front-end: \<open>sysconf\<close>,
  \<open>mmap\<close>, \<open>munmap\<close>, \<open>read\<close>, \<open>write\<close>, \<open>poll\<close>, and sending and
  receiving with descriptors over the socket (\<open>sendfd\<close>). As in \<open>host\<close>, a call returns the
  errno of a failure or its result, with the new state of the world. \<open>sys_recv_with_fd\<close> is
  given the length of the buffer and returns the bytes and descriptors received.
\<close>

record 'w vmm =
  page_size :: u64
  sys_mmap :: "fd \<Rightarrow> u64 \<Rightarrow> i64 \<Rightarrow> 'w \<Rightarrow> host_ptr sysret \<times> 'w"
  sys_munmap :: "host_ptr \<Rightarrow> u64 \<Rightarrow> 'w \<Rightarrow> 'w"
  sys_recv_with_fd :: "nat \<Rightarrow> nat \<Rightarrow> 'w \<Rightarrow> (bytes \<times> fd list) sysret \<times> 'w"
  sys_send_with_fd :: "bytes \<Rightarrow> fd list \<Rightarrow> 'w \<Rightarrow> nat sysret \<times> 'w"
  sys_read :: "fd \<Rightarrow> nat \<Rightarrow> 'w \<Rightarrow> bytes sysret \<times> 'w"
  sys_write :: "fd \<Rightarrow> bytes \<Rightarrow> 'w \<Rightarrow> nat sysret \<times> 'w"
  sys_poll :: "fd list \<Rightarrow> 'w \<Rightarrow> u16 list sysret \<times> 'w"

section \<open>Regions\<close>

datatype addr_space = Gpa | User

record region =
  rg_gpa :: u64
  rg_user_addr :: u64
  rg_len :: u64
  rg_ptr :: host_ptr
  rg_mmap_base :: host_ptr
  rg_mmap_len :: u64

type_synonym guest_memory = "region list"

primrec base_for :: "addr_space \<Rightarrow> region \<Rightarrow> u64" where
  "base_for Gpa r = rg_gpa r"
| "base_for User r = rg_user_addr r"

definition ptr_add :: "host_ptr \<Rightarrow> nat \<Rightarrow> host_ptr" where
  "ptr_add p n = (fst p, snd p + n)"

text \<open>
  \<open>map_one\<close>: the sum of the size and the alignment slack is an unchecked \<open>u64\<close> addition;
  \<open>%\<close> panics on a zero page size.
\<close>

definition map_one :: "'w vmm \<Rightarrow> memory_region \<Rightarrow> fd \<Rightarrow> 'w \<Rightarrow> region proto_result \<times> 'w" where
  "map_one V rg d w =
     (if page_size V = 0 then (Panic, w)
      else let aligned_offset = mmap_offset rg - mmap_offset rg mod page_size V;
               extra = mmap_offset rg - aligned_offset;
               mmap_len = memory_size rg + extra
           in case sys_mmap V d mmap_len aligned_offset w of
                (Inl e, w') \<Rightarrow> (Err (Io (OsError e)), w')
              | (Inr base, w') \<Rightarrow>
                  (Ok \<lparr>rg_gpa = guest_phys_addr rg, rg_user_addr = userspace_addr rg,
                       rg_len = memory_size rg, rg_ptr = ptr_add base (unat extra),
                       rg_mmap_base = base, rg_mmap_len = mmap_len\<rparr>, w'))"

definition drop_region :: "'w vmm \<Rightarrow> region \<Rightarrow> 'w \<Rightarrow> 'w" where
  "drop_region V r w = sys_munmap V (rg_mmap_base r) (rg_mmap_len r) w"

text \<open>The regions mapped before a failure are unmapped when the vector is dropped.\<close>

fun map_loop ::
  "'w vmm \<Rightarrow> (memory_region \<times> fd) list \<Rightarrow> region list \<Rightarrow> 'w \<Rightarrow> guest_memory proto_result \<times> 'w"
where
  "map_loop V [] mapped w = (Ok mapped, w)"
| "map_loop V ((rg, d) # rest) mapped w =
     (case map_one V rg d w of
        (Ok r, w') \<Rightarrow> map_loop V rest (mapped @ [r]) w'
      | (Err e, w') \<Rightarrow> (Err e, fold (drop_region V) mapped w')
      | (Panic, w') \<Rightarrow> (Panic, w'))"

definition map_regions ::
  "'w vmm \<Rightarrow> memory_region list \<Rightarrow> fd list \<Rightarrow> 'w \<Rightarrow> guest_memory proto_result \<times> 'w" where
  "map_regions V regions fds w =
     (if length regions \<noteq> length fds then (Err (Io (CustomError InvalidInput)), w)
      else map_loop V (zip regions fds) [] w)"

section \<open>Translation\<close>

definition in_region :: "addr_space \<Rightarrow> u64 \<Rightarrow> u64 \<Rightarrow> region \<Rightarrow> bool" where
  "in_region sp addr len r \<longleftrightarrow>
     base_for sp r \<le> addr \<and> len \<le> rg_len r \<and> addr - base_for sp r \<le> rg_len r - len"

definition find_region :: "guest_memory \<Rightarrow> addr_space \<Rightarrow> u64 \<Rightarrow> u64 \<Rightarrow> region option" where
  "find_region mem sp addr len = find (in_region sp addr len) mem"

definition get_slice :: "guest_memory \<Rightarrow> addr_space \<Rightarrow> u64 \<Rightarrow> u64 \<Rightarrow> (host_ptr \<times> nat) option" where
  "get_slice mem sp addr len =
     map_option (\<lambda>r. (ptr_add (rg_ptr r) (unat (addr - base_for sp r)), unat len))
       (find_region mem sp addr len)"

text \<open>\<open>get_slice_mut\<close> is the same translation; only the type of the slice differs.\<close>

definition get_slice_mut ::
  "guest_memory \<Rightarrow> addr_space \<Rightarrow> u64 \<Rightarrow> u64 \<Rightarrow> (host_ptr \<times> nat) option" where
  "get_slice_mut mem sp addr len =
     map_option (\<lambda>r. (ptr_add (rg_ptr r) (unat (addr - base_for sp r)), unat len))
       (find_region mem sp addr len)"

section \<open>Bytes behind a slice\<close>

definition load :: "heap \<Rightarrow> host_ptr \<times> nat \<Rightarrow> bytes" where
  "load h s = map (\<lambda>i. h (ptr_add (fst s) i)) [0 ..< snd s]"

definition store :: "host_ptr \<Rightarrow> bytes \<Rightarrow> heap \<Rightarrow> heap" where
  "store p d h = (\<lambda>q. if fst q = fst p \<and> snd p \<le> snd q \<and> snd q < snd p + length d
                      then d ! (snd q - snd p) else h q)"

definition mem_read_u16 :: "guest_memory \<Rightarrow> heap \<Rightarrow> addr_space \<Rightarrow> u64 \<Rightarrow> u16 option" where
  "mem_read_u16 mem h sp addr = map_option (\<lambda>s. from_le (load h s)) (get_slice mem sp addr 2)"

definition mem_read_u32 :: "guest_memory \<Rightarrow> heap \<Rightarrow> addr_space \<Rightarrow> u64 \<Rightarrow> u32 option" where
  "mem_read_u32 mem h sp addr = map_option (\<lambda>s. from_le (load h s)) (get_slice mem sp addr 4)"

definition mem_read_u64 :: "guest_memory \<Rightarrow> heap \<Rightarrow> addr_space \<Rightarrow> u64 \<Rightarrow> u64 option" where
  "mem_read_u64 mem h sp addr = map_option (\<lambda>s. from_le (load h s)) (get_slice mem sp addr 8)"

definition mem_write_u16 :: "guest_memory \<Rightarrow> addr_space \<Rightarrow> u64 \<Rightarrow> u16 \<Rightarrow> heap \<Rightarrow> heap option" where
  "mem_write_u16 mem sp addr v h =
     map_option (\<lambda>s. store (fst s) (le16 v) h) (get_slice_mut mem sp addr 2)"

definition mem_write_u32 :: "guest_memory \<Rightarrow> addr_space \<Rightarrow> u64 \<Rightarrow> u32 \<Rightarrow> heap \<Rightarrow> heap option" where
  "mem_write_u32 mem sp addr v h =
     map_option (\<lambda>s. store (fst s) (le32 v) h) (get_slice_mut mem sp addr 4)"

section \<open>Loads and stores\<close>

lemma length_load [simp]: "length (load h s) = snd s"
  by (simp add: load_def)

lemma load_store_same [simp]: "load (store p d h) (p, length d) = d"
  by (rule nth_equalityI) (simp_all add: load_def store_def ptr_add_def)

definition slices_apart :: "host_ptr \<times> nat \<Rightarrow> host_ptr \<times> nat \<Rightarrow> bool" where
  "slices_apart s t \<longleftrightarrow>
     fst (fst s) \<noteq> fst (fst t) \<or> snd (fst s) + snd s \<le> snd (fst t) \<or>
     snd (fst t) + snd t \<le> snd (fst s)"

lemma load_store_apart:
  "slices_apart s (p, length d) \<Longrightarrow> load (store p d h) s = load h s"
  by (auto simp: load_def store_def slices_apart_def ptr_add_def)

lemma load_sub: "load h (ptr_add p k, m) = take m (drop k (load h (p, n)))" if "k + m \<le> n"
  using that
  by (intro nth_equalityI) (auto simp: load_def ptr_add_def add.assoc)

lemma store_store_commute:
  "slices_apart (p, length d) (q, length e) \<Longrightarrow> store p d (store q e h) = store q e (store p d h)"
  by (auto simp: store_def slices_apart_def fun_eq_iff)

lemma store_append:
  "store p (d @ e) h = store (ptr_add p (length d)) e (store p d h)"
  by (auto simp: store_def ptr_add_def fun_eq_iff nth_append)

lemma store_Nil [simp]: "store p [] h = h"
  by (auto simp: store_def fun_eq_iff)

section \<open>Translation stays in the mapping\<close>

text \<open>
  The test of \<open>find\<close>, which subtracts before it compares, is the test on the unbounded
  integers: the range lies in the region's range. No wrap-around can make it accept more.
\<close>

lemma in_region_iff:
  "in_region sp addr len r \<longleftrightarrow>
     unat (base_for sp r) \<le> unat addr \<and>
     unat addr + unat len \<le> unat (base_for sp r) + unat (rg_len r)"
  by (auto simp: in_region_def word_le_nat_alt unat_sub)

lemma in_region_offset:
  "in_region sp addr len r \<Longrightarrow> unat (addr - base_for sp r) = unat addr - unat (base_for sp r)"
  by (simp add: in_region_iff unat_sub word_le_nat_alt)

lemma get_slice_Some:
  assumes "get_slice mem sp addr len = Some (p, n)"
  obtains r where "r \<in> set mem" "in_region sp addr len r" "n = unat len"
    "p = ptr_add (rg_ptr r) (unat addr - unat (base_for sp r))"
    "find_region mem sp addr len = Some r"
proof -
  obtain r where r: "find_region mem sp addr len = Some r" "n = unat len"
    "p = ptr_add (rg_ptr r) (unat (addr - base_for sp r))"
    using assms by (auto simp: get_slice_def)
  then have "r \<in> set mem" "in_region sp addr len r"
    by (auto simp: find_region_def find_Some_iff)
  with r show thesis
    by (intro that [of r]) (simp_all add: in_region_offset)
qed

lemma get_slice_mut_eq: "get_slice_mut = get_slice"
  by (simp add: get_slice_mut_def get_slice_def fun_eq_iff)

lemma get_slice_None: "get_slice mem sp addr len = None \<longleftrightarrow> (\<forall>r \<in> set mem. \<not> in_region sp addr len r)"
  by (auto simp: get_slice_def find_region_def find_None_iff)

text \<open>A region whose usable part lies inside what was mapped.\<close>

definition region_mapped :: "region \<Rightarrow> bool" where
  "region_mapped r \<longleftrightarrow>
     fst (rg_ptr r) = fst (rg_mmap_base r) \<and> snd (rg_mmap_base r) \<le> snd (rg_ptr r) \<and>
     snd (rg_ptr r) + unat (rg_len r) \<le> snd (rg_mmap_base r) + unat (rg_mmap_len r)"

definition slice_in_mapping :: "host_ptr \<times> nat \<Rightarrow> region \<Rightarrow> bool" where
  "slice_in_mapping s r \<longleftrightarrow>
     fst (fst s) = fst (rg_mmap_base r) \<and> snd (rg_mmap_base r) \<le> snd (fst s) \<and>
     snd (fst s) + snd s \<le> snd (rg_mmap_base r) + unat (rg_mmap_len r)"

lemma get_slice_in_mapping:
  assumes "\<forall>r \<in> set mem. region_mapped r" and "get_slice mem sp addr len = Some s"
  shows "\<exists>r \<in> set mem. slice_in_mapping s r"
proof -
  obtain p n where s: "s = (p, n)" by (cases s)
  then obtain r where r: "r \<in> set mem" "in_region sp addr len r" "n = unat len"
      "p = ptr_add (rg_ptr r) (unat addr - unat (base_for sp r))"
    using assms(2) get_slice_Some by metis
  then have "slice_in_mapping s r"
    using assms(1) by (auto simp: s slice_in_mapping_def region_mapped_def ptr_add_def in_region_iff)
  with r(1) show ?thesis by blast
qed

text \<open>Mapping a region gives one that is mapped, unless the mapping's length wraps around.\<close>

lemma map_one_mapped:
  assumes "map_one V rg d w = (Ok r, w')"
    and "unat (memory_size rg) + unat (mmap_offset rg mod page_size V) < 2 ^ 64"
  shows "region_mapped r"
proof -
  have "mmap_offset rg - (mmap_offset rg - mmap_offset rg mod page_size V)
      = mmap_offset rg mod page_size V"
    by simp
  with assms show ?thesis
    by (auto simp: map_one_def Let_def region_mapped_def ptr_add_def unat_word_ariths
        split: if_splits prod.splits sum.splits)
qed

lemma map_loop_mapped:
  assumes "map_loop V xs mapped w = (Ok mem, w')" and "\<forall>r \<in> set mapped. region_mapped r"
    and "\<forall>(rg, d) \<in> set xs. unat (memory_size rg) + unat (mmap_offset rg mod page_size V) < 2 ^ 64"
  shows "\<forall>r \<in> set mem. region_mapped r"
  using assms
proof (induction xs arbitrary: mapped w)
  case (Cons x xs)
  obtain rg d where x: "x = (rg, d)" by (cases x)
  obtain r1 w1 where m: "map_one V rg d w = (r1, w1)" by fastforce
  then obtain r where r: "r1 = Ok r"
    using Cons.prems(1) x by (cases r1) auto
  have "region_mapped r"
    using m r x Cons.prems(3) map_one_mapped by fastforce
  with Cons.IH [of "mapped @ [r]" w1] m r x Cons.prems show ?case by auto
qed auto

section \<open>Parts of a slice\<close>

text \<open>
  The regions of one address space do not overlap and do not run past the end of it. With this,
  an address range lies in at most one region, so a part of a translated range translates to the
  same part of the host range.
\<close>

definition regions_disjoint :: "addr_space \<Rightarrow> guest_memory \<Rightarrow> bool" where
  "regions_disjoint sp mem \<longleftrightarrow>
     (\<forall>r \<in> set mem. unat (base_for sp r) + unat (rg_len r) \<le> 2 ^ 64) \<and>
     (\<forall>r \<in> set mem. \<forall>r' \<in> set mem. r = r' \<or>
        unat (base_for sp r) + unat (rg_len r) \<le> unat (base_for sp r') \<or>
        unat (base_for sp r') + unat (rg_len r') \<le> unat (base_for sp r))"

lemma find_region_unique:
  assumes "regions_disjoint sp mem" and "r \<in> set mem" and "in_region sp addr len r" and "0 < unat len"
  shows "find_region mem sp addr len = Some r"
proof -
  have unique: "r' = r" if "r' \<in> set mem" "in_region sp addr len r'" for r'
  proof (rule ccontr)
    assume "r' \<noteq> r"
    then have "unat (base_for sp r') + unat (rg_len r') \<le> unat (base_for sp r) \<or>
        unat (base_for sp r) + unat (rg_len r) \<le> unat (base_for sp r')"
      using assms(1,2) that(1) unfolding regions_disjoint_def by blast
    with that(2) assms(3,4) show False
      by (auto simp: in_region_iff)
  qed
  show ?thesis
  proof (cases "find_region mem sp addr len")
    case None
    with assms show ?thesis by (auto simp: find_region_def find_None_iff)
  next
    case (Some r')
    then have "r' \<in> set mem" "in_region sp addr len r'"
      by (auto simp: find_region_def find_Some_iff)
    with Some unique show ?thesis by simp
  qed
qed

lemma get_slice_sub:
  assumes dis: "regions_disjoint sp mem" and s: "get_slice mem sp addr len = Some (p, n)"
    and part: "unat k + unat m \<le> n" "0 < unat m"
  shows "get_slice mem sp (addr + k) m = Some (ptr_add p (unat k), unat m)"
proof -
  obtain r where r: "r \<in> set mem" "in_region sp addr len r" "n = unat len"
      "p = ptr_add (rg_ptr r) (unat addr - unat (base_for sp r))"
    using s by (rule get_slice_Some)
  have "unat (base_for sp r) + unat (rg_len r) \<le> 2 ^ 64"
    using dis r(1) by (simp add: regions_disjoint_def)
  then have sum: "unat (addr + k) = unat addr + unat k"
    using r(2,3) part by (auto simp: in_region_iff unat_word_ariths)
  then have in': "in_region sp (addr + k) m r"
    using r(2,3) part by (simp add: in_region_iff)
  have "find_region mem sp (addr + k) m = Some r"
    by (rule find_region_unique [OF dis r(1) in' part(2)])
  with in_region_offset [OF in'] show ?thesis
    using r(2) by (simp add: get_slice_def sum r(4) ptr_add_def in_region_iff)
qed

end
