(* ===== verification/Connection.thy ===== *)
theory Connection
  imports Guest_Memory
begin

text \<open>
  The control connection (\<open>vhost_user/connection.rs\<close>): messages framed as a header and a
  payload over a stream socket, with descriptors passed beside the bytes. The socket is reached
  through \<open>sys_recv_with_fd\<close> and \<open>sys_send_with_fd\<close>.

  The lemmas show that framing survives any fragmentation by the socket: whatever pieces the
  bytes arrive in, one message is received whole with its own descriptors, and the bytes after
  it are left alone; and a message is sent whole, its descriptors attached to its first byte.
\<close>

section \<open>Receiving\<close>

definition MAX_FDS_PER_RECV :: nat where "MAX_FDS_PER_RECV = 32"
definition MAX_PAYLOAD :: nat where "MAX_PAYLOAD = 2 ^ 20"

text \<open>
  \<open>recv_exact\<close>: \<open>filled\<close> is the part of the buffer already written, \<open>want\<close> its
  length.
\<close>

function recv_exact ::
  "'w vmm \<Rightarrow> nat \<Rightarrow> bytes \<Rightarrow> fd list \<Rightarrow> 'w \<Rightarrow> (bytes \<times> fd list) proto_result \<times> 'w" where
  "recv_exact V want filled fds w =
     (if length filled < want
      then case sys_recv_with_fd V (want - length filled) MAX_FDS_PER_RECV w of
             (Inl e, w') \<Rightarrow> (Err (Io (OsError e)), w')
           | (Inr (b, nfds), w') \<Rightarrow>
               if b = [] then (Err Disconnected, w')
               else recv_exact V want (filled @ b) (fds @ nfds) w'
      else (Ok (filled, fds), w))"
  by pat_completeness auto
termination
  by (relation "measure (\<lambda>(V, want, filled, fds, w). want - length filled)")
    (auto intro!: diff_less_mono2)

declare recv_exact.simps [simp del]

definition connection_recv ::
  "'w vmm \<Rightarrow> 'w \<Rightarrow> (msg_header \<times> bytes \<times> fd list) proto_result \<times> 'w" where
  "connection_recv V w =
     (case recv_exact V HEADER_LEN [] [] w of
        (Err e, w1) \<Rightarrow> (Err e, w1)
      | (Panic, w1) \<Rightarrow> (Panic, w1)
      | (Ok (header_buf, fds), w1) \<Rightarrow>
          let header = msg_header_from_bytes header_buf;
              sz = unat (mh_size header)
          in if MAX_PAYLOAD < sz then (Err (PayloadTooLarge sz), w1)
             else case recv_exact V sz [] fds w1 of
                    (Err e, w2) \<Rightarrow> (Err e, w2)
                  | (Panic, w2) \<Rightarrow> (Panic, w2)
                  | (Ok (payload, fds'), w2) \<Rightarrow> (Ok (header, payload, fds'), w2))"

section \<open>Sending\<close>

function send_loop ::
  "'w vmm \<Rightarrow> bytes \<Rightarrow> fd list \<Rightarrow> nat \<Rightarrow> 'w \<Rightarrow> unit proto_result \<times> 'w" where
  "send_loop V buf fds sent w =
     (if sent < length buf
      then case sys_send_with_fd V (drop sent buf) (if sent = 0 \<and> fds \<noteq> [] then fds else []) w of
             (Inl e, w') \<Rightarrow> (Err (Io (OsError e)), w')
           | (Inr n, w') \<Rightarrow>
               if n = 0 then (Err Disconnected, w') else send_loop V buf fds (sent + n) w'
      else (Ok (), w))"
  by pat_completeness auto
termination
  by (relation "measure (\<lambda>(V, buf, fds, sent, w). length buf - sent)") auto

declare send_loop.simps [simp del]

definition connection_send ::
  "'w vmm \<Rightarrow> msg_header \<Rightarrow> bytes \<Rightarrow> fd list \<Rightarrow> 'w \<Rightarrow> unit proto_result \<times> 'w" where
  "connection_send V header payload fds w =
     send_loop V (msg_header_to_bytes header @ payload) fds 0 w"

section \<open>Framing\<close>

text \<open>
  The documented behaviour of a stream socket that passes descriptors (\<open>unix(7)\<close>). The stream
  is a list of bytes, each with the descriptors attached to it: those of a send go with the
  first byte of it. \<open>pending\<close> is what the peer has written and has not yet been read, the
  descriptors under the numbers they get on this side. A receive takes a prefix of at most the
  length asked for, at least one byte when there are any, and delivers the descriptors attached
  to the bytes it takes; where a receive could meet more descriptors than its buffer has room
  for, nothing is assumed.
\<close>

type_synonym stream = "(u8 \<times> fd list) list"

primrec attach :: "fd list \<Rightarrow> bytes \<Rightarrow> stream" where
  "attach fds [] = []"
| "attach fds (b # bs) = (b, fds) # map (\<lambda>b. (b, [])) bs"

abbreviation stream_fds :: "stream \<Rightarrow> fd list" where
  "stream_fds s \<equiv> concat (map snd s)"

definition stream_recv :: "'w vmm \<Rightarrow> ('w \<Rightarrow> stream) \<Rightarrow> bool" where
  "stream_recv V pending \<longleftrightarrow>
     (\<forall>n m w. 0 < n \<longrightarrow> pending w \<noteq> [] \<longrightarrow> length (stream_fds (take n (pending w))) \<le> m \<longrightarrow>
        (\<exists>s w'. sys_recv_with_fd V n m w = (Inr (map fst s, stream_fds s), w') \<and>
           s \<noteq> [] \<and> length s \<le> n \<and> pending w = s @ pending w'))"

lemma attach_Nil: "attach [] b = map (\<lambda>b. (b, [])) b"
  by (cases b) simp_all

lemma attach_append: "a \<noteq> [] \<Longrightarrow> attach fds (a @ b) = attach fds a @ attach [] b"
  by (cases a) (simp_all add: attach_Nil)

lemma attach_plain [simp]: "map fst (attach fds b) = b" "length (attach fds b) = length b"
  by (cases b; simp add: comp_def)+

lemma attach_is_Nil [simp]: "attach fds b = [] \<longleftrightarrow> b = []"
  by (cases b) simp_all

lemma attach_fds [simp]: "b \<noteq> [] \<Longrightarrow> stream_fds (attach fds b) = fds" "stream_fds (attach [] b) = []"
  by (cases b; simp add: comp_def)+

lemma recv_exact_stream:
  assumes "stream_recv V pending"
    and "pending w = d @ rest" and "length filled + length d = want"
    and "length (stream_fds d) \<le> MAX_FDS_PER_RECV"
  shows "\<exists>w'. recv_exact V want filled fds w = (Ok (filled @ map fst d, fds @ stream_fds d), w') \<and> pending w' = rest"
  using assms(2-4)
proof (induction "length d" arbitrary: d filled fds w rule: less_induct)
  case less
  show ?case
  proof (cases "d = []")
    case True
    then show ?thesis
      using less.prems by (subst recv_exact.simps) simp
  next
    case False
    have want: "want - length filled = length d" using less.prems(2) by simp
    then have "0 < want - length filled" "pending w \<noteq> []"
        "length (stream_fds (take (want - length filled) (pending w))) \<le> MAX_FDS_PER_RECV"
      using less.prems False by auto
    then obtain s w1 where r: "sys_recv_with_fd V (want - length filled) MAX_FDS_PER_RECV w =
          (Inr (map fst s, stream_fds s), w1)" "s \<noteq> []" "length s \<le> length d" "pending w = s @ pending w1"
      using assms(1) want unfolding stream_recv_def by metis
    then obtain d' where d: "d = s @ d'" "pending w1 = d' @ rest"
      using less.prems(1) by (auto simp: append_eq_append_conv2)
    have "\<exists>w'. recv_exact V want (filled @ map fst s) (fds @ stream_fds s) w1 =
          (Ok ((filled @ map fst s) @ map fst d', (fds @ stream_fds s) @ stream_fds d'), w') \<and> pending w' = rest"
      using r(2) less.prems(2,3) d by (intro less.hyps) auto
    then show ?thesis
      using r(1,2) \<open>0 < want - length filled\<close> d(1) by (subst recv_exact.simps) auto
  qed
qed

lemma connection_recv_stream:
  assumes "stream_recv V pending"
    and "pending w = s @ rest" and "map fst s = msg_header_to_bytes h @ payload"
    and "length (stream_fds s) \<le> MAX_FDS_PER_RECV"
    and "unat (mh_size h) = length payload" and "length payload \<le> MAX_PAYLOAD"
  shows "\<exists>w'. connection_recv V w = (Ok (h, payload, stream_fds s), w') \<and> pending w' = rest"
proof -
  obtain s1 s2 where s: "s = s1 @ s2" "map fst s1 = msg_header_to_bytes h" "map fst s2 = payload"
    using assms(3) by (auto simp: map_eq_append_conv)
  have len: "length s1 = HEADER_LEN" "length s2 = length payload"
    using arg_cong [OF s(2), of length] arg_cong [OF s(3), of length]
    by (simp_all add: HEADER_LEN_def msg_header_to_bytes_def)
  obtain w1 where 1: "recv_exact V HEADER_LEN [] [] w = (Ok (msg_header_to_bytes h, stream_fds s1), w1)"
      "pending w1 = s2 @ rest"
    using recv_exact_stream [OF assms(1), of w s1 "s2 @ rest" "[]" HEADER_LEN "[]"] assms(2,4) s len by auto
  obtain w2 where "recv_exact V (length payload) [] (stream_fds s1) w1 = (Ok (payload, stream_fds s), w2)"
      "pending w2 = rest"
    using recv_exact_stream [OF assms(1) 1(2), of "[]" "length payload" "stream_fds s1"] assms(4) s len by auto
  with 1 assms(5,6) show ?thesis
    by (simp add: connection_recv_def msg_header_round_trip Let_def)
qed

text \<open>
  The sending side: \<open>log\<close> is what has been written to the socket; a send appends a prefix of its
  buffer, its descriptors attached to the first byte of it.
\<close>

definition stream_send :: "'w vmm \<Rightarrow> ('w \<Rightarrow> stream) \<Rightarrow> bool" where
  "stream_send V log \<longleftrightarrow>
     (\<forall>b fds w n w'. sys_send_with_fd V b fds w = (Inr n, w') \<longrightarrow>
        n \<le> length b \<and> log w' = log w @ attach fds (take n b))"

lemma send_loop_stream:
  assumes law: "stream_send V log" and "send_loop V buf fds sent w = (Ok (), w')"
    and "sent \<le> length buf"
  shows "log w' = log w @ attach (if sent = 0 then fds else []) (drop sent buf)"
  using assms(2,3)
proof (induction "length buf - sent" arbitrary: sent w rule: less_induct)
  case less
  show ?case
  proof (cases "sent < length buf")
    case True
    let ?f = "if sent = 0 then fds else []"
    have f: "(if sent = 0 \<and> fds \<noteq> [] then fds else []) = ?f" by simp
    obtain n w1 where s: "sys_send_with_fd V (drop sent buf) ?f w = (Inr n, w1)" "n \<noteq> 0"
        "send_loop V buf fds (sent + n) w1 = (Ok (), w')"
      using less.prems(1) True
      by (subst (asm) send_loop.simps, unfold f) (auto split: prod.splits sum.splits if_splits)
    then have n: "n \<le> length buf - sent" "log w1 = log w @ attach ?f (take n (drop sent buf))"
      using law unfolding stream_send_def by fastforce+
    have "log w' = log w1 @ attach [] (drop (sent + n) buf)"
      using less.hyps [of "sent + n" w1] s(2,3) n(1) True by auto
    moreover have "drop sent buf = take n (drop sent buf) @ drop (sent + n) buf"
      by (metis append_take_drop_id drop_drop add.commute)
    then have "attach ?f (drop sent buf) = attach ?f (take n (drop sent buf)) @ attach [] (drop (sent + n) buf)"
      using attach_append [of "take n (drop sent buf)" ?f "drop (sent + n) buf"] s(2) True by simp
    ultimately show ?thesis
      using n(2) by simp
  next
    case False
    with less.prems show ?thesis
      by (subst (asm) send_loop.simps) auto
  qed
qed

lemma connection_send_stream:
  assumes "stream_send V log" and "connection_send V h payload fds w = (Ok (), w')"
  shows "log w' = log w @ attach fds (msg_header_to_bytes h @ payload)"
  using send_loop_stream [OF assms(1) assms(2) [unfolded connection_send_def]] by simp

lemma recv_exact_no_panic: "fst (recv_exact V want filled fds w) \<noteq> Panic"
proof (induction V want filled fds w rule: recv_exact.induct)
  case (1 V want filled fds w)
  then show ?case
    by (subst recv_exact.simps) (auto split: prod.splits sum.splits)
qed

lemma connection_recv_no_panic: "fst (connection_recv V w) \<noteq> Panic"
proof -
  have "recv_exact V want filled fds w' \<noteq> (Panic, w'')" for want filled fds w' w''
    using recv_exact_no_panic [of V want filled fds w'] by auto
  then show ?thesis
    by (auto simp: connection_recv_def Let_def split: prod.splits result.splits)
qed

lemma send_loop_no_panic: "fst (send_loop V buf fds sent w) \<noteq> Panic"
proof (induction V buf fds sent w rule: send_loop.induct)
  case (1 V buf fds sent w)
  then show ?case
    by (subst send_loop.simps) (auto split: prod.splits sum.splits)
qed

lemma connection_send_no_panic: "fst (connection_send V h payload fds w) \<noteq> Panic"
  by (simp add: connection_send_def send_loop_no_panic)

end
