(* ===== verification/Virtqueue.thy ===== *)
theory Virtqueue
  imports Guest_Memory
begin

text \<open>
  Split virtqueues (\<open>vhost_user/virtqueue.rs\<close>): taking heads off the available ring, walking
  descriptor chains, copying between chains and buffers, I/O vectors that point into guest
  memory, and publishing on the used ring. All ring addresses are computed in wrapping
  \<open>u64\<close> arithmetic and looked up in the regions.

  The lemmas characterise the chain walk by the path of descriptors it follows, show that the
  header prefix and the I/O vectors denote exactly the corresponding parts of the gathered
  request, that scattering fills the writable segments in order, and what publishing does to
  the used ring.
\<close>

section \<open>Data\<close>

definition DESC_LEN :: u64 where "DESC_LEN = 16"
definition AVAIL_RING_OFFSET :: u64 where "AVAIL_RING_OFFSET = 4"
definition USED_RING_OFFSET :: u64 where "USED_RING_OFFSET = 4"
definition USED_ELEM_LEN :: u64 where "USED_ELEM_LEN = 8"
definition VIRTQ_DESC_F_NEXT :: u16 where "VIRTQ_DESC_F_NEXT = 1"
definition VIRTQ_DESC_F_WRITE :: u16 where "VIRTQ_DESC_F_WRITE = 2"
definition VIRTQ_DESC_F_INDIRECT :: u16 where "VIRTQ_DESC_F_INDIRECT = 4"
definition MAX_CHAIN_LEN :: nat where "MAX_CHAIN_LEN = 512"

type_synonym segment = "u64 \<times> u64"

record desc_chain =
  dc_head :: u16
  dc_readable :: "segment list"
  dc_writable :: "segment list"

record virtqueue =
  vq_desc_addr :: u64
  vq_avail_addr :: u64
  vq_used_addr :: u64
  vq_queue_size :: u16
  vq_last_avail_idx :: u16

definition virtqueue_new :: "u16 \<Rightarrow> u64 \<Rightarrow> u64 \<Rightarrow> u64 \<Rightarrow> virtqueue" where
  "virtqueue_new queue_size desc_addr avail_addr used_addr =
     \<lparr>vq_desc_addr = desc_addr, vq_avail_addr = avail_addr, vq_used_addr = used_addr,
      vq_queue_size = queue_size, vq_last_avail_idx = 0\<rparr>"

definition set_avail_base :: "u16 \<Rightarrow> virtqueue \<Rightarrow> virtqueue" where
  "set_avail_base i vq = vq\<lparr>vq_last_avail_idx := i\<rparr>"

definition avail_base :: "virtqueue \<Rightarrow> u16" where
  "avail_base vq = vq_last_avail_idx vq"

section \<open>The available ring\<close>

text \<open>\<open>%\<close> on a queue of size 0 panics.\<close>

definition pop_avail ::
  "guest_memory \<Rightarrow> heap \<Rightarrow> virtqueue \<Rightarrow> u16 option vq_result \<times> virtqueue" where
  "pop_avail mem h vq =
     (case mem_read_u16 mem h User (vq_avail_addr vq + 2) of
        None \<Rightarrow> (Err OutOfBounds, vq)
      | Some avail_idx \<Rightarrow>
          if avail_idx = vq_last_avail_idx vq then (Ok None, vq)
          else if vq_queue_size vq = 0 then (Panic, vq)
          else let slot = vq_last_avail_idx vq mod vq_queue_size vq;
                   ring_offset = AVAIL_RING_OFFSET + ucast slot * 2
               in case mem_read_u16 mem h User (vq_avail_addr vq + ring_offset) of
                    None \<Rightarrow> (Err OutOfBounds, vq)
                  | Some head \<Rightarrow>
                      (Ok (Some head), vq\<lparr>vq_last_avail_idx := vq_last_avail_idx vq + 1\<rparr>))"

section \<open>Descriptor chains\<close>

record descriptor =
  d_addr :: u64
  d_len :: u32
  d_flags :: u16
  d_next :: u16

definition read_desc :: "guest_memory \<Rightarrow> heap \<Rightarrow> virtqueue \<Rightarrow> u16 \<Rightarrow> descriptor vq_result" where
  "read_desc mem h vq idx =
     (let desc_off = vq_desc_addr vq + ucast idx * DESC_LEN in
      bind (ok_or (mem_read_u64 mem h User desc_off) OutOfBounds) (\<lambda>addr.
      bind (ok_or (mem_read_u32 mem h User (desc_off + 8)) OutOfBounds) (\<lambda>len.
      bind (ok_or (mem_read_u16 mem h User (desc_off + 12)) OutOfBounds) (\<lambda>flags.
      bind (ok_or (mem_read_u16 mem h User (desc_off + 14)) OutOfBounds) (\<lambda>nxt.
      Ok \<lparr>d_addr = addr, d_len = len, d_flags = flags, d_next = nxt\<rparr>)))))"

definition flag_on :: "u16 \<Rightarrow> descriptor \<Rightarrow> bool" where
  "flag_on f d \<longleftrightarrow> d_flags d AND f \<noteq> 0"

definition add_segment :: "descriptor \<Rightarrow> desc_chain \<Rightarrow> desc_chain" where
  "add_segment d chain =
     (if flag_on VIRTQ_DESC_F_WRITE d
      then chain\<lparr>dc_writable := dc_writable chain @ [(d_addr d, ucast (d_len d))]\<rparr>
      else chain\<lparr>dc_readable := dc_readable chain @ [(d_addr d, ucast (d_len d))]\<rparr>)"

primrec chain_loop ::
  "guest_memory \<Rightarrow> heap \<Rightarrow> virtqueue \<Rightarrow> nat \<Rightarrow> u16 \<Rightarrow> desc_chain \<Rightarrow> desc_chain vq_result" where
  "chain_loop mem h vq 0 idx chain = Err ChainTooLong"
| "chain_loop mem h vq (Suc n) idx chain =
     bind (read_desc mem h vq idx) (\<lambda>d.
     if flag_on VIRTQ_DESC_F_INDIRECT d then Err IndirectUnsupported
     else let chain = add_segment d chain in
          if \<not> flag_on VIRTQ_DESC_F_NEXT d then Ok chain
          else chain_loop mem h vq n (d_next d) chain)"

definition read_chain :: "guest_memory \<Rightarrow> heap \<Rightarrow> virtqueue \<Rightarrow> u16 \<Rightarrow> desc_chain vq_result" where
  "read_chain mem h vq head =
     chain_loop mem h vq MAX_CHAIN_LEN head
       \<lparr>dc_head = head, dc_readable = [], dc_writable = []\<rparr>"

section \<open>Copying\<close>

fun gather_loop :: "guest_memory \<Rightarrow> heap \<Rightarrow> segment list \<Rightarrow> bytes \<Rightarrow> bytes vq_result" where
  "gather_loop mem h [] buf = Ok buf"
| "gather_loop mem h ((addr, len) # rest) buf =
     bind (ok_or (get_slice mem Gpa addr len) OutOfBounds) (\<lambda>s.
     gather_loop mem h rest (buf @ load h s))"

definition gather_readable :: "guest_memory \<Rightarrow> heap \<Rightarrow> desc_chain \<Rightarrow> bytes vq_result" where
  "gather_readable mem h chain = gather_loop mem h (dc_readable chain) []"

text \<open>
  The reply is copied segment by segment; a segment outside the regions ends the copy with an
  error, with the segments before it already written.
\<close>

fun scatter_loop ::
  "guest_memory \<Rightarrow> segment list \<Rightarrow> bytes \<Rightarrow> u32 \<Rightarrow> heap \<Rightarrow> u32 vq_result \<times> heap" where
  "scatter_loop mem [] remaining written h = (Ok written, h)"
| "scatter_loop mem ((addr, len) # rest) remaining written h =
     (if remaining = [] then (Ok written, h)
      else let n = min (length remaining) (unat len) in
           case get_slice_mut mem Gpa addr (of_nat n) of
             None \<Rightarrow> (Err OutOfBounds, h)
           | Some s \<Rightarrow>
               scatter_loop mem rest (drop n remaining) (written + of_nat n)
                 (store (fst s) (take n remaining) h))"

definition scatter_writable ::
  "guest_memory \<Rightarrow> desc_chain \<Rightarrow> bytes \<Rightarrow> heap \<Rightarrow> u32 vq_result \<times> heap" where
  "scatter_writable mem chain data h = scatter_loop mem (dc_writable chain) data 0 h"

fun prefix_loop ::
  "guest_memory \<Rightarrow> heap \<Rightarrow> nat \<Rightarrow> segment list \<Rightarrow> bytes \<Rightarrow> bytes vq_result" where
  "prefix_loop mem h max_len [] buf = Ok buf"
| "prefix_loop mem h max_len ((addr, len) # rest) buf =
     (if max_len \<le> length buf then Ok buf
      else let want = of_nat (min (max_len - length buf) (unat len)) in
           bind (ok_or (get_slice mem Gpa addr want) OutOfBounds) (\<lambda>s.
           prefix_loop mem h max_len rest (buf @ load h s)))"

definition gather_readable_prefix ::
  "guest_memory \<Rightarrow> heap \<Rightarrow> desc_chain \<Rightarrow> nat \<Rightarrow> bytes vq_result" where
  "gather_readable_prefix mem h chain max_len = prefix_loop mem h max_len (dc_readable chain) []"

text \<open>\<open>iovecs_from\<close>: skip, then at most \<open>max_total\<close> bytes, as host addresses.\<close>

fun iovecs_loop ::
  "guest_memory \<Rightarrow> segment list \<Rightarrow> u64 \<Rightarrow> u64 \<Rightarrow> bool \<Rightarrow> iovec list \<Rightarrow> iovec list vq_result" where
  "iovecs_loop mem [] skip remaining mutable iovecs = Ok iovecs"
| "iovecs_loop mem ((addr, len) # rest) skip remaining mutable iovecs =
     (if remaining = 0 then Ok iovecs
      else if len \<le> skip then iovecs_loop mem rest (skip - len) remaining mutable iovecs
      else let start = addr + skip;
               seg_len = min (len - skip) remaining
           in bind (ok_or (if mutable then get_slice_mut mem Gpa start seg_len
                           else get_slice mem Gpa start seg_len) OutOfBounds) (\<lambda>s.
              iovecs_loop mem rest 0 (remaining - seg_len) mutable
                (iovecs @ [(fst s, unat seg_len)])))"

definition iovecs_from ::
  "guest_memory \<Rightarrow> segment list \<Rightarrow> u64 \<Rightarrow> u64 \<Rightarrow> bool \<Rightarrow> iovec list vq_result" where
  "iovecs_from mem segments skip max_total mutable =
     iovecs_loop mem segments skip max_total mutable []"

section \<open>The used ring\<close>

definition push_used ::
  "guest_memory \<Rightarrow> virtqueue \<Rightarrow> u16 \<Rightarrow> u32 \<Rightarrow> heap \<Rightarrow> unit vq_result \<times> heap" where
  "push_used mem vq head written_len h =
     (case mem_read_u16 mem h User (vq_used_addr vq + 2) of
        None \<Rightarrow> (Err OutOfBounds, h)
      | Some used_idx \<Rightarrow>
          if vq_queue_size vq = 0 then (Panic, h)
          else let slot = used_idx mod vq_queue_size vq;
                   elem_off = vq_used_addr vq + USED_RING_OFFSET + ucast slot * USED_ELEM_LEN
               in case mem_write_u32 mem User elem_off (ucast head) h of
                    None \<Rightarrow> (Err OutOfBounds, h)
                  | Some h1 \<Rightarrow>
                      (case mem_write_u32 mem User (elem_off + 4) written_len h1 of
                         None \<Rightarrow> (Err OutOfBounds, h1)
                       | Some h2 \<Rightarrow>
                           (case mem_write_u16 mem User (vq_used_addr vq + 2) (used_idx + 1) h2 of
                              None \<Rightarrow> (Err OutOfBounds, h2)
                            | Some h3 \<Rightarrow> (Ok (), h3))))"

section \<open>The chain walk\<close>

text \<open>
  The path of descriptors from an index: each is readable and direct, all but the last have the
  \<open>NEXT\<close> flag, and each leads to the next.
\<close>

fun desc_path :: "guest_memory \<Rightarrow> heap \<Rightarrow> virtqueue \<Rightarrow> u16 \<Rightarrow> descriptor list \<Rightarrow> bool" where
  "desc_path mem h vq idx [] \<longleftrightarrow> False"
| "desc_path mem h vq idx (d # ds) \<longleftrightarrow>
     read_desc mem h vq idx = Ok d \<and> \<not> flag_on VIRTQ_DESC_F_INDIRECT d \<and>
     (if ds = [] then \<not> flag_on VIRTQ_DESC_F_NEXT d
      else flag_on VIRTQ_DESC_F_NEXT d \<and> desc_path mem h vq (d_next d) ds)"

definition segments_of :: "(descriptor \<Rightarrow> bool) \<Rightarrow> descriptor list \<Rightarrow> segment list" where
  "segments_of p ds = map (\<lambda>d. (d_addr d, ucast (d_len d))) (filter p ds)"

lemma fold_add_segment:
  "fold add_segment ds c =
     c\<lparr>dc_readable := dc_readable c @ segments_of (\<lambda>d. \<not> flag_on VIRTQ_DESC_F_WRITE d) ds,
       dc_writable := dc_writable c @ segments_of (flag_on VIRTQ_DESC_F_WRITE) ds\<rparr>"
  by (induction ds arbitrary: c) (auto simp: segments_of_def add_segment_def)

lemma chain_loop_Ok:
  "chain_loop mem h vq n idx c = Ok c' \<longleftrightarrow>
     (\<exists>ds. desc_path mem h vq idx ds \<and> length ds \<le> n \<and> c' = fold add_segment ds c)"
proof (induction n arbitrary: idx c)
  case 0
  have "\<not> desc_path mem h vq idx ds \<or> ds \<noteq> []" for ds by (cases ds) simp_all
  then show ?case by auto
next
  case (Suc n)
  show ?case
  proof
    assume "chain_loop mem h vq (Suc n) idx c = Ok c'"
    then obtain d where d: "read_desc mem h vq idx = Ok d" "\<not> flag_on VIRTQ_DESC_F_INDIRECT d"
      and rest: "if \<not> flag_on VIRTQ_DESC_F_NEXT d then add_segment d c = c'
        else chain_loop mem h vq n (d_next d) (add_segment d c) = Ok c'"
      by (auto simp: Let_def split: if_splits)
    show "\<exists>ds. desc_path mem h vq idx ds \<and> length ds \<le> Suc n \<and> c' = fold add_segment ds c"
    proof (cases "flag_on VIRTQ_DESC_F_NEXT d")
      case True
      then obtain ds where ds: "desc_path mem h vq (d_next d) ds" "length ds \<le> n"
          "c' = fold add_segment ds (add_segment d c)"
        using rest Suc.IH by auto
      then have "ds \<noteq> []" by auto
      with ds d True show ?thesis by (intro exI [of _ "d # ds"]) simp
    next
      case False
      with rest d show ?thesis by (intro exI [of _ "[d]"]) simp
    qed
  next
    assume "\<exists>ds. desc_path mem h vq idx ds \<and> length ds \<le> Suc n \<and> c' = fold add_segment ds c"
    then obtain d ds where "desc_path mem h vq idx (d # ds)" "length ds \<le> n"
        "c' = fold add_segment ds (add_segment d c)"
      by (metis Suc_le_mono desc_path.simps(1) fold_simps(2) length_Cons neq_Nil_conv)
    then show "chain_loop mem h vq (Suc n) idx c = Ok c'"
      using Suc.IH by (auto simp: Let_def split: if_splits)
  qed
qed

lemma read_desc_no_panic: "read_desc mem h vq idx \<noteq> Panic"
  by (simp add: read_desc_def Let_def bind_eq_Panic)

lemma chain_loop_no_panic: "chain_loop mem h vq n idx c \<noteq> Panic"
  by (induction n arbitrary: idx c)
    (auto simp: bind_eq_Panic read_desc_no_panic Let_def split: if_splits)

section \<open>Segments as host slices\<close>

text \<open>
  The host slices behind a list of segments, if all of them are mapped, and the bytes they hold
  in order. A list of slices has the same form as an I/O vector.
\<close>

type_synonym slices = "(host_ptr \<times> nat) list"

definition slices_of :: "guest_memory \<Rightarrow> segment list \<Rightarrow> slices option" where
  "slices_of mem segs = those (map (\<lambda>(addr, len). get_slice mem Gpa addr len) segs)"

definition load_all :: "heap \<Rightarrow> slices \<Rightarrow> bytes" where
  "load_all h ss = concat (map (load h) ss)"

definition slices_len :: "slices \<Rightarrow> nat" where
  "slices_len ss = sum_list (map snd ss)"

lemma slices_of_simps [simp]:
  "slices_of mem [] = Some []"
  "slices_of mem ((addr, len) # segs) =
     (case get_slice mem Gpa addr len of
        None \<Rightarrow> None
      | Some s \<Rightarrow> map_option (Cons s) (slices_of mem segs))"
  by (simp_all add: slices_of_def split: option.splits)

lemma load_all_simps [simp]:
  "load_all h [] = []"
  "load_all h (s # ss) = load h s @ load_all h ss"
  by (simp_all add: load_all_def)

lemma slices_len_simps [simp]:
  "slices_len [] = 0"
  "slices_len (s # ss) = snd s + slices_len ss"
  by (simp_all add: slices_len_def)

lemma length_load_all [simp]: "length (load_all h ss) = slices_len ss"
  by (induction ss) auto

lemma gather_loop_eq:
  "gather_loop mem h segs buf =
     (case slices_of mem segs of None \<Rightarrow> Err OutOfBounds | Some ss \<Rightarrow> Ok (buf @ load_all h ss))"
  by (induction segs arbitrary: buf) (auto split: option.splits)

lemma gather_readable_eq:
  "gather_readable mem h chain =
     (case slices_of mem (dc_readable chain) of
        None \<Rightarrow> Err OutOfBounds | Some ss \<Rightarrow> Ok (load_all h ss))"
  by (simp add: gather_readable_def gather_loop_eq split: option.split)

text \<open>One step on segments whose slices are known.\<close>

lemma slices_of_ConsE:
  assumes "slices_of mem ((addr, len) # segs) = Some ss"
  obtains p ss' where "get_slice mem Gpa addr len = Some (p, unat len)"
    "slices_of mem segs = Some ss'" "ss = (p, unat len) # ss'"
proof -
  obtain p n ss' where *: "get_slice mem Gpa addr len = Some (p, n)"
    "slices_of mem segs = Some ss'" "ss = (p, n) # ss'"
    using assms by (auto split: option.splits)
  moreover from *(1) have "n = unat len" by (rule get_slice_Some)
  ultimately show thesis using that by simp
qed

text \<open>The first bytes of a mapped segment.\<close>

lemma get_slice_first:
  assumes "regions_disjoint Gpa mem" and "get_slice mem Gpa addr len = Some (p, unat len)"
    and "n \<le> unat len" and "n = 0 \<Longrightarrow> unat len = 0"
  shows "get_slice mem Gpa addr (of_nat n) = Some (p, n)"
proof (cases "n = 0")
  case True
  then have "len = 0" using assms(4) by (simp add: unat_eq_zero)
  with True assms(2) show ?thesis by simp
next
  case False
  have "unat len < 2 ^ LENGTH(64)" by (rule unsigned_less)
  then have "unat (of_nat n :: u64) = n"
    using assms(3) by (simp add: unat_of_nat)
  with False show ?thesis
    using get_slice_sub [OF assms(1,2), of 0 "of_nat n"] assms(3) by (simp add: ptr_add_def)
qed

text \<open>The prefix that is read to look at the header is a prefix of the whole request.\<close>

lemma prefix_loop_eq:
  assumes "regions_disjoint Gpa mem" and "slices_of mem segs = Some ss"
  shows "prefix_loop mem h max_len segs buf = Ok (buf @ take (max_len - length buf) (load_all h ss))"
  using assms(2)
proof (induction segs arbitrary: ss buf)
  case Nil
  then show ?case by simp
next
  case (Cons seg segs)
  obtain addr len where seg: "seg = (addr, len)" by (cases seg)
  obtain p ss' where p: "get_slice mem Gpa addr len = Some (p, unat len)"
      and ss': "slices_of mem segs = Some ss'" "ss = (p, unat len) # ss'"
    using Cons.prems unfolding seg by (rule slices_of_ConsE)
  show ?case
  proof (cases "max_len \<le> length buf")
    case True
    then show ?thesis by (simp add: seg)
  next
    case False
    let ?n = "min (max_len - length buf) (unat len)"
    have first: "get_slice mem Gpa addr (of_nat ?n) = Some (p, ?n)"
      using assms(1) p by (rule get_slice_first) (use False in auto)
    have "load h (p, ?n) = take (max_len - length buf) (load h (p, unat len))"
      using load_sub [of 0 ?n "unat len" h p] by (simp add: ptr_add_def min_def)
    then show ?thesis
      using False first Cons.IH [OF ss'(1), of "buf @ load h (p, ?n)"]
      by (simp add: seg ss'(2) Let_def min_def)
  qed
qed

lemma gather_readable_prefix_eq:
  assumes "regions_disjoint Gpa mem" and "gather_readable mem h chain = Ok b"
  shows "gather_readable_prefix mem h chain n = Ok (take n b)"
proof -
  obtain ss where "slices_of mem (dc_readable chain) = Some ss" "b = load_all h ss"
    using assms(2) by (auto simp: gather_readable_eq split: option.splits)
  with prefix_loop_eq [OF assms(1)] show ?thesis
    by (simp add: gather_readable_prefix_def)
qed

section \<open>I/O vectors\<close>

text \<open>The bytes from \<open>k\<close> on, at most \<open>m\<close> of them, as a list of slices.\<close>

fun cut_slices :: "nat \<Rightarrow> nat \<Rightarrow> slices \<Rightarrow> slices" where
  "cut_slices k m [] = []"
| "cut_slices k m ((p, n) # ss) =
     (if m = 0 then []
      else if n \<le> k then cut_slices (k - n) m ss
      else (ptr_add p k, min (n - k) m) # cut_slices 0 (m - min (n - k) m) ss)"

lemma cut_slices_0 [simp]: "cut_slices k 0 ss = []"
  by (induction ss) auto

lemma load_all_cut: "load_all h (cut_slices k m ss) = take m (drop k (load_all h ss))"
proof (induction k m ss rule: cut_slices.induct)
  case (2 k m p n ss)
  show ?case
  proof (cases "m = 0 \<or> n \<le> k")
    case True
    with "2.IH"(1) show ?thesis by auto
  next
    case False
    let ?c = "min (n - k) m"
    have "load h (ptr_add p k, ?c) = take ?c (drop k (load h (p, n)))"
      using False by (intro load_sub) auto
    with False "2.IH"(2) show ?thesis
      by (simp add: min_def)
  qed
qed simp

lemma slices_len_cut: "slices_len (cut_slices k m ss) = min m (slices_len ss - k)"
proof -
  have "length (load_all h (cut_slices k m ss)) = length (take m (drop k (load_all h ss)))" for h
    by (simp only: load_all_cut)
  then show ?thesis by simp
qed

lemma iovecs_loop_eq:
  assumes "regions_disjoint Gpa mem" and "slices_of mem segs = Some ss"
  shows "iovecs_loop mem segs skip remaining mutable acc =
     Ok (acc @ cut_slices (unat skip) (unat remaining) ss)"
  using assms(2)
proof (induction segs arbitrary: ss skip remaining acc)
  case Nil
  then show ?case by simp
next
  case (Cons seg segs)
  obtain addr len where seg: "seg = (addr, len)" by (cases seg)
  obtain p ss' where p: "get_slice mem Gpa addr len = Some (p, unat len)"
      and ss': "slices_of mem segs = Some ss'" "ss = (p, unat len) # ss'"
    using Cons.prems unfolding seg by (rule slices_of_ConsE)
  consider "remaining = 0" | "remaining \<noteq> 0" "len \<le> skip" | "remaining \<noteq> 0" "skip < len"
    by fastforce
  then show ?case
  proof cases
    case 1
    then show ?thesis by (simp add: seg ss'(2))
  next
    case 2
    then show ?thesis
      using Cons.IH [OF ss'(1)]
      by (simp add: seg ss'(2) unat_sub word_le_nat_alt unat_eq_zero)
  next
    case 3
    let ?c = "min (len - skip) remaining"
    have c: "unat ?c = min (unat len - unat skip) (unat remaining)"
      using 3 by (auto simp: min_def word_le_nat_alt unat_sub word_less_nat_alt)
    have "get_slice mem Gpa (addr + skip) ?c = Some (ptr_add p (unat skip), unat ?c)"
      using assms(1) p by (rule get_slice_sub) (use 3 c in \<open>auto simp: word_less_nat_alt unat_gt_0\<close>)
    moreover have "unat (remaining - ?c) = unat remaining - unat ?c"
      by (simp add: unat_sub)
    moreover have "\<not> len \<le> skip" "\<not> unat len \<le> unat skip" "unat remaining \<noteq> 0"
      using 3 by (simp_all add: word_less_nat_alt word_le_nat_alt unat_eq_zero)
    ultimately show ?thesis
      using 3(1) c Cons.IH [OF ss'(1)] by (simp add: seg ss'(2) get_slice_mut_eq Let_def ptr_add_def)
  qed
qed

lemma iovecs_from_eq:
  assumes "regions_disjoint Gpa mem" and "slices_of mem segs = Some ss"
  shows "iovecs_from mem segs skip max_total mutable =
     Ok (cut_slices (unat skip) (unat max_total) ss)"
  using iovecs_loop_eq [OF assms] by (simp add: iovecs_from_def)

section \<open>Scattering\<close>

text \<open>Bytes written over a list of slices, in order, as far as they go.\<close>

fun scatter_store :: "slices \<Rightarrow> bytes \<Rightarrow> heap \<Rightarrow> heap" where
  "scatter_store [] d h = h"
| "scatter_store ((p, n) # ss) d h = scatter_store ss (drop n d) (store p (take n d) h)"

lemma scatter_store_Nil [simp]: "scatter_store ss [] h = h"
  by (induction ss) auto

lemma scatter_loop_eq:
  assumes "regions_disjoint Gpa mem" and "slices_of mem segs = Some ss"
  shows "scatter_loop mem segs d wr h =
     (Ok (wr + of_nat (min (length d) (slices_len ss))), scatter_store ss d h)"
  using assms(2)
proof (induction segs arbitrary: ss d wr h)
  case Nil
  then show ?case by simp
next
  case (Cons seg segs)
  obtain addr len where seg: "seg = (addr, len)" by (cases seg)
  obtain p ss' where p: "get_slice mem Gpa addr len = Some (p, unat len)"
      and ss': "slices_of mem segs = Some ss'" "ss = (p, unat len) # ss'"
    using Cons.prems unfolding seg by (rule slices_of_ConsE)
  show ?case
  proof (cases "d = []")
    case True
    then show ?thesis by (simp add: seg)
  next
    case False
    let ?n = "min (length d) (unat len)"
    have "get_slice mem Gpa addr (of_nat ?n) = Some (p, ?n)"
      using assms(1) p
      by (rule get_slice_first) (use False in \<open>auto simp: min_def split: if_splits\<close>)
    moreover have "drop ?n d = drop (unat len) d" "take ?n d = take (unat len) d"
      by (simp_all add: min_def)
    moreover have "?n + min (length (drop (unat len) d)) (slices_len ss')
        = min (length d) (unat len + slices_len ss')"
      by auto
    ultimately show ?thesis
      using False Cons.IH [OF ss'(1)]
      by (simp add: seg ss'(2) get_slice_mut_eq Let_def add.assoc flip: of_nat_add)
  qed
qed

lemma scatter_writable_eq:
  assumes "regions_disjoint Gpa mem" and "slices_of mem (dc_writable chain) = Some ss"
  shows "scatter_writable mem chain d h =
     (Ok (of_nat (min (length d) (slices_len ss))), scatter_store ss d h)"
  using scatter_loop_eq [OF assms] by (simp add: scatter_writable_def)

text \<open>
  Slices that are pairwise apart. On such slices the order of the writes does not matter, and
  what was written can be read back.
\<close>

definition all_apart :: "slices \<Rightarrow> bool" where
  "all_apart ss \<longleftrightarrow> sorted_wrt slices_apart ss"

lemma all_apart_Cons [simp]:
  "all_apart (s # ss) \<longleftrightarrow> (\<forall>t \<in> set ss. slices_apart s t) \<and> all_apart ss"
  by (simp add: all_apart_def)

lemma slices_apart_part:
  assumes "slices_apart s (p, n)" and "k + m \<le> n"
  shows "slices_apart s (ptr_add p k, m)"
  using assms by (auto simp: slices_apart_def ptr_add_def)

lemma slices_apart_first:
  "slices_apart (p, n) t \<Longrightarrow> k + m \<le> n \<Longrightarrow> slices_apart (ptr_add p k, m) t"
  by (auto simp: slices_apart_def ptr_add_def)

lemma slices_apart_sym: "slices_apart s t \<longleftrightarrow> slices_apart t s"
  by (auto simp: slices_apart_def)

lemma cut_slices_apart:
  "\<forall>t \<in> set ss. slices_apart s t \<Longrightarrow> \<forall>t \<in> set (cut_slices k m ss). slices_apart s t"
proof (induction k m ss rule: cut_slices.induct)
  case (2 k m p n ss)
  then show ?case
    by (auto intro: slices_apart_part [of s p n])
qed simp

lemma store_scatter_commute:
  assumes "\<forall>t \<in> set ss. slices_apart (p, length d) t"
  shows "store p d (scatter_store ss e h) = scatter_store ss e (store p d h)"
  using assms
proof (induction ss arbitrary: e h)
  case (Cons s ss)
  obtain q n where s: "s = (q, n)" by (cases s)
  have "slices_apart (p, length d) (ptr_add q 0, length (take n e))"
    using Cons.prems by (intro slices_apart_part [of _ q n]) (auto simp: s)
  then have "store p d (store q (take n e) h) = store q (take n e) (store p d h)"
    by (intro store_store_commute) (simp add: ptr_add_def)
  with Cons show ?case by (simp add: s)
qed simp

lemma scatter_cut_0: "length e \<le> m \<Longrightarrow> scatter_store (cut_slices 0 m ss) e h = scatter_store ss e h"
proof (induction ss arbitrary: m e h)
  case (Cons s ss)
  obtain p n where s: "s = (p, n)" by (cases s)
  show ?case
  proof (cases "m = 0 \<or> n = 0")
    case True
    with Cons show ?thesis by (auto simp: s)
  next
    case False
    have "take (min n m) e = take n e" "drop (min n m) e = drop n e"
      using Cons.prems by (auto simp: min_def)
    with False Cons show ?thesis
      by (simp add: s ptr_add_def)
  qed
qed simp

text \<open>
  A header and a payload written in one go, or the payload first, into the slices past the
  header, and the header last: the result is the same.
\<close>

lemma scatter_split:
  assumes "all_apart ss" and "length e \<le> m"
  shows "scatter_store ss (d @ e) h = scatter_store ss d (scatter_store (cut_slices (length d) m ss) e h)"
  using assms(1)
proof (induction ss arbitrary: d h)
  case (Cons s ss)
  obtain p n where s: "s = (p, n)" by (cases s)
  have apart: "\<forall>t \<in> set ss. slices_apart (p, n) t"
    using Cons.prems by (simp add: s)
  then have part: "\<forall>t \<in> set (cut_slices k j ss). slices_apart (p, i) t" if "i \<le> n" for i j k
    using that slices_apart_first [of p n _ 0 i] by (intro cut_slices_apart) (auto simp: ptr_add_def)
  consider "m = 0" | "m \<noteq> 0" "n \<le> length d" | "m \<noteq> 0" "length d < n"
    by fastforce
  then show ?case
  proof cases
    case 1
    with assms(2) show ?thesis by (simp add: s)
  next
    case 2
    have "scatter_store ss (drop n d @ e) (store p (take n d) h) =
        scatter_store ss (drop n d) (scatter_store (cut_slices (length (drop n d)) m ss) e
          (store p (take n d) h))"
      using Cons.prems by (intro Cons.IH) simp
    also have "scatter_store (cut_slices (length (drop n d)) m ss) e (store p (take n d) h) =
        store p (take n d) (scatter_store (cut_slices (length (drop n d)) m ss) e h)"
      using part [of "length (take n d)"] by (intro store_scatter_commute [symmetric]) simp
    finally show ?thesis using 2 by (simp add: s)
  next
    case 3
    let ?k = "n - length d"
    have cut: "cut_slices (length d) m ((p, n) # ss) =
        (ptr_add p (length d), min ?k m) # cut_slices 0 (m - min ?k m) ss"
      using 3 by simp
    have e: "take (min ?k m) e = take ?k e" "drop (min ?k m) e = drop ?k e"
      using assms(2) by (auto simp: min_def)
    have "scatter_store (cut_slices 0 (m - min ?k m) ss) (drop ?k e) h' = scatter_store ss (drop ?k e) h'"
      for h' using assms(2) by (intro scatter_cut_0) auto
    moreover have "store p d (scatter_store ss (drop ?k e) h') = scatter_store ss (drop ?k e) (store p d h')"
      for h' using apart slices_apart_first [of p n _ 0 "length d"] 3
      by (intro store_scatter_commute) (auto simp: ptr_add_def)
    moreover have "store p d (store (ptr_add p (length d)) (take ?k e) h) =
        store (ptr_add p (length d)) (take ?k e) (store p d h)"
      by (intro store_store_commute) (simp add: slices_apart_def ptr_add_def)
    ultimately show ?thesis
      using 3 by (simp add: s cut e store_append)
  qed
qed simp

text \<open>What was scattered is what the slices hold; bytes past it are untouched.\<close>

lemma load_all_apart:
  "\<forall>t \<in> set ss. slices_apart (p, length d) t \<Longrightarrow> load_all (store p d h) ss = load_all h ss"
  by (induction ss) (auto simp: load_store_apart slices_apart_sym)

lemma load_scatter_apart:
  assumes "\<forall>t \<in> set ss. slices_apart s t"
  shows "load (scatter_store ss d h) s = load h s"
  using assms
proof (induction ss arbitrary: d h)
  case (Cons t ss)
  obtain q n where t: "t = (q, n)" by (cases t)
  have "slices_apart s (ptr_add q 0, length (take n d))"
    using Cons.prems by (intro slices_apart_part [of _ q n]) (auto simp: t)
  then have "load (store q (take n d) h) s = load h s"
    by (intro load_store_apart) (simp add: ptr_add_def)
  with Cons show ?case by (simp add: t)
qed simp

lemma load_store_prefix:
  "length d \<le> n \<Longrightarrow> load (store p d h) (p, n) = d @ drop (length d) (load h (p, n))"
  by (intro nth_equalityI) (auto simp: load_def store_def ptr_add_def nth_append)

lemma load_scatter:
  assumes "all_apart ss"
  shows "load_all (scatter_store ss d h) ss =
     take (slices_len ss) d @ drop (length d) (load_all h ss)"
  using assms
proof (induction ss arbitrary: d h)
  case (Cons s ss)
  obtain p n where s: "s = (p, n)" by (cases s)
  have apart: "\<forall>t \<in> set ss. slices_apart (p, n) t"
    using Cons.prems by (simp add: s)
  then have "load (scatter_store ss (drop n d) (store p (take n d) h)) (p, n) =
      load (store p (take n d) h) (p, n)"
    by (rule load_scatter_apart)
  moreover have "load_all (store p (take n d) h) ss = load_all h ss"
    using apart slices_apart_first [of p n _ 0 "length (take n d)"]
    by (intro load_all_apart) (auto simp: ptr_add_def)
  ultimately show ?case
    using Cons load_store_prefix [of "take n d" n p h]
    by (cases "n \<le> length d") (auto simp: s take_add)
qed simp

section \<open>The rings in memory\<close>

text \<open>
  A ring that lies in one region: its host address. The fields of the rings by their offsets:
  the index at 2, then the entries from 4 on, of 2 bytes in the available and of 8 bytes in the
  used ring.
\<close>

definition ring_at :: "guest_memory \<Rightarrow> u64 \<Rightarrow> nat \<Rightarrow> host_ptr \<Rightarrow> bool" where
  "ring_at mem addr n p \<longleftrightarrow> n < 2 ^ 64 \<and> get_slice mem User addr (of_nat n) = Some (p, n)"

definition ring_idx :: "heap \<Rightarrow> host_ptr \<Rightarrow> u16" where
  "ring_idx h p = from_le (load h (ptr_add p 2, 2))"

definition avail_entry :: "heap \<Rightarrow> host_ptr \<Rightarrow> nat \<Rightarrow> u16" where
  "avail_entry h p slot = from_le (load h (ptr_add p (4 + 2 * slot), 2))"

definition used_entry :: "heap \<Rightarrow> host_ptr \<Rightarrow> nat \<Rightarrow> u32 \<times> u32" where
  "used_entry h p slot =
     (from_le (load h (ptr_add p (4 + 8 * slot), 4)), from_le (load h (ptr_add p (8 + 8 * slot), 4)))"

lemma ring_field:
  assumes "regions_disjoint User mem" and "ring_at mem addr n p"
    and "unat k = j" and "j + unat m \<le> n" and "0 < unat m"
  shows "get_slice mem User (addr + k) m = Some (ptr_add p j, unat m)"
  using get_slice_sub [of User mem addr "of_nat n" p n k m] assms by (simp add: ring_at_def)

lemma slot_offset:
  fixes s :: u16
  shows "unat s < 2 ^ 16" and "unat (ucast s * 2 :: u64) = 2 * unat s"
    and "unat (4 + ucast s * 2 :: u64) = 4 + 2 * unat s"
    and "unat (4 + ucast s * 8 :: u64) = 4 + 8 * unat s"
    and "unat (8 + ucast s * 8 :: u64) = 8 + 8 * unat s"
proof -
  have "unat s < 2 ^ LENGTH(16)" by (rule unsigned_less)
  then show "unat s < 2 ^ 16" by simp
  moreover from this have "unat (ucast s :: u64) = unat s"
    by (simp add: unsigned_ucast_eq take_bit_nat_eq_self)
  ultimately show "unat (ucast s * 2 :: u64) = 2 * unat s" "unat (4 + ucast s * 2 :: u64) = 4 + 2 * unat s"
    "unat (4 + ucast s * 8 :: u64) = 4 + 8 * unat s" "unat (8 + ucast s * 8 :: u64) = 8 + 8 * unat s"
    by (simp_all add: unat_word_ariths)
qed

lemma unat_mod_less:
  fixes a b :: "'a::len word"
  shows "b \<noteq> 0 \<Longrightarrow> unat (a mod b) < unat b"
  by (simp add: unat_mod unat_gt_0)

text \<open>On a mapped ring, \<open>pop_avail\<close> takes the entry at the next position, when there is one.\<close>

lemma pop_avail_ring:
  assumes dis: "regions_disjoint User mem"
    and ring: "ring_at mem (vq_avail_addr vq) (4 + 2 * unat (vq_queue_size vq)) p"
    and qs: "vq_queue_size vq \<noteq> 0"
  shows "pop_avail mem h vq =
     (if ring_idx h p = vq_last_avail_idx vq then (Ok None, vq)
      else (Ok (Some (avail_entry h p (unat (vq_last_avail_idx vq mod vq_queue_size vq)))),
            vq\<lparr>vq_last_avail_idx := vq_last_avail_idx vq + 1\<rparr>))"
proof -
  let ?s = "vq_last_avail_idx vq mod vq_queue_size vq"
  have idx: "get_slice mem User (vq_avail_addr vq + 2) 2 = Some (ptr_add p 2, 2)"
    using ring_field [OF dis ring, of 2 2 2] qs by (simp add: unat_gt_0 Suc_le_eq)
  have "get_slice mem User (vq_avail_addr vq + (4 + ucast ?s * 2)) 2 = Some (ptr_add p (4 + 2 * unat ?s), 2)"
    using ring_field [OF dis ring slot_offset(3) [of ?s], of 2] unat_mod_less [OF qs, of "vq_last_avail_idx vq"]
    by simp
  with idx qs show ?thesis
    by (simp add: pop_avail_def mem_read_u16_def AVAIL_RING_OFFSET_def ring_idx_def avail_entry_def Let_def)
qed

text \<open>A queue of size 0 with anything published on it stops the daemon.\<close>

lemma pop_avail_zero_size:
  "vq_queue_size vq = 0 \<Longrightarrow> mem_read_u16 mem h User (vq_avail_addr vq + 2) = Some i \<Longrightarrow>
   i \<noteq> vq_last_avail_idx vq \<Longrightarrow> fst (pop_avail mem h vq) = Panic"
  by (simp add: pop_avail_def)

lemma pop_avail_no_panic: "vq_queue_size vq \<noteq> 0 \<Longrightarrow> fst (pop_avail mem h vq) \<noteq> Panic"
  by (simp add: pop_avail_def Let_def split: option.splits)

lemma push_used_no_panic: "vq_queue_size vq \<noteq> 0 \<Longrightarrow> fst (push_used mem vq head wl h) \<noteq> Panic"
  by (simp add: push_used_def Let_def split: option.splits)

text \<open>\<open>push_used\<close> on a mapped ring: three stores, the index last.\<close>

definition push_used_stores :: "host_ptr \<Rightarrow> nat \<Rightarrow> u16 \<Rightarrow> u16 \<Rightarrow> u32 \<Rightarrow> heap \<Rightarrow> heap" where
  "push_used_stores p slot idx head wl h =
     store (ptr_add p 2) (le16 (idx + 1))
       (store (ptr_add p (8 + 8 * slot)) (le32 wl)
         (store (ptr_add p (4 + 8 * slot)) (le32 (ucast head)) h))"

lemma push_used_ring:
  assumes dis: "regions_disjoint User mem"
    and ring: "ring_at mem (vq_used_addr vq) (4 + 8 * unat (vq_queue_size vq)) p"
    and qs: "vq_queue_size vq \<noteq> 0"
  shows "push_used mem vq head wl h =
     (Ok (), push_used_stores p (unat (ring_idx h p mod vq_queue_size vq)) (ring_idx h p) head wl h)"
proof -
  let ?s = "ring_idx h p mod vq_queue_size vq"
  have less: "unat ?s < unat (vq_queue_size vq)"
    by (rule unat_mod_less [OF qs])
  have idx: "get_slice mem User (vq_used_addr vq + 2) 2 = Some (ptr_add p 2, 2)"
    using ring_field [OF dis ring, of 2 2 2] less by simp
  have e1: "get_slice mem User (vq_used_addr vq + (4 + ucast ?s * 8)) 4 = Some (ptr_add p (4 + 8 * unat ?s), 4)"
    using ring_field [OF dis ring slot_offset(4) [of ?s], of 4] less by simp
  have e2: "get_slice mem User (vq_used_addr vq + (8 + ucast ?s * 8)) 4 = Some (ptr_add p (8 + 8 * unat ?s), 4)"
    using ring_field [OF dis ring slot_offset(5) [of ?s], of 4] less by simp
  have "vq_used_addr vq + 4 + ucast ?s * 8 + 4 = vq_used_addr vq + (8 + ucast ?s * 8)" by simp
  with idx e1 e2 qs show ?thesis
    by (simp add: push_used_def mem_read_u16_def mem_write_u32_def mem_write_u16_def
        get_slice_mut_eq USED_RING_OFFSET_def USED_ELEM_LEN_def ring_idx_def [symmetric]
        push_used_stores_def Let_def add.assoc)
qed

text \<open>Reading the ring after a completion was published on it.\<close>

lemma load_store_off:
  "b + n \<le> a \<or> a + length d \<le> b \<Longrightarrow>
   load (store (ptr_add p a) d h) (ptr_add p b, n) = load h (ptr_add p b, n)"
  by (intro load_store_apart) (auto simp: slices_apart_def ptr_add_def)

lemma push_used_stores_ring:
  "ring_idx (push_used_stores p slot idx head wl h) p = idx + 1"
  "used_entry (push_used_stores p slot idx head wl h) p slot = (ucast head, wl)"
  "slot' \<noteq> slot \<Longrightarrow> used_entry (push_used_stores p slot idx head wl h) p slot' = used_entry h p slot'"
proof -
  have same: "load (store q d h') (q, n) = d" if "length d = n" for q d h' n
    using load_store_same [of q d h'] that by simp
  note rules = ring_idx_def used_entry_def push_used_stores_def same load_store_off
  show "ring_idx (push_used_stores p slot idx head wl h) p = idx + 1"
    by (simp add: rules)
  show "used_entry (push_used_stores p slot idx head wl h) p slot = (ucast head, wl)"
    by (simp add: rules)
  show "used_entry (push_used_stores p slot idx head wl h) p slot' = used_entry h p slot'"
    if "slot' \<noteq> slot"
    using that by (cases "slot' < slot") (simp_all add: rules)
qed

end
