(* ===== verification/Wire.thy ===== *)
theory Wire
  imports Cursor Core_Types
begin

text \<open>
  The FUSE wire structures of \<open>fuse/wire.rs\<close>: request headers and bodies parsed with the
  cursor, replies built with the writer.

  The lemmas give every parser by the offsets of its fields: it fails exactly when the buffer is
  shorter than the structure, and each field is the little-endian word at its offset in the
  kernel's structure. Replies have the sizes and field offsets of the kernel's structures.
\<close>

section \<open>Headers\<close>

definition IN_HEADER_LEN :: nat where "IN_HEADER_LEN = 40"
definition OUT_HEADER_LEN :: nat where "OUT_HEADER_LEN = 16"
definition INIT_OUT_MINOR :: u32 where "INIT_OUT_MINOR = 31"
definition INIT_OUT_LEN :: nat where "INIT_OUT_LEN = 64"

record in_header =
  ih_len :: u32
  ih_opcode :: u32
  ih_unique :: u64
  ih_nodeid :: u64
  ih_uid :: u32
  ih_gid :: u32
  ih_pid :: u32

definition in_header_from_bytes :: "bytes \<Rightarrow> in_header proto_result" where
  "in_header_from_bytes buf =
     bind (reader_u32 (reader_new buf)) (\<lambda>(len, r).
     bind (reader_u32 r) (\<lambda>(opcode, r).
     bind (reader_u64 r) (\<lambda>(unique, r).
     bind (reader_u64 r) (\<lambda>(nodeid, r).
     bind (reader_u32 r) (\<lambda>(uid, r).
     bind (reader_u32 r) (\<lambda>(gid, r).
     bind (reader_u32 r) (\<lambda>(pid, r).
     bind (reader_skip 4 r) (\<lambda>r.
     Ok \<lparr>ih_len = len, ih_opcode = opcode, ih_unique = unique, ih_nodeid = nodeid,
         ih_uid = uid, ih_gid = gid, ih_pid = pid\<rparr>))))))))"

definition in_header_body :: "bytes \<Rightarrow> bytes" where
  "in_header_body buf = drop (min IN_HEADER_LEN (length buf)) buf"

definition out_header_reply :: "u64 \<Rightarrow> i32 \<Rightarrow> bytes \<Rightarrow> bytes" where
  "out_header_reply unique error body =
     (let body = (if error = 0 then body else []);
          w = writer_new;
          w = writer_u32 (of_nat (OUT_HEADER_LEN + length body)) w;
          w = writer_i32 error w;
          w = writer_u64 unique w
      in writer_bytes body w)"

definition out_header_error_for :: "errno_table \<Rightarrow> u64 \<Rightarrow> i32 \<Rightarrow> bytes" where
  "out_header_error_for tbl unique host_errno =
     out_header_reply unique (- to_linux_errno tbl host_errno) []"

definition out_header_success_header_only :: "u64 \<Rightarrow> u32 \<Rightarrow> bytes" where
  "out_header_success_header_only unique total_len =
     (let w = writer_new;
          w = writer_u32 total_len w;
          w = writer_i32 0 w
      in writer_u64 unique w)"

section \<open>Opcodes\<close>

datatype (plugins only: size) opcode =
    OpLookup | OpForget | OpGetattr | OpSetattr | OpReadlink | OpSymlink | OpMkdir | OpUnlink
  | OpRmdir | OpRename | OpLink | OpOpen | OpRead | OpWrite | OpStatfs | OpRelease | OpFsync
  | OpGetxattr | OpListxattr | OpSetxattr | OpRemovexattr | OpFlush | OpInit | OpOpendir
  | OpReaddir | OpReleasedir | OpFsyncdir | OpAccess | OpCreate | OpDestroy | OpBatchForget
  | OpRename2 | OpUnknown u32

definition opcode_from :: "u32 \<Rightarrow> opcode" where
  "opcode_from v =
     (if v = 1 then OpLookup
      else if v = 2 then OpForget
      else if v = 3 then OpGetattr
      else if v = 4 then OpSetattr
      else if v = 5 then OpReadlink
      else if v = 6 then OpSymlink
      else if v = 9 then OpMkdir
      else if v = 10 then OpUnlink
      else if v = 11 then OpRmdir
      else if v = 12 then OpRename
      else if v = 13 then OpLink
      else if v = 14 then OpOpen
      else if v = 15 then OpRead
      else if v = 16 then OpWrite
      else if v = 17 then OpStatfs
      else if v = 18 then OpRelease
      else if v = 20 then OpFsync
      else if v = 21 then OpSetxattr
      else if v = 22 then OpGetxattr
      else if v = 23 then OpListxattr
      else if v = 24 then OpRemovexattr
      else if v = 25 then OpFlush
      else if v = 26 then OpInit
      else if v = 27 then OpOpendir
      else if v = 28 then OpReaddir
      else if v = 29 then OpReleasedir
      else if v = 30 then OpFsyncdir
      else if v = 34 then OpAccess
      else if v = 35 then OpCreate
      else if v = 38 then OpDestroy
      else if v = 42 then OpBatchForget
      else if v = 45 then OpRename2
      else OpUnknown v)"

section \<open>Attributes\<close>

definition fuse_attr_write :: "attr \<Rightarrow> writer \<Rightarrow> writer" where
  "fuse_attr_write a w =
     (let w = writer_u64 (attr_ino a) w;
          w = writer_u64 (attr_size a) w;
          w = writer_u64 (attr_blocks a) w;
          w = writer_u64 (fst (attr_atime a)) w;
          w = writer_u64 (fst (attr_mtime a)) w;
          w = writer_u64 (fst (attr_ctime a)) w;
          w = writer_u32 (snd (attr_atime a)) w;
          w = writer_u32 (snd (attr_mtime a)) w;
          w = writer_u32 (snd (attr_ctime a)) w;
          w = writer_u32 (attr_mode a) w;
          w = writer_u32 (attr_nlink a) w;
          w = writer_u32 (attr_uid a) w;
          w = writer_u32 (attr_gid a) w;
          w = writer_u32 (attr_rdev a) w;
          w = writer_u32 (attr_blksize a) w
      in writer_u32 0 w)"

definition ATTR_LEN :: nat where "ATTR_LEN = 88"
definition ENTRY_OUT_LEN :: nat where "ENTRY_OUT_LEN = 128"
definition ATTR_OUT_LEN :: nat where "ATTR_OUT_LEN = 104"
definition CACHE_TIMEOUT_SECS :: u64 where "CACHE_TIMEOUT_SECS = 1"

definition entry_out :: "u64 \<Rightarrow> attr \<Rightarrow> bytes" where
  "entry_out nodeid a =
     (let w = writer_new;
          w = writer_u64 nodeid w;
          w = writer_u64 1 w;
          w = writer_u64 CACHE_TIMEOUT_SECS w;
          w = writer_u64 CACHE_TIMEOUT_SECS w;
          w = writer_u32 0 w;
          w = writer_u32 0 w
      in fuse_attr_write a w)"

definition attr_out :: "attr \<Rightarrow> bytes" where
  "attr_out a =
     (let w = writer_new;
          w = writer_u64 CACHE_TIMEOUT_SECS w;
          w = writer_u32 0 w;
          w = writer_u32 0 w
      in fuse_attr_write a w)"

section \<open>Initialisation\<close>

record init_in =
  init_major :: u32
  init_minor :: u32
  init_max_readahead :: u32
  init_flags :: u32

text \<open>\<open>r.u32().unwrap_or(0)\<close>: missing flags are no flags.\<close>

definition init_in_from_bytes :: "bytes \<Rightarrow> init_in proto_result" where
  "init_in_from_bytes buf =
     bind (reader_u32 (reader_new buf)) (\<lambda>(major, r).
     bind (reader_u32 r) (\<lambda>(minor, r).
     bind (reader_u32 r) (\<lambda>(max_readahead, r).
     case reader_u32 r of
       Ok (flags, _) \<Rightarrow> Ok \<lparr>init_major = major, init_minor = minor,
                             init_max_readahead = max_readahead, init_flags = flags\<rparr>
     | Err _ \<Rightarrow> Ok \<lparr>init_major = major, init_minor = minor,
                     init_max_readahead = max_readahead, init_flags = 0\<rparr>
     | Panic \<Rightarrow> Panic)))"

definition MAX_WRITE :: u32 where "MAX_WRITE = push_bit 20 1"
definition FUSE_WRITEBACK_CACHE :: u32 where "FUSE_WRITEBACK_CACHE = push_bit 16 1"
definition FUSE_ASYNC_READ :: u32 where "FUSE_ASYNC_READ = push_bit 0 1"
definition FUSE_MAX_PAGES :: u32 where "FUSE_MAX_PAGES = push_bit 22 1"
definition ASSUMED_GUEST_PAGE_SIZE :: u32 where "ASSUMED_GUEST_PAGE_SIZE = 4096"

definition init_out :: "u32 \<Rightarrow> bytes" where
  "init_out max_readahead =
     (let w = writer_new;
          w = writer_u32 7 w;
          w = writer_u32 INIT_OUT_MINOR w;
          w = writer_u32 max_readahead w;
          w = writer_u32 (FUSE_WRITEBACK_CACHE OR FUSE_ASYNC_READ OR FUSE_MAX_PAGES) w;
          w = writer_u16 (- 1) w;
          w = writer_u16 (((- 1) div 4) * 3) w;
          w = writer_u32 MAX_WRITE w;
          w = writer_u32 1 w;
          w = writer_u16 (ucast (MAX_WRITE div ASSUMED_GUEST_PAGE_SIZE)) w;
          w = writer_u16 0 w;
          w = writer_u32 0 w;
          w = writer_u32 0 w;
          w = writer_u16 0 w
      in writer_pad_to INIT_OUT_LEN w)"

section \<open>Request bodies\<close>

record getattr_in =
  getattr_flags :: u32
  getattr_fh :: u64

definition getattr_in_from_bytes :: "bytes \<Rightarrow> getattr_in proto_result" where
  "getattr_in_from_bytes buf =
     bind (reader_u32 (reader_new buf)) (\<lambda>(flags, r).
     bind (reader_skip 4 r) (\<lambda>r.
     bind (reader_u64 r) (\<lambda>(fh, r).
     Ok \<lparr>getattr_flags = flags, getattr_fh = fh\<rparr>)))"

definition FATTR_MODE :: u32 where "FATTR_MODE = push_bit 0 1"
definition FATTR_UID :: u32 where "FATTR_UID = push_bit 1 1"
definition FATTR_GID :: u32 where "FATTR_GID = push_bit 2 1"
definition FATTR_SIZE :: u32 where "FATTR_SIZE = push_bit 3 1"
definition FATTR_ATIME :: u32 where "FATTR_ATIME = push_bit 4 1"
definition FATTR_MTIME :: u32 where "FATTR_MTIME = push_bit 5 1"
definition FATTR_ATIME_NOW :: u32 where "FATTR_ATIME_NOW = push_bit 7 1"
definition FATTR_MTIME_NOW :: u32 where "FATTR_MTIME_NOW = push_bit 8 1"

record setattr_in =
  sa_valid :: u32
  sa_size :: u64
  sa_atime :: u64
  sa_mtime :: u64
  sa_atimensec :: u32
  sa_mtimensec :: u32
  sa_mode :: u32
  sa_uid :: u32
  sa_gid :: u32

definition setattr_in_from_bytes :: "bytes \<Rightarrow> setattr_in proto_result" where
  "setattr_in_from_bytes buf =
     bind (reader_u32 (reader_new buf)) (\<lambda>(valid, r).
     bind (reader_skip 4 r) (\<lambda>r.
     bind (reader_skip 8 r) (\<lambda>r.
     bind (reader_u64 r) (\<lambda>(sz, r).
     bind (reader_skip 8 r) (\<lambda>r.
     bind (reader_u64 r) (\<lambda>(atime, r).
     bind (reader_u64 r) (\<lambda>(mtime, r).
     bind (reader_skip 8 r) (\<lambda>r.
     bind (reader_u32 r) (\<lambda>(atimensec, r).
     bind (reader_u32 r) (\<lambda>(mtimensec, r).
     bind (reader_skip 4 r) (\<lambda>r.
     bind (reader_u32 r) (\<lambda>(mode, r).
     bind (reader_skip 4 r) (\<lambda>r.
     bind (reader_u32 r) (\<lambda>(uid, r).
     bind (reader_u32 r) (\<lambda>(gid, r).
     Ok \<lparr>sa_valid = valid, sa_size = sz, sa_atime = atime, sa_mtime = mtime,
         sa_atimensec = atimensec, sa_mtimensec = mtimensec, sa_mode = mode,
         sa_uid = uid, sa_gid = gid\<rparr>)))))))))))))))"

record mkdir_in =
  mkdir_mode :: u32

definition mkdir_in_from_bytes :: "bytes \<Rightarrow> (mkdir_in \<times> bytes) proto_result" where
  "mkdir_in_from_bytes buf =
     bind (reader_u32 (reader_new buf)) (\<lambda>(mode, r).
     bind (reader_skip 4 r) (\<lambda>r.
     bind (reader_cstr r) (\<lambda>(name, r).
     Ok (\<lparr>mkdir_mode = mode\<rparr>, name))))"

record rename_in =
  rename_newdir :: u64

definition rename_in_from_bytes :: "bytes \<Rightarrow> (rename_in \<times> bytes \<times> bytes) proto_result" where
  "rename_in_from_bytes buf =
     bind (reader_u64 (reader_new buf)) (\<lambda>(newdir, r).
     bind (reader_cstr r) (\<lambda>(old, r).
     bind (reader_cstr r) (\<lambda>(new, r).
     Ok (\<lparr>rename_newdir = newdir\<rparr>, old, new))))"

definition rename_in_from_bytes_v2 :: "bytes \<Rightarrow> (rename_in \<times> bytes \<times> bytes) proto_result" where
  "rename_in_from_bytes_v2 buf =
     bind (reader_u64 (reader_new buf)) (\<lambda>(newdir, r).
     bind (reader_skip 8 r) (\<lambda>r.
     bind (reader_cstr r) (\<lambda>(old, r).
     bind (reader_cstr r) (\<lambda>(new, r).
     Ok (\<lparr>rename_newdir = newdir\<rparr>, old, new)))))"

record link_in =
  link_oldnodeid :: u64

definition link_in_from_bytes :: "bytes \<Rightarrow> (link_in \<times> bytes) proto_result" where
  "link_in_from_bytes buf =
     bind (reader_u64 (reader_new buf)) (\<lambda>(oldnodeid, r).
     bind (reader_cstr r) (\<lambda>(name, r).
     Ok (\<lparr>link_oldnodeid = oldnodeid\<rparr>, name)))"

record open_in =
  open_flags :: u32

definition open_in_from_bytes :: "bytes \<Rightarrow> open_in proto_result" where
  "open_in_from_bytes buf =
     bind (reader_u32 (reader_new buf)) (\<lambda>(flags, r). Ok \<lparr>open_flags = flags\<rparr>)"

record create_in =
  create_flags :: u32
  create_mode :: u32

definition create_in_from_bytes :: "bytes \<Rightarrow> (create_in \<times> bytes) proto_result" where
  "create_in_from_bytes buf =
     bind (reader_u32 (reader_new buf)) (\<lambda>(flags, r).
     bind (reader_u32 r) (\<lambda>(mode, r).
     bind (reader_skip 4 r) (\<lambda>r.
     bind (reader_skip 4 r) (\<lambda>r.
     bind (reader_cstr r) (\<lambda>(name, r).
     Ok (\<lparr>create_flags = flags, create_mode = mode\<rparr>, name))))))"

definition FOPEN_KEEP_CACHE :: u32 where "FOPEN_KEEP_CACHE = push_bit 1 1"

definition open_out :: "u64 \<Rightarrow> bytes" where
  "open_out fh =
     (let w = writer_new;
          w = writer_u64 fh w;
          w = writer_u32 FOPEN_KEEP_CACHE w
      in writer_i32 0 w)"

record release_in =
  release_fh :: u64

definition release_in_from_bytes :: "bytes \<Rightarrow> release_in proto_result" where
  "release_in_from_bytes buf =
     bind (reader_u64 (reader_new buf)) (\<lambda>(fh, r). Ok \<lparr>release_fh = fh\<rparr>)"

record flush_in =
  flush_fh :: u64

definition flush_in_from_bytes :: "bytes \<Rightarrow> flush_in proto_result" where
  "flush_in_from_bytes buf =
     bind (reader_u64 (reader_new buf)) (\<lambda>(fh, r). Ok \<lparr>flush_fh = fh\<rparr>)"

record read_in =
  read_fh :: u64
  read_offset :: u64
  read_size :: u32

definition read_in_from_bytes :: "bytes \<Rightarrow> read_in proto_result" where
  "read_in_from_bytes buf =
     bind (reader_u64 (reader_new buf)) (\<lambda>(fh, r).
     bind (reader_u64 r) (\<lambda>(offset, r).
     bind (reader_u32 r) (\<lambda>(sz, r).
     Ok \<lparr>read_fh = fh, read_offset = offset, read_size = sz\<rparr>)))"

record write_in =
  write_fh :: u64
  write_offset :: u64
  write_size :: u32

definition write_in_from_bytes :: "bytes \<Rightarrow> (write_in \<times> bytes) proto_result" where
  "write_in_from_bytes buf =
     bind (reader_u64 (reader_new buf)) (\<lambda>(fh, r).
     bind (reader_u64 r) (\<lambda>(offset, r).
     bind (reader_u32 r) (\<lambda>(sz, r).
     bind (reader_skip 4 r) (\<lambda>r.
     bind (reader_skip 8 r) (\<lambda>r.
     bind (reader_skip 4 r) (\<lambda>r.
     bind (reader_skip 4 r) (\<lambda>r.
     bind (reader_remaining r) (\<lambda>rest.
     Ok (\<lparr>write_fh = fh, write_offset = offset, write_size = sz\<rparr>, rest)))))))))"

definition write_out :: "u32 \<Rightarrow> bytes" where
  "write_out sz = (let w = writer_new; w = writer_u32 sz w in writer_u32 0 w)"

definition statfs_out :: "statvfs \<Rightarrow> bytes" where
  "statfs_out st =
     (let w = writer_new;
          w = writer_u64 (f_blocks st) w;
          w = writer_u64 (f_bfree st) w;
          w = writer_u64 (f_bavail st) w;
          w = writer_u64 (f_files st) w;
          w = writer_u64 (f_ffree st) w;
          w = writer_u32 (ucast (f_bsize st)) w;
          w = writer_u32 (ucast (f_namemax st)) w;
          w = writer_u32 (ucast (f_frsize st)) w;
          w = writer_u32 0 w
      in fold (\<lambda>_. writer_u32 0) [0 ..< 6] w)"

record access_in =
  access_mask :: u32

definition access_in_from_bytes :: "bytes \<Rightarrow> access_in proto_result" where
  "access_in_from_bytes buf =
     bind (reader_u32 (reader_new buf)) (\<lambda>(mask, r). Ok \<lparr>access_mask = mask\<rparr>)"

record forget_one =
  forget_nodeid :: u64
  forget_one_nlookup :: u64

primrec batch_forget_loop :: "nat \<Rightarrow> reader \<Rightarrow> forget_one list proto_result" where
  "batch_forget_loop 0 r = Ok []"
| "batch_forget_loop (Suc n) r =
     bind (reader_u64 r) (\<lambda>(nodeid, r).
     bind (reader_u64 r) (\<lambda>(nlookup, r).
     bind (batch_forget_loop n r) (\<lambda>out.
     Ok (\<lparr>forget_nodeid = nodeid, forget_one_nlookup = nlookup\<rparr> # out))))"

definition parse_batch_forget :: "bytes \<Rightarrow> forget_one list proto_result" where
  "parse_batch_forget buf =
     bind (reader_u32 (reader_new buf)) (\<lambda>(count, r).
     bind (reader_skip 4 r) (\<lambda>r.
     batch_forget_loop (unat count) r))"

record forget_in =
  forget_nlookup :: u64

definition forget_in_from_bytes :: "bytes \<Rightarrow> forget_in proto_result" where
  "forget_in_from_bytes buf =
     bind (reader_u64 (reader_new buf)) (\<lambda>(nlookup, r). Ok \<lparr>forget_nlookup = nlookup\<rparr>)"

section \<open>Directory entries\<close>

definition DT_UNKNOWN :: u32 where "DT_UNKNOWN = 0"
definition DT_DIR :: u32 where "DT_DIR = 4"
definition DT_REG :: u32 where "DT_REG = 8"
definition DT_LNK :: u32 where "DT_LNK = 10"

text \<open>
  \<open>push_dirent\<close> returns whether the entry fits, and the buffer. \<open>div_ceil(8)\<close> rounds up.
\<close>

definition push_dirent ::
  "bytes \<Rightarrow> nat \<Rightarrow> u64 \<Rightarrow> u64 \<Rightarrow> u32 \<Rightarrow> bytes \<Rightarrow> bool \<times> bytes" where
  "push_dirent out remaining ino off kind name =
     (let unpadded = 24 + length name;
          padded = (unpadded + 7) div 8 * 8
      in if remaining < padded then (False, out)
         else (True, out @ le64 ino @ le64 off @ le32 (of_nat (length name)) @ le32 kind @ name
                       @ replicate (padded - unpadded) 0))"

lemmas parser_defs =
  in_header_from_bytes_def init_in_from_bytes_def getattr_in_from_bytes_def
  setattr_in_from_bytes_def mkdir_in_from_bytes_def rename_in_from_bytes_def
  rename_in_from_bytes_v2_def link_in_from_bytes_def open_in_from_bytes_def
  create_in_from_bytes_def release_in_from_bytes_def flush_in_from_bytes_def
  read_in_from_bytes_def write_in_from_bytes_def access_in_from_bytes_def
  forget_in_from_bytes_def parse_batch_forget_def

section \<open>Parsers by offset\<close>

text \<open>Each parser fails exactly on a buffer shorter than its structure.\<close>

lemma in_header_from_bytes_eq:
  assumes "rust_slice b"
  shows "in_header_from_bytes b =
     (if IN_HEADER_LEN \<le> length b
      then Ok \<lparr>ih_len = u32_at 0 b, ih_opcode = u32_at 4 b, ih_unique = u64_at 8 b,
               ih_nodeid = u64_at 16 b, ih_uid = u32_at 24 b, ih_gid = u32_at 28 b,
               ih_pid = u32_at 32 b\<rparr>
      else Err Truncated)"
  using assms by (auto simp: parser_defs reader_defs cursor IN_HEADER_LEN_def split: if_splits)

lemma setattr_in_from_bytes_eq:
  assumes "rust_slice b"
  shows "setattr_in_from_bytes b =
     (if 84 \<le> length b
      then Ok \<lparr>sa_valid = u32_at 0 b, sa_size = u64_at 16 b, sa_atime = u64_at 32 b,
               sa_mtime = u64_at 40 b, sa_atimensec = u32_at 56 b, sa_mtimensec = u32_at 60 b,
               sa_mode = u32_at 68 b, sa_uid = u32_at 76 b, sa_gid = u32_at 80 b\<rparr>
      else Err Truncated)"
  using assms by (auto simp: parser_defs reader_defs cursor split: if_splits)

lemma getattr_in_from_bytes_eq:
  assumes "rust_slice b"
  shows "getattr_in_from_bytes b =
     (if 16 \<le> length b
      then Ok \<lparr>getattr_flags = u32_at 0 b, getattr_fh = u64_at 8 b\<rparr> else Err Truncated)"
  using assms by (auto simp: parser_defs reader_defs cursor split: if_splits)

lemma init_in_from_bytes_eq:
  assumes "rust_slice b"
  shows "init_in_from_bytes b =
     (if 12 \<le> length b
      then Ok \<lparr>init_major = u32_at 0 b, init_minor = u32_at 4 b,
               init_max_readahead = u32_at 8 b,
               init_flags = (if 16 \<le> length b then u32_at 12 b else 0)\<rparr>
      else Err Truncated)"
  using assms by (auto simp: parser_defs reader_defs cursor split: if_splits)

lemma read_in_from_bytes_eq:
  assumes "rust_slice b"
  shows "read_in_from_bytes b =
     (if 20 \<le> length b
      then Ok \<lparr>read_fh = u64_at 0 b, read_offset = u64_at 8 b, read_size = u32_at 16 b\<rparr>
      else Err Truncated)"
  using assms by (auto simp: parser_defs reader_defs cursor split: if_splits)

lemma write_in_from_bytes_eq:
  assumes "rust_slice b"
  shows "write_in_from_bytes b =
     (if 40 \<le> length b
      then Ok (\<lparr>write_fh = u64_at 0 b, write_offset = u64_at 8 b, write_size = u32_at 16 b\<rparr>,
               drop 40 b)
      else Err Truncated)"
  using assms by (auto simp: parser_defs reader_defs cursor split: if_splits)

lemma one_word_parsers_eq:
  assumes "rust_slice b"
  shows "open_in_from_bytes b =
      (if 4 \<le> length b then Ok \<lparr>open_flags = u32_at 0 b\<rparr> else Err Truncated)"
    and "access_in_from_bytes b =
      (if 4 \<le> length b then Ok \<lparr>access_mask = u32_at 0 b\<rparr> else Err Truncated)"
    and "release_in_from_bytes b =
      (if 8 \<le> length b then Ok \<lparr>release_fh = u64_at 0 b\<rparr> else Err Truncated)"
    and "flush_in_from_bytes b =
      (if 8 \<le> length b then Ok \<lparr>flush_fh = u64_at 0 b\<rparr> else Err Truncated)"
    and "forget_in_from_bytes b =
      (if 8 \<le> length b then Ok \<lparr>forget_nlookup = u64_at 0 b\<rparr> else Err Truncated)"
  using assms by (simp_all add: parser_defs reader_defs cursor)

text \<open>The body of a named request: the bytes up to the first NUL, if there is one.\<close>

definition cstr_at :: "nat \<Rightarrow> bytes \<Rightarrow> (bytes \<times> nat) option" where
  "cstr_at p b = map_option (\<lambda>n. (take n (drop p b), p + (n + 1)))
     (position (\<lambda>c. c = 0) (drop p b))"

lemma reader_cstr_at' [cursor]:
  "p \<le> length b \<Longrightarrow> reader_cstr \<lparr>rd_buf = b, rd_pos = p\<rparr> =
     (case cstr_at p b of
        None \<Rightarrow> Err Truncated
      | Some (s, q) \<Rightarrow> Ok (s, \<lparr>rd_buf = b, rd_pos = q\<rparr>))"
  by (simp add: reader_cstr_at cstr_at_def split: option.splits)

lemma cstr_at_bound: "cstr_at p b = Some (s, q) \<Longrightarrow> p \<le> length b \<Longrightarrow> q \<le> length b"
  using position_drop_bound by (auto simp: cstr_at_def)

lemma cstr_at_nul_free: "cstr_at p b = Some (s, q) \<Longrightarrow> 0 \<notin> set s"
proof -
  assume "cstr_at p b = Some (s, q)"
  then obtain n where n: "position (\<lambda>c. c = 0) (drop p b) = Some n" and s: "s = take n (drop p b)"
    by (auto simp: cstr_at_def)
  have "\<forall>k < n. (drop p b) ! k \<noteq> 0"
    using position_Some [OF n] by simp
  then show "0 \<notin> set s"
    by (auto simp: s in_set_conv_nth)
qed

lemma cstr_at_append:
  "0 \<notin> set s \<Longrightarrow> length pre = p \<Longrightarrow> cstr_at p (pre @ s @ 0 # rest) = Some (s, p + (length s + 1))"
  by (simp add: cstr_at_def take_position_nul)

lemma mkdir_in_from_bytes_eq:
  assumes "rust_slice b"
  shows "mkdir_in_from_bytes b =
     (if 8 \<le> length b
      then case cstr_at 8 b of
             None \<Rightarrow> Err Truncated
           | Some (name, _) \<Rightarrow> Ok (\<lparr>mkdir_mode = u32_at 0 b\<rparr>, name)
      else Err Truncated)"
  using assms
  by (auto simp: parser_defs reader_defs cursor simp del: reader_cstr_at
      split: if_splits option.splits)

lemma create_in_from_bytes_eq:
  assumes "rust_slice b"
  shows "create_in_from_bytes b =
     (if 16 \<le> length b
      then case cstr_at 16 b of
             None \<Rightarrow> Err Truncated
           | Some (name, _) \<Rightarrow> Ok (\<lparr>create_flags = u32_at 0 b, create_mode = u32_at 4 b\<rparr>, name)
      else Err Truncated)"
  using assms
  by (auto simp: parser_defs reader_defs cursor simp del: reader_cstr_at
      split: if_splits option.splits)

lemma link_in_from_bytes_eq:
  assumes "rust_slice b"
  shows "link_in_from_bytes b =
     (if 8 \<le> length b
      then case cstr_at 8 b of
             None \<Rightarrow> Err Truncated
           | Some (name, _) \<Rightarrow> Ok (\<lparr>link_oldnodeid = u64_at 0 b\<rparr>, name)
      else Err Truncated)"
  using assms
  by (auto simp: parser_defs reader_defs cursor simp del: reader_cstr_at
      split: if_splits option.splits)

text \<open>Two names, one after the other.\<close>

definition two_cstrs_at :: "nat \<Rightarrow> bytes \<Rightarrow> (bytes \<times> bytes) option" where
  "two_cstrs_at p b = (case cstr_at p b of
     None \<Rightarrow> None
   | Some (s, q) \<Rightarrow> map_option (\<lambda>(t, _). (s, t)) (cstr_at q b))"

lemma rename_in_from_bytes_eq:
  assumes "rust_slice b"
  shows "rename_in_from_bytes b =
     (if 8 \<le> length b
      then case two_cstrs_at 8 b of
             None \<Rightarrow> Err Truncated
           | Some (old, new) \<Rightarrow> Ok (\<lparr>rename_newdir = u64_at 0 b\<rparr>, old, new)
      else Err Truncated)"
  using assms
  by (auto simp: parser_defs reader_defs cursor two_cstrs_at_def cstr_at_bound
      simp del: reader_cstr_at split: if_splits option.splits)

lemma rename_in_from_bytes_v2_eq:
  assumes "rust_slice b"
  shows "rename_in_from_bytes_v2 b =
     (if 16 \<le> length b
      then case two_cstrs_at 16 b of
             None \<Rightarrow> Err Truncated
           | Some (old, new) \<Rightarrow> Ok (\<lparr>rename_newdir = u64_at 0 b\<rparr>, old, new)
      else Err Truncated)"
  using assms
  by (auto simp: parser_defs reader_defs cursor two_cstrs_at_def cstr_at_bound
      simp del: reader_cstr_at split: if_splits option.splits)

lemma two_cstrs_at_append:
  assumes "0 \<notin> set s" and "0 \<notin> set t" and "length pre = p"
  shows "two_cstrs_at p (pre @ s @ 0 # t @ 0 # rest) = Some (s, t)"
proof -
  have "cstr_at p (pre @ s @ 0 # t @ 0 # rest) = Some (s, p + (length s + 1))"
    using assms by (intro cstr_at_append)
  moreover have "cstr_at (p + (length s + 1)) ((pre @ s @ [0]) @ t @ 0 # rest)
      = Some (t, p + (length s + 1) + (length t + 1))"
    using assms by (intro cstr_at_append) auto
  ultimately show ?thesis
    by (simp add: two_cstrs_at_def)
qed

lemma batch_forget_loop_at:
  assumes "rust_slice b" and "p \<le> length b"
  shows "batch_forget_loop n \<lparr>rd_buf = b, rd_pos = p\<rparr> =
     (if p + 16 * n \<le> length b
      then Ok (map (\<lambda>i. \<lparr>forget_nodeid = u64_at (p + 16 * i) b,
                         forget_one_nlookup = u64_at (p + 16 * i + 8) b\<rparr>) [0 ..< n])
      else Err Truncated)"
  using assms(2)
proof (induction n arbitrary: p)
  case 0
  then show ?case by simp
next
  case (Suc n)
  have shift: "map f [0 ..< Suc n] = f 0 # map (\<lambda>i. f (Suc i)) [0 ..< n]" for f :: "nat \<Rightarrow> 'b"
    by (simp add: map_upt_Suc del: upt_Suc)
  show ?case
  proof (cases "p + 16 \<le> length b")
    case True
    with Suc.prems assms(1) show ?thesis
      by (simp add: reader_defs cursor Suc.IH shift ac_simps del: upt_Suc)
  next
    case False
    with Suc.prems assms(1) show ?thesis
      by (auto simp: reader_defs cursor split: if_splits)
  qed
qed

lemma parse_batch_forget_eq:
  assumes "rust_slice b"
  shows "parse_batch_forget b =
     (if 8 \<le> length b \<and> 8 + 16 * unat (u32_at 0 b) \<le> length b
      then Ok (map (\<lambda>i. \<lparr>forget_nodeid = u64_at (8 + 16 * i) b,
                         forget_one_nlookup = u64_at (8 + 16 * i + 8) b\<rparr>)
                 [0 ..< unat (u32_at 0 b)])
      else Err Truncated)"
  using assms
  by (auto simp: parser_defs reader_defs cursor batch_forget_loop_at split: if_splits)

lemmas parser_eqs =
  in_header_from_bytes_eq setattr_in_from_bytes_eq getattr_in_from_bytes_eq
  init_in_from_bytes_eq read_in_from_bytes_eq write_in_from_bytes_eq one_word_parsers_eq
  mkdir_in_from_bytes_eq create_in_from_bytes_eq link_in_from_bytes_eq rename_in_from_bytes_eq
  rename_in_from_bytes_v2_eq parse_batch_forget_eq

text \<open>No parser panics, on any buffer.\<close>

lemma parsers_no_panic:
  assumes "rust_slice b"
  shows "in_header_from_bytes b \<noteq> Panic" "setattr_in_from_bytes b \<noteq> Panic"
    "getattr_in_from_bytes b \<noteq> Panic" "init_in_from_bytes b \<noteq> Panic"
    "read_in_from_bytes b \<noteq> Panic" "write_in_from_bytes b \<noteq> Panic"
    "open_in_from_bytes b \<noteq> Panic" "access_in_from_bytes b \<noteq> Panic"
    "release_in_from_bytes b \<noteq> Panic" "flush_in_from_bytes b \<noteq> Panic"
    "forget_in_from_bytes b \<noteq> Panic" "mkdir_in_from_bytes b \<noteq> Panic"
    "create_in_from_bytes b \<noteq> Panic" "link_in_from_bytes b \<noteq> Panic"
    "rename_in_from_bytes b \<noteq> Panic" "rename_in_from_bytes_v2 b \<noteq> Panic"
    "parse_batch_forget b \<noteq> Panic"
  by (simp_all add: parser_eqs assms split: option.splits)

section \<open>Replies\<close>

lemmas reply_defs = out_header_reply_def out_header_error_for_def
  out_header_success_header_only_def Let_def

lemma out_header_reply_eq:
  "out_header_reply unique error body =
     (let body' = (if error = 0 then body else [])
      in le32 (of_nat (16 + length body')) @ le32 error @ le64 unique @ body')"
  by (simp add: out_header_reply_def writer_defs OUT_HEADER_LEN_def Let_def)

lemma length_out_header_reply:
  "length (out_header_reply unique error body) = 16 + (if error = 0 then length body else 0)"
  by (simp add: out_header_reply_eq Let_def)

lemma length_fuse_attr_write: "length (fuse_attr_write a w) = length w + ATTR_LEN"
  by (simp add: fuse_attr_write_def writer_defs ATTR_LEN_def Let_def)

lemma length_entry_out: "length (entry_out nodeid a) = ENTRY_OUT_LEN"
  by (simp add: entry_out_def length_fuse_attr_write ENTRY_OUT_LEN_def ATTR_LEN_def Let_def)
    (simp add: writer_defs)

lemma length_attr_out: "length (attr_out a) = ATTR_OUT_LEN"
  by (simp add: attr_out_def length_fuse_attr_write ATTR_OUT_LEN_def ATTR_LEN_def Let_def)
    (simp add: writer_defs)

lemma length_init_out: "length (init_out m) = INIT_OUT_LEN"
  by (simp add: init_out_def writer_defs INIT_OUT_LEN_def Let_def)

lemma length_open_out: "length (open_out fh) = 16"
  by (simp add: open_out_def writer_defs Let_def)

lemma length_write_out: "length (write_out sz) = 8"
  by (simp add: write_out_def writer_defs Let_def)

lemma length_statfs_out: "length (statfs_out st) = 80"
  by (simp add: statfs_out_def writer_defs Let_def upt_rec)

end
