(* ===== verification/Inode_Store.thy ===== *)
theory Inode_Store
  imports Host
begin

text \<open>
  The inode table of \<open>inode.rs\<close>: ids the client sees, mapped to a reference descriptor, the
  identity of the file (device and inode number), its last known location and a lookup count.
  The tables are maps, as the two \<open>HashMap\<close>s are; the atomics and locks are read in program
  order, since the server is single-threaded. Dropping an \<open>OwnedFd\<close> closes it, which is
  explicit in the state of the world.

  The lemmas show that the two tables stay inverse to each other and that the table is a
  reference count: it refines an abstract count of references per id.
\<close>

section \<open>Data\<close>

definition ROOT_ID :: u64 where "ROOT_ID = 1"

record file_key =
  key_dev :: u64
  key_ino :: u64

record inode_data =
  ino_id :: u64
  ino_fd :: fd
  ino_kind :: file_kind
  ino_key :: file_key
  ino_parent :: "u64 option"
  ino_name :: bytes
  ino_lookups :: u64

definition inode_set_location :: "u64 \<Rightarrow> bytes \<Rightarrow> inode_data \<Rightarrow> inode_data" where
  "inode_set_location parent name d = d\<lparr>ino_parent := Some parent, ino_name := name\<rparr>"

record inode_store =
  by_id :: "u64 \<rightharpoonup> inode_data"
  by_key :: "file_key \<rightharpoonup> u64"
  ino_next_id :: u64

definition stat_key :: "stat \<Rightarrow> file_key" where
  "stat_key st = \<lparr>key_dev = st_dev st, key_ino = st_ino st\<rparr>"

section \<open>Operations\<close>

definition inode_store_new :: "fd \<Rightarrow> stat \<Rightarrow> inode_store" where
  "inode_store_new root_fd root_stat =
     (let root = \<lparr>ino_id = ROOT_ID, ino_fd = root_fd, ino_kind = Dir,
                  ino_key = stat_key root_stat, ino_parent = None, ino_name = [],
                  ino_lookups = 1\<rparr>
      in \<lparr>by_id = [ROOT_ID \<mapsto> root], by_key = [ino_key root \<mapsto> ROOT_ID],
          ino_next_id = ROOT_ID + 1\<rparr>)"

definition inode_store_get :: "u64 \<Rightarrow> inode_store \<Rightarrow> inode_data fs_result" where
  "inode_store_get i s = ok_or (by_id s i) (UnknownInode i)"

text \<open>
  \<open>register\<close>: a known file is found by its key, its count bumped, its location moved to where
  it was found now and the duplicate descriptor dropped; the \<open>unwrap\<close> panics if the key leads
  to an id that is not in the table. An unknown file gets the next id. Inserting over an id
  already in the table would drop the old entry and close its descriptor.
\<close>

definition inode_store_register ::
  "'w host \<Rightarrow> u64 \<Rightarrow> bytes \<Rightarrow> fd \<Rightarrow> stat \<Rightarrow> inode_store \<Rightarrow> 'w
   \<Rightarrow> inode_data fs_result \<times> inode_store \<times> 'w" where
  "inode_store_register H parent name fd st s w =
     (let key = stat_key st in
      case by_key s key of
        Some existing \<Rightarrow>
          (case by_id s existing of
             None \<Rightarrow> (Panic, s, w)
           | Some data \<Rightarrow>
               let data' = inode_set_location parent name
                             (data\<lparr>ino_lookups := ino_lookups data + 1\<rparr>)
               in (Ok data', s\<lparr>by_id := (by_id s)(existing \<mapsto> data')\<rparr>, sys_close H fd w))
      | None \<Rightarrow>
          let i = ino_next_id s;
              data = \<lparr>ino_id = i, ino_fd = fd, ino_kind = file_kind_from_mode (st_mode st),
                      ino_key = key, ino_parent = Some parent, ino_name = name,
                      ino_lookups = 1\<rparr>;
              w' = (case by_id s i of None \<Rightarrow> w | Some old \<Rightarrow> sys_close H (ino_fd old) w)
          in (Ok data,
              s\<lparr>by_id := (by_id s)(i \<mapsto> data), by_key := (by_key s)(key \<mapsto> i),
                ino_next_id := i + 1\<rparr>,
              w'))"

definition inode_store_forget ::
  "'w host \<Rightarrow> u64 \<Rightarrow> u64 \<Rightarrow> inode_store \<Rightarrow> 'w \<Rightarrow> inode_store \<times> 'w" where
  "inode_store_forget H i count s w =
     (if i = ROOT_ID then (s, w)
      else case by_id s i of
        None \<Rightarrow> (s, w)
      | Some data \<Rightarrow>
          let prev = ino_lookups data;
              data' = data\<lparr>ino_lookups := prev - min count prev\<rparr>
          in if prev \<le> count
             then (s\<lparr>by_id := (by_id s)(i := None),
                     by_key := (by_key s)(ino_key data := None)\<rparr>,
                   sys_close H (ino_fd data) w)
             else (s\<lparr>by_id := (by_id s)(i \<mapsto> data')\<rparr>, w))"

text \<open>
  \<open>note_rename\<close> walks the table in the iteration order of the hash map and moves the first
  inode it finds at the old location.
\<close>

definition at_location :: "inode_store \<Rightarrow> u64 \<Rightarrow> bytes \<Rightarrow> u64 \<Rightarrow> bool" where
  "at_location s parent name i \<longleftrightarrow>
     (case by_id s i of
        None \<Rightarrow> False
      | Some d \<Rightarrow> ino_parent d = Some parent \<and> ino_name d = name)"

definition inode_store_note_rename ::
  "'w host \<Rightarrow> u64 \<Rightarrow> bytes \<Rightarrow> u64 \<Rightarrow> bytes \<Rightarrow> inode_store \<Rightarrow> inode_store" where
  "inode_store_note_rename H old_parent old_name new_parent new_name s =
     (case find (at_location s old_parent old_name) (hash_order H (dom (by_id s))) of
        None \<Rightarrow> s
      | Some i \<Rightarrow>
          s\<lparr>by_id := (by_id s)(i := map_option (inode_set_location new_parent new_name)
                                          (by_id s i))\<rparr>)"

definition inode_store_len :: "inode_store \<Rightarrow> nat" where
  "inode_store_len s = card (dom (by_id s))"

text \<open>\<open>open_child\<close>: stat first, without following a link, then open the reference descriptor.\<close>

definition open_child ::
  "'w host \<Rightarrow> fd \<Rightarrow> bytes \<Rightarrow> 'w \<Rightarrow> (fd \<times> stat) fs_result \<times> 'w" where
  "open_child H parent_fd name w =
     (case sys_fstatat H parent_fd name (at_symlink_nofollow H) w of
        (Inl e, w1) \<Rightarrow> (Err (fs_error_from_io (errno_of H) (Some e)), w1)
      | (Inr st, w1) \<Rightarrow>
          let kind = file_kind_from_mode (st_mode st);
              flags = reference_open_flags H (kind = Dir) (kind = Symlink)
          in (case sys_openat H parent_fd name flags None w1 of
                (Inl e, w2) \<Rightarrow> (Err (fs_error_from_io (errno_of H) (Some e)), w2)
              | (Inr fd, w2) \<Rightarrow> (Ok (fd, st), w2)))"

section \<open>The table invariant\<close>

text \<open>
  The two maps are inverse to each other: an id leads to an entry with that id whose key leads
  back to it, and a key leads to an id whose entry has that key. Every id in use is below the
  next one, so a new id is unused. The root is always there.
\<close>

definition inode_store_ok :: "inode_store \<Rightarrow> bool" where
  "inode_store_ok s \<longleftrightarrow>
     finite (dom (by_id s)) \<and>
     (\<forall>i d. by_id s i = Some d \<longrightarrow>
        ino_id d = i \<and> by_key s (ino_key d) = Some i \<and> i < ino_next_id s) \<and>
     (\<forall>k i. by_key s k = Some i \<longrightarrow> (\<exists>d. by_id s i = Some d \<and> ino_key d = k)) \<and>
     ROOT_ID \<in> dom (by_id s) \<and> ROOT_ID < ino_next_id s"

lemma inode_store_okI:
  assumes "finite (dom (by_id s))"
    and "\<And>i d. by_id s i = Some d \<Longrightarrow>
      ino_id d = i \<and> by_key s (ino_key d) = Some i \<and> i < ino_next_id s"
    and "\<And>k i. by_key s k = Some i \<Longrightarrow> \<exists>d. by_id s i = Some d \<and> ino_key d = k"
    and "ROOT_ID \<in> dom (by_id s)" and "ROOT_ID < ino_next_id s"
  shows "inode_store_ok s"
  using assms by (simp add: inode_store_ok_def)

lemma inode_store_okD:
  assumes "inode_store_ok s"
  shows "finite (dom (by_id s))"
    and "by_id s i = Some d \<Longrightarrow> ino_id d = i"
    and "by_id s i = Some d \<Longrightarrow> by_key s (ino_key d) = Some i"
    and "by_id s i = Some d \<Longrightarrow> i < ino_next_id s"
    and "by_key s k = Some i \<Longrightarrow> \<exists>d. by_id s i = Some d \<and> ino_key d = k"
    and "\<exists>d. by_id s ROOT_ID = Some d"
    and "ROOT_ID < ino_next_id s"
  using assms by (auto simp: inode_store_ok_def)

lemma inode_store_ok_new: "inode_store_ok (inode_store_new fd st)"
  by (simp add: inode_store_ok_def inode_store_new_def Let_def ROOT_ID_def)

lemma inode_store_ok_fresh:
  assumes "inode_store_ok s"
  shows "by_id s (ino_next_id s) = None"
proof (cases "by_id s (ino_next_id s)")
  case None
  then show ?thesis .
next
  case (Some d)
  then have "ino_next_id s < ino_next_id s"
    by (rule inode_store_okD(4) [OF assms])
  then show ?thesis by simp
qed

text \<open>A location or count change at one id keeps the invariant.\<close>

lemma inode_store_ok_upd:
  assumes ok: "inode_store_ok s" and "by_id s i = Some d"
    and "ino_id d' = ino_id d" and "ino_key d' = ino_key d"
  shows "inode_store_ok (s\<lparr>by_id := (by_id s)(i \<mapsto> d')\<rparr>)"
proof (rule inode_store_okI)
  fix j e
  assume "by_id (s\<lparr>by_id := (by_id s)(i \<mapsto> d')\<rparr>) j = Some e"
  then show "ino_id e = j \<and> by_key (s\<lparr>by_id := (by_id s)(i \<mapsto> d')\<rparr>) (ino_key e) = Some j
      \<and> j < ino_next_id (s\<lparr>by_id := (by_id s)(i \<mapsto> d')\<rparr>)"
    using assms inode_store_okD [OF ok] by (auto split: if_splits)
next
  fix k j
  assume "by_key (s\<lparr>by_id := (by_id s)(i \<mapsto> d')\<rparr>) k = Some j"
  then show "\<exists>e. by_id (s\<lparr>by_id := (by_id s)(i \<mapsto> d')\<rparr>) j = Some e \<and> ino_key e = k"
    using assms inode_store_okD(5) [OF ok] by fastforce
qed (use assms inode_store_okD [OF ok] in auto)

text \<open>Registering keeps the invariant as long as ids have not run out.\<close>

lemma inode_store_ok_register:
  assumes ok: "inode_store_ok s" and room: "ino_next_id s \<noteq> - 1"
    and reg: "inode_store_register H parent name fd st s w = (r, s', w')"
  shows "inode_store_ok s'"
proof (cases "by_key s (stat_key st)")
  case (Some i)
  then obtain d where d: "by_id s i = Some d"
    using inode_store_okD(5) [OF ok] by blast
  have "s' = s\<lparr>by_id := (by_id s)(i \<mapsto>
      inode_set_location parent name (d\<lparr>ino_lookups := ino_lookups d + 1\<rparr>))\<rparr>"
    using reg Some d by (simp add: inode_store_register_def Let_def)
  with ok d show ?thesis
    by (auto simp: inode_set_location_def intro!: inode_store_ok_upd)
next
  case None
  let ?i = "ino_next_id s"
  obtain d where s': "s' = s\<lparr>by_id := (by_id s)(?i \<mapsto> d), by_key := (by_key s)(stat_key st \<mapsto> ?i),
      ino_next_id := ?i + 1\<rparr>" and d: "ino_id d = ?i" "ino_key d = stat_key st"
    using reg None by (fastforce simp: inode_store_register_def Let_def)
  have less: "?i < ?i + 1"
    using room by (rule word_less_succ)
  have fresh: "by_id s ?i = None"
    by (rule inode_store_ok_fresh [OF ok])
  show ?thesis
  proof (rule inode_store_okI)
    fix j e
    assume "by_id s' j = Some e"
    then show "ino_id e = j \<and> by_key s' (ino_key e) = Some j \<and> j < ino_next_id s'"
      using less None d inode_store_okD(2-4) [OF ok] by (force simp: s' split: if_splits)
  next
    fix k j
    assume "by_key s' k = Some j"
    then show "\<exists>e. by_id s' j = Some e \<and> ino_key e = k"
      using fresh d inode_store_okD(5) [OF ok] by (fastforce simp: s' split: if_splits)
  qed (use less inode_store_okD [OF ok] in \<open>auto simp: s'\<close>)
qed

lemma inode_store_register_no_panic:
  assumes "inode_store_ok s"
  shows "\<exists>d s' w'. inode_store_register H parent name fd st s w = (Ok d, s', w')
     \<and> by_id s' (ino_id d) = Some d \<and> ino_key d = stat_key st"
proof (cases "by_key s (stat_key st)")
  case None
  then show ?thesis by (simp add: inode_store_register_def Let_def)
next
  case (Some i)
  then obtain d where "by_id s i = Some d" "ino_key d = stat_key st"
    using inode_store_okD(5) [OF assms] by blast
  moreover have "ino_id d = i"
    using inode_store_okD(2) [OF assms] calculation(1) by blast
  ultimately show ?thesis
    using Some by (simp add: inode_store_register_def Let_def inode_set_location_def)
qed

text \<open>The three outcomes of a forget: nothing, a lower count, an eviction.\<close>

lemma inode_store_forget_noop:
  "i = ROOT_ID \<or> by_id s i = None \<Longrightarrow> inode_store_forget H i count s w = (s, w)"
  by (auto simp: inode_store_forget_def)

lemma inode_store_forget_keep:
  assumes "i \<noteq> ROOT_ID" "by_id s i = Some d" "count < ino_lookups d"
  shows "inode_store_forget H i count s w =
     (s\<lparr>by_id := (by_id s)(i \<mapsto> d\<lparr>ino_lookups := ino_lookups d - count\<rparr>)\<rparr>, w)"
  using assms by (auto simp: inode_store_forget_def Let_def min_def)

lemma inode_store_forget_evict:
  assumes "i \<noteq> ROOT_ID" "by_id s i = Some d" "ino_lookups d \<le> count"
  shows "inode_store_forget H i count s w =
     (s\<lparr>by_id := (by_id s)(i := None), by_key := (by_key s)(ino_key d := None)\<rparr>,
      sys_close H (ino_fd d) w)"
  using assms by (simp add: inode_store_forget_def)

lemma inode_store_ok_evict:
  assumes ok: "inode_store_ok s" and i: "i \<noteq> ROOT_ID" "by_id s i = Some d"
  shows "inode_store_ok (s\<lparr>by_id := (by_id s)(i := None), by_key := (by_key s)(ino_key d := None)\<rparr>)"
    (is "inode_store_ok ?s")
proof (rule inode_store_okI)
  fix j e
  assume "by_id ?s j = Some e"
  then have j: "j \<noteq> i" "by_id s j = Some e"
    by (auto split: if_splits)
  then have "ino_key e \<noteq> ino_key d"
    using i(2) inode_store_okD(3) [OF ok] by (metis option.inject)
  with j show "ino_id e = j \<and> by_key ?s (ino_key e) = Some j \<and> j < ino_next_id ?s"
    using inode_store_okD(2-4) [OF ok] by simp
next
  fix k j
  assume "by_key ?s k = Some j"
  then have k: "k \<noteq> ino_key d" "by_key s k = Some j"
    by (auto split: if_splits)
  then obtain e where e: "by_id s j = Some e" "ino_key e = k"
    using inode_store_okD(5) [OF ok] by blast
  with k i(2) have "j \<noteq> i" by auto
  with e show "\<exists>e. by_id ?s j = Some e \<and> ino_key e = k" by simp
qed (use i inode_store_okD [OF ok] in auto)

lemma inode_store_ok_forget:
  assumes ok: "inode_store_ok s"
  shows "inode_store_ok (fst (inode_store_forget H i count s w))"
proof (cases "i = ROOT_ID \<or> by_id s i = None")
  case True
  with ok show ?thesis by (simp add: inode_store_forget_noop)
next
  case False
  then obtain d where d: "i \<noteq> ROOT_ID" "by_id s i = Some d" by auto
  show ?thesis
  proof (cases "ino_lookups d \<le> count")
    case True
    with d ok show ?thesis by (simp add: inode_store_forget_evict inode_store_ok_evict)
  next
    case False
    with d have "count < ino_lookups d" by simp
    with d ok show ?thesis by (simp add: inode_store_forget_keep inode_store_ok_upd)
  qed
qed

lemma inode_store_ok_note_rename:
  assumes ok: "inode_store_ok s"
  shows "inode_store_ok (inode_store_note_rename H op on np nn s)"
proof (cases "find (at_location s op on) (hash_order H (dom (by_id s)))")
  case None
  with ok show ?thesis by (simp add: inode_store_note_rename_def)
next
  case (Some i)
  then have "at_location s op on i"
    by (auto simp: find_Some_iff)
  then obtain d where "by_id s i = Some d"
    by (auto simp: at_location_def split: option.splits)
  with ok Some show ?thesis
    by (auto simp: inode_store_note_rename_def inode_set_location_def
        intro!: inode_store_ok_upd)
qed

lemma ino_next_id_note_rename [simp]:
  "ino_next_id (inode_store_note_rename H op on np nn s) = ino_next_id s"
  by (simp add: inode_store_note_rename_def split: option.splits)

section \<open>The table is a reference count\<close>

text \<open>
  The references the table holds for an id, and the abstract specification it refines: a ledger
  that counts, per id, the references handed out by \<open>register\<close> less the ones given back by
  \<open>forget\<close>. Giving back more than was handed out counts as giving back everything, and the
  root's references are never given back.
\<close>

definition refs :: "inode_store \<Rightarrow> u64 \<Rightarrow> nat" where
  "refs s i = (case by_id s i of None \<Rightarrow> 0 | Some d \<Rightarrow> unat (ino_lookups d))"

datatype store_op =
    Register u64 bytes fd stat
  | Forget u64 u64
  | NoteRename u64 bytes u64 bytes

text \<open>One call on the table; a registration returns the id the client is told.\<close>

fun store_step ::
  "'w host \<Rightarrow> store_op \<Rightarrow> inode_store \<Rightarrow> 'w \<Rightarrow> u64 option \<times> inode_store \<times> 'w" where
  "store_step H (Register parent name fd st) s w =
     (case inode_store_register H parent name fd st s w of
        (Ok d, s', w') \<Rightarrow> (Some (ino_id d), s', w')
      | (_, s', w') \<Rightarrow> (None, s', w'))"
| "store_step H (Forget i count) s w =
     (case inode_store_forget H i count s w of (s', w') \<Rightarrow> (None, s', w'))"
| "store_step H (NoteRename old_parent old_name new_parent new_name) s w =
     (None, inode_store_note_rename H old_parent old_name new_parent new_name s, w)"

fun ledger_step :: "store_op \<Rightarrow> u64 option \<Rightarrow> (u64 \<Rightarrow> nat) \<Rightarrow> u64 \<Rightarrow> nat" where
  "ledger_step (Register _ _ _ _) (Some i) c = c(i := c i + 1)"
| "ledger_step (Register _ _ _ _) None c = c"
| "ledger_step (Forget i count) _ c = (if i = ROOT_ID then c else c(i := c i - unat count))"
| "ledger_step (NoteRename _ _ _ _) _ c = c"

fun store_run ::
  "'w host \<Rightarrow> store_op list \<Rightarrow> inode_store \<Rightarrow> 'w \<Rightarrow> (u64 \<Rightarrow> nat)
   \<Rightarrow> inode_store \<times> 'w \<times> (u64 \<Rightarrow> nat)" where
  "store_run H [] s w c = (s, w, c)"
| "store_run H (x # xs) s w c =
     (case store_step H x s w of (r, s', w') \<Rightarrow> store_run H xs s' w' (ledger_step x r c))"

text \<open>
  What holds after \<open>n\<close> calls on a new table: the invariant, that the ids and the counts have
  not come near wrapping around, and that every entry is referenced.
\<close>

definition store_counted :: "nat \<Rightarrow> inode_store \<Rightarrow> bool" where
  "store_counted n s \<longleftrightarrow>
     inode_store_ok s \<and> unat (ino_next_id s) \<le> n + 2 \<and> (\<forall>i. refs s i \<le> n + 1) \<and>
     (\<forall>i. i \<in> dom (by_id s) \<longleftrightarrow> 0 < refs s i)"

lemma store_counted_new: "store_counted 0 (inode_store_new fd st)"
  by (simp add: store_counted_def inode_store_ok_new)
    (simp add: inode_store_new_def Let_def refs_def ROOT_ID_def)

lemma refs_upd:
  "refs (s\<lparr>by_id := (by_id s)(i \<mapsto> d)\<rparr>) = (refs s)(i := unat (ino_lookups d))"
  by (simp add: refs_def fun_eq_iff)

lemma refs_evict:
  "refs (s\<lparr>by_id := (by_id s)(i := None), by_key := bk\<rparr>) = (refs s)(i := 0)"
  by (simp add: refs_def fun_eq_iff)

lemma not_max_of_bound:
  fixes x :: u64
  assumes "unat x \<le> n" and "n < 2 ^ 64 - 1"
  shows "x \<noteq> - 1"
proof
  assume "x = - 1"
  then have "unat x = 2 ^ 64 - 1"
    by (simp add: unsigned_minus_1_eq_mask mask_eq_exp_minus_1)
  with assms show False by simp
qed

text \<open>One more reference for one id, which may be new.\<close>

lemma store_counted_bump:
  assumes cnt: "store_counted n s" and ok: "inode_store_ok s'"
    and nid: "unat (ino_next_id s') \<le> Suc n + 2"
    and refs': "refs s' = (refs s)(i := refs s i + 1)"
    and dom': "dom (by_id s') = insert i (dom (by_id s))"
  shows "store_counted (Suc n) s'"
proof -
  have "refs s j \<le> n + 1" "j \<in> dom (by_id s) \<longleftrightarrow> 0 < refs s j" for j
    using cnt by (auto simp: store_counted_def)
  then show ?thesis
    using ok nid by (auto simp: store_counted_def refs' dom' le_SucI)
qed

lemma store_counted_register:
  assumes cnt: "store_counted n s" and n: "n + 2 < 2 ^ 64 - 1"
    and reg: "inode_store_register H parent name fd st s w = (r, s', w')"
  obtains d where "r = Ok d" "store_counted (Suc n) s'"
    "refs s' = (refs s)(ino_id d := refs s (ino_id d) + 1)"
proof -
  have ok: "inode_store_ok s" and nid: "unat (ino_next_id s) \<le> n + 2"
    and bound: "refs s i \<le> n + 1" for i
    using cnt by (auto simp: store_counted_def)
  have room: "ino_next_id s \<noteq> - 1"
    using not_max_of_bound [OF nid] n by simp
  have ok': "inode_store_ok s'"
    using ok room reg by (rule inode_store_ok_register)
  show thesis
  proof (cases "by_key s (stat_key st)")
    case (Some i)
    then obtain d where d: "by_id s i = Some d" "ino_id d = i"
      using inode_store_okD(2,5) [OF ok] by blast
    let ?d = "inode_set_location parent name (d\<lparr>ino_lookups := ino_lookups d + 1\<rparr>)"
    have r: "r = Ok ?d" and s': "s' = s\<lparr>by_id := (by_id s)(i \<mapsto> ?d)\<rparr>"
      using reg Some d by (simp_all add: inode_store_register_def Let_def)
    have "ino_lookups d \<noteq> - 1"
      using bound [of i] d n by (intro not_max_of_bound [of _ "n + 1"]) (simp_all add: refs_def)
    then have "refs s' = (refs s)(i := refs s i + 1)"
      using d by (simp add: s' refs_upd inode_set_location_def word_less_succ(2) refs_def)
    moreover have "store_counted (Suc n) s'"
      using cnt ok' _ calculation
      by (rule store_counted_bump) (use nid d in \<open>auto simp: s'\<close>)
    ultimately show thesis
      using r d(2) by (intro that [of ?d]) (simp_all add: inode_set_location_def)
  next
    case None
    let ?i = "ino_next_id s"
    obtain d where r: "r = Ok d" and d: "ino_id d = ?i" "ino_lookups d = 1"
      and s': "s' = s\<lparr>by_id := (by_id s)(?i \<mapsto> d), by_key := (by_key s)(stat_key st \<mapsto> ?i),
        ino_next_id := ?i + 1\<rparr>"
      using reg None by (fastforce simp: inode_store_register_def Let_def)
    have "refs s ?i = 0"
      using inode_store_ok_fresh [OF ok] by (simp add: refs_def)
    then have "refs s' = (refs s)(?i := refs s ?i + 1)"
      using d(2) by (simp add: fun_eq_iff s') (simp add: refs_def)
    moreover have "store_counted (Suc n) s'"
      using cnt ok' _ calculation
      by (rule store_counted_bump) (use nid room in \<open>auto simp: s' word_less_succ(2)\<close>)
    ultimately show thesis
      using r d(1) by (intro that [of d]) simp_all
  qed
qed

lemma store_counted_forget:
  assumes cnt: "store_counted n s"
    and fg: "inode_store_forget H i count s w = (s', w')"
  shows "store_counted n s'"
    and "refs s' = (if i = ROOT_ID then refs s else (refs s)(i := refs s i - unat count))"
proof -
  have ok: "inode_store_ok s" and nid: "unat (ino_next_id s) \<le> n + 2"
    and bound: "refs s j \<le> n + 1" and live: "0 < refs s j \<longleftrightarrow> (\<exists>d. by_id s j = Some d)" for j
    using cnt by (auto simp: store_counted_def)
  have ok': "inode_store_ok s'"
    using inode_store_ok_forget [OF ok, of H i count w] fg by simp
  have "ino_next_id s' = ino_next_id s \<and>
      refs s' = (if i = ROOT_ID then refs s else (refs s)(i := refs s i - unat count)) \<and>
      (\<forall>j. j \<in> dom (by_id s') \<longleftrightarrow> 0 < refs s' j)"
  proof (cases "i = ROOT_ID \<or> by_id s i = None")
    case True
    then have s': "s' = s" and "i = ROOT_ID \<or> refs s i = 0"
      using fg by (auto simp: inode_store_forget_noop refs_def)
    then show ?thesis
      by (auto simp: fun_eq_iff live)
  next
    case False
    then obtain d where d: "i \<noteq> ROOT_ID" "by_id s i = Some d" by auto
    show ?thesis
    proof (cases "ino_lookups d \<le> count")
      case True
      then have "refs s i - unat count = 0"
        using d by (simp add: refs_def word_le_nat_alt)
      moreover have "s' = s\<lparr>by_id := (by_id s)(i := None), by_key := (by_key s)(ino_key d := None)\<rparr>"
        using True d fg by (simp add: inode_store_forget_evict)
      ultimately show ?thesis
        using d by (auto simp: refs_evict live)
    next
      case False
      then have "count < ino_lookups d" by simp
      then have "refs s i - unat count = unat (ino_lookups d - count)" "0 < unat (ino_lookups d - count)"
        using d by (simp_all add: refs_def unat_sub word_less_nat_alt word_le_nat_alt)
      then show ?thesis
        using \<open>count < ino_lookups d\<close> d fg
        by (auto simp: inode_store_forget_keep refs_upd live)
    qed
  qed
  then show "refs s' = (if i = ROOT_ID then refs s else (refs s)(i := refs s i - unat count))"
    and "store_counted n s'"
    using ok' nid bound by (auto simp: store_counted_def intro: le_trans [OF diff_le_self])
qed

lemma refs_note_rename:
  "refs (inode_store_note_rename H op on np nn s) = refs s"
  by (auto simp: inode_store_note_rename_def refs_def fun_eq_iff inode_set_location_def
      split: option.splits)

lemma store_counted_note_rename:
  assumes "store_counted n s"
  shows "store_counted n (inode_store_note_rename H op on np nn s)"
proof -
  have "dom (by_id (inode_store_note_rename H op on np nn s)) = dom (by_id s)"
    by (auto simp: inode_store_note_rename_def split: option.splits if_splits)
  then show ?thesis
    using assms by (simp add: store_counted_def refs_note_rename inode_store_ok_note_rename)
qed

lemma store_counted_mono: "store_counted n s \<Longrightarrow> n \<le> m \<Longrightarrow> store_counted m s"
  by (auto simp: store_counted_def intro: le_trans)

text \<open>One call simulates one ledger entry.\<close>

lemma store_step_refines:
  assumes cnt: "store_counted n s" and n: "n + 2 < 2 ^ 64 - 1"
    and step: "store_step H x s w = (r, s', w')"
  shows "store_counted (Suc n) s' \<and> refs s' = ledger_step x r (refs s)"
proof (cases x)
  case (Register parent name fd st)
  obtain r1 s1 w1 where reg: "inode_store_register H parent name fd st s w = (r1, s1, w1)"
    by (metis surj_pair)
  then obtain d where "r1 = Ok d" "store_counted (Suc n) s1"
    "refs s1 = (refs s)(ino_id d := refs s (ino_id d) + 1)"
    using cnt n by (auto elim: store_counted_register)
  with reg step Register show ?thesis by auto
next
  case (Forget i count)
  obtain s1 w1 where fg: "inode_store_forget H i count s w = (s1, w1)"
    by (metis surj_pair)
  with step Forget store_counted_forget [OF cnt fg] show ?thesis
    by (auto intro: store_counted_mono)
next
  case (NoteRename op on np nn)
  with step cnt show ?thesis
    by (auto simp: refs_note_rename intro: store_counted_mono store_counted_note_rename)
qed

lemma store_run_refines:
  assumes "store_counted n s" and "n + length xs + 2 < 2 ^ 64"
    and "store_run H xs s w (refs s) = (s', w', c)"
  shows "store_counted (n + length xs) s' \<and> c = refs s'"
  using assms
proof (induction xs arbitrary: n s w)
  case Nil
  then show ?case by auto
next
  case (Cons x xs)
  obtain r s1 w1 where step: "store_step H x s w = (r, s1, w1)"
    by (metis surj_pair)
  have s1: "store_counted (Suc n) s1" "refs s1 = ledger_step x r (refs s)"
    using store_step_refines [OF Cons.prems(1) _ step] Cons.prems(2) by auto
  then have "store_run H xs s1 w1 (refs s1) = (s', w', c)"
    using Cons.prems(3) step by simp
  with Cons.IH [OF s1(1)] Cons.prems(2) show ?case by simp
qed

lemma refs_new: "refs (inode_store_new fd st) = (\<lambda>i. if i = ROOT_ID then 1 else 0)"
  by (simp add: refs_def inode_store_new_def Let_def fun_eq_iff)

end
