(* ===== verification/Id_Table.thy ===== *)
theory Id_Table
  imports Prelude
begin

text \<open>
  The contract of a table that issues ids: a fresh id on insertion, the stored value until it is
  removed, and no id issued twice. The client lemmas are proved once here, over any table that
  keeps the contract.
\<close>

datatype 'd table_op = Ins 'd | Rem u64

text \<open>A run of insertions and removals, with the ids the insertions return.\<close>

fun table_run ::
  "('d \<Rightarrow> 's \<Rightarrow> u64 \<times> 's) \<Rightarrow> (u64 \<Rightarrow> 's \<Rightarrow> 'd option \<times> 's) \<Rightarrow> 'd table_op list \<Rightarrow> 's
   \<Rightarrow> u64 list \<times> 's" where
  "table_run ins rem [] s = ([], s)"
| "table_run ins rem (Ins d # xs) s =
     (case ins d s of (h, s1) \<Rightarrow> case table_run ins rem xs s1 of (hs, s2) \<Rightarrow> (h # hs, s2))"
| "table_run ins rem (Rem h # xs) s =
     (case rem h s of (_, s1) \<Rightarrow> table_run ins rem xs s1)"

locale id_table =
  fixes get :: "'s \<Rightarrow> u64 \<Rightarrow> 'd option"
    and ins :: "'d \<Rightarrow> 's \<Rightarrow> u64 \<times> 's"
    and rem :: "u64 \<Rightarrow> 's \<Rightarrow> 'd option \<times> 's"
    and issued :: "'s \<Rightarrow> nat"
    and inv :: "'s \<Rightarrow> bool"
  assumes get_below: "inv s \<Longrightarrow> get s h \<noteq> None \<Longrightarrow> unat h < issued s"
    and ins_ok: "inv s \<Longrightarrow> issued s < 2 ^ 64 - 1 \<Longrightarrow> ins d s = (h, s') \<Longrightarrow>
      inv s' \<and> unat h = issued s \<and> issued s' = Suc (issued s) \<and> get s' = (get s)(h \<mapsto> d)"
    and rem_ok: "inv s \<Longrightarrow> rem h s = (r, s') \<Longrightarrow>
      inv s' \<and> issued s' = issued s \<and> r = get s h \<and> get s' = (get s)(h := None)"
begin

lemma ins_fresh:
  assumes "inv s" and "issued s < 2 ^ 64 - 1" and "ins d s = (h, s')"
  shows "get s h = None"
  using assms get_below [of s h] ins_ok [OF assms] by fastforce

text \<open>The value inserted is what the new id leads to, and every other id keeps its value.\<close>

lemma get_after_ins:
  assumes "inv s" and "issued s < 2 ^ 64 - 1" and "ins d s = (h, s')"
  shows "get s' h = Some d" and "k \<noteq> h \<Longrightarrow> get s' k = get s k"
  using ins_ok [OF assms] by simp_all

lemma get_after_rem:
  assumes "inv s" and "rem h s = (r, s')"
  shows "r = get s h" and "get s' h = None" and "k \<noteq> h \<Longrightarrow> get s' k = get s k"
  using rem_ok [OF assms] by simp_all

text \<open>
  Over a whole run, however insertions and removals interleave, the ids issued are pairwise
  different, and none of them had been issued before the run.
\<close>

lemma run_issues_fresh:
  assumes "inv s" and "issued s + length xs < 2 ^ 64" and "table_run ins rem xs s = (hs, s')"
  shows "inv s' \<and> issued s \<le> issued s' \<and> issued s' \<le> issued s + length xs \<and>
    distinct hs \<and> (\<forall>h \<in> set hs. issued s \<le> unat h \<and> unat h < issued s')"
  using assms
proof (induction xs arbitrary: s hs)
  case Nil
  then show ?case by auto
next
  case (Cons x xs)
  show ?case
  proof (cases x)
    case (Ins d)
    obtain h s1 where h: "ins d s = (h, s1)" by (metis surj_pair)
    obtain ks where ks: "table_run ins rem xs s1 = (ks, s')" "hs = h # ks"
      using Cons.prems(3) Ins h by (auto split: prod.splits)
    have s1: "inv s1" "unat h = issued s" "issued s1 = Suc (issued s)"
      using ins_ok [OF Cons.prems(1) _ h] Cons.prems(2) by auto
    have "inv s' \<and> issued s1 \<le> issued s' \<and> issued s' \<le> issued s1 + length xs \<and>
        distinct ks \<and> (\<forall>h \<in> set ks. issued s1 \<le> unat h \<and> unat h < issued s')"
      using Cons.IH [OF s1(1) _ ks(1)] Cons.prems(2) s1(3) by simp
    then show ?thesis
      using s1 ks(2) by fastforce
  next
    case (Rem h)
    obtain r s1 where r: "rem h s = (r, s1)" by (metis surj_pair)
    then have "inv s1" "issued s1 = issued s"
      using rem_ok [OF Cons.prems(1)] by auto
    with Cons.IH [of s1 hs] Cons.prems(2,3) Rem r show ?thesis by auto
  qed
qed

end

end
