(* ===== verification/Handle_Store.thy ===== *)
theory Handle_Store
  imports Host Id_Table
begin

text \<open>
  The table of open handles (\<open>handle.rs\<close>): ids from a counter, each leading to an open file or
  an open directory stream. Removing a handle hands the descriptor back to the caller, who drops
  it. The table keeps the contract of \<open>id_table\<close>.
\<close>

section \<open>Data and operations\<close>

datatype handle_data = FileHandle fd | DirHandle fd

primrec handle_fd :: "handle_data \<Rightarrow> fd" where
  "handle_fd (FileHandle d) = d"
| "handle_fd (DirHandle d) = d"

record handle_store =
  handle_map :: "u64 \<rightharpoonup> handle_data"
  handle_next_id :: u64

definition handle_store_new :: handle_store where
  "handle_store_new = \<lparr>handle_map = Map.empty, handle_next_id = 1\<rparr>"

text \<open>Inserting over a live id, which needs the counter to wrap, would drop and close it.\<close>

definition handle_store_insert ::
  "'w host \<Rightarrow> handle_data \<Rightarrow> handle_store \<Rightarrow> 'w \<Rightarrow> u64 \<times> handle_store \<times> 'w" where
  "handle_store_insert H data s w =
     (let i = handle_next_id s;
          w' = (case handle_map s i of None \<Rightarrow> w | Some old \<Rightarrow> sys_close H (handle_fd old) w)
      in (i, s\<lparr>handle_map := (handle_map s)(i \<mapsto> data), handle_next_id := i + 1\<rparr>, w'))"

definition handle_store_remove ::
  "u64 \<Rightarrow> handle_store \<Rightarrow> handle_data fs_result \<times> handle_store" where
  "handle_store_remove i s =
     (ok_or (handle_map s i) (UnknownHandle i), s\<lparr>handle_map := (handle_map s)(i := None)\<rparr>)"

text \<open>
  \<open>with_file\<close> and \<open>with_dir\<close> hand the descriptor of a handle of the right kind to a
  continuation; \<open>x\<close> is the state the continuation runs in.
\<close>

definition handle_store_with_file ::
  "u64 \<Rightarrow> (fd \<Rightarrow> 'x \<Rightarrow> 'a fs_result \<times> 'x) \<Rightarrow> handle_store \<Rightarrow> 'x \<Rightarrow> 'a fs_result \<times> 'x" where
  "handle_store_with_file i f s x =
     (case handle_map s i of
        Some (FileHandle d) \<Rightarrow> f d x
      | Some (DirHandle _) \<Rightarrow> (Err (InvalidArgument ''handle is a directory, not a file''), x)
      | None \<Rightarrow> (Err (UnknownHandle i), x))"

definition handle_store_with_dir ::
  "u64 \<Rightarrow> (fd \<Rightarrow> 'x \<Rightarrow> 'a fs_result \<times> 'x) \<Rightarrow> handle_store \<Rightarrow> 'x \<Rightarrow> 'a fs_result \<times> 'x" where
  "handle_store_with_dir i f s x =
     (case handle_map s i of
        Some (DirHandle d) \<Rightarrow> f d x
      | Some (FileHandle _) \<Rightarrow> (Err (InvalidArgument ''handle is a file, not a directory''), x)
      | None \<Rightarrow> (Err (UnknownHandle i), x))"

definition handle_store_len :: "handle_store \<Rightarrow> nat" where
  "handle_store_len s = card (dom (handle_map s))"

section \<open>The contract\<close>

definition handle_store_ok :: "handle_store \<Rightarrow> bool" where
  "handle_store_ok s \<longleftrightarrow>
     finite (dom (handle_map s)) \<and> (\<forall>i \<in> dom (handle_map s). i < handle_next_id s)"

lemma handle_store_ok_new: "handle_store_ok handle_store_new"
  by (simp add: handle_store_ok_def handle_store_new_def)

lemma handle_store_fresh:
  assumes "handle_store_ok s"
  shows "handle_map s (handle_next_id s) = None"
  using assms by (force simp: handle_store_ok_def)

lemma handle_store_ok_insert:
  assumes "handle_store_ok s" and "handle_next_id s \<noteq> - 1"
    and "handle_store_insert H data s w = (i, s', w')"
  shows "handle_store_ok s'"
proof -
  have s': "s' = s\<lparr>handle_map := (handle_map s)(handle_next_id s \<mapsto> data),
      handle_next_id := handle_next_id s + 1\<rparr>"
    using assms(3) by (auto simp: handle_store_insert_def Let_def)
  have "handle_next_id s < handle_next_id s + 1"
    using assms(2) by (rule word_less_succ)
  moreover from this have "\<forall>i \<in> dom (handle_map s). i < handle_next_id s + 1"
    using assms(1) by (meson handle_store_ok_def less_trans)
  ultimately show ?thesis
    using assms(1) by (simp add: handle_store_ok_def s')
qed

lemma handle_store_ok_remove:
  "handle_store_ok s \<Longrightarrow> handle_store_ok (snd (handle_store_remove i s))"
  by (simp add: handle_store_ok_def handle_store_remove_def)

text \<open>The table with the world beside it, in the shape the contract speaks of.\<close>

definition handle_table_ins ::
  "'w host \<Rightarrow> handle_data \<Rightarrow> handle_store \<times> 'w \<Rightarrow> u64 \<times> handle_store \<times> 'w" where
  "handle_table_ins H data = (\<lambda>(s, w). handle_store_insert H data s w)"

definition handle_table_rem ::
  "u64 \<Rightarrow> handle_store \<times> 'w \<Rightarrow> handle_data option \<times> handle_store \<times> 'w" where
  "handle_table_rem i = (\<lambda>(s, w).
     case handle_store_remove i s of
       (Ok d, s') \<Rightarrow> (Some d, s', w)
     | (_, s') \<Rightarrow> (None, s', w))"

interpretation handle_table: id_table
  "\<lambda>(s, w). handle_map s"
  "handle_table_ins H"
  handle_table_rem
  "\<lambda>(s, w). unat (handle_next_id s)"
  "\<lambda>(s, w). handle_store_ok s"
  for H :: "'w host"
proof (unfold_locales, goal_cases)
  case (1 s h)
  then show ?case
    by (force simp: handle_store_ok_def word_less_nat_alt)
next
  case (2 s d h s')
  obtain t w where s: "s = (t, w)" by (cases s)
  obtain t' w' where s': "s' = (t', w')" by (cases s')
  have ins: "handle_store_insert H d t w = (h, t', w')"
    using 2(3) by (simp add: s s' handle_table_ins_def)
  have ok: "handle_store_ok t" using 2(1) by (simp add: s)
  have room: "handle_next_id t \<noteq> - 1"
    using 2(2) by (auto simp: s unsigned_minus_1_eq_mask mask_eq_exp_minus_1)
  have "handle_store_ok t'"
    using ok room ins by (rule handle_store_ok_insert)
  moreover have "h = handle_next_id t" "handle_next_id t' = handle_next_id t + 1"
      "handle_map t' = (handle_map t)(h \<mapsto> d)"
    using ins by (auto simp: handle_store_insert_def Let_def)
  ultimately show ?case
    using word_less_succ(2) [OF room] by (simp add: s s')
next
  case (3 s h r s')
  then show ?case
    using handle_store_ok_remove [of "fst s" h]
    by (cases s; cases "handle_map (fst s) h")
      (auto simp: handle_table_rem_def handle_store_remove_def)
qed

end
