(* ===== verification/Passthrough.thy ===== *)
theory Passthrough
  imports Inode_Store Handle_Store
begin

text \<open>
  The passthrough engine (\<open>passthrough.rs\<close>): the inode table, the handle table, and one
  operation per file system call, each a sequence of system calls on descriptors the tables own.
  An operation is a function on the engine and the world that also returns an outcome; \<open>?\<close> of
  the source is \<open>fs_bind\<close>.

  The lemmas show that every operation keeps the invariants of both tables and never panics,
  whatever the host answers, and what each operation does to the tables.
\<close>

section \<open>State and sequencing\<close>

record dir_entry =
  dent_name :: bytes
  dent_ino :: u64
  dent_kind :: file_kind
  dent_next_offset :: i64

record passthrough_fs =
  inodes :: inode_store
  handles :: handle_store

type_synonym ('w, 'a) fs_op = "passthrough_fs \<times> 'w \<Rightarrow> 'a fs_result \<times> passthrough_fs \<times> 'w"

definition fs_return :: "'a \<Rightarrow> ('w, 'a) fs_op" where
  "fs_return v = (\<lambda>\<sigma>. (Ok v, \<sigma>))"

definition fs_lift :: "'a fs_result \<Rightarrow> ('w, 'a) fs_op" where
  "fs_lift r = (\<lambda>\<sigma>. (r, \<sigma>))"

definition fs_bind :: "('w, 'a) fs_op \<Rightarrow> ('a \<Rightarrow> ('w, 'b) fs_op) \<Rightarrow> ('w, 'b) fs_op" where
  "fs_bind m f = (\<lambda>\<sigma>. case m \<sigma> of
     (Ok v, \<sigma>') \<Rightarrow> f v \<sigma>'
   | (Err e, \<sigma>') \<Rightarrow> (Err e, \<sigma>')
   | (Panic, \<sigma>') \<Rightarrow> (Panic, \<sigma>'))"

text \<open>
  A system call whose failure becomes \<open>io::Error::last_os_error().into()\<close>: the shape of
  \<open>check_errno\<close> and of every \<open>if fd < 0\<close> in the file.
\<close>

definition fs_sys :: "'w host \<Rightarrow> ('w \<Rightarrow> 'a sysret \<times> 'w) \<Rightarrow> ('w, 'a) fs_op" where
  "fs_sys H call = (\<lambda>(fs, w). case call w of
     (Inl e, w') \<Rightarrow> (Err (fs_error_from_io (errno_of H) (Some e)), fs, w')
   | (Inr v, w') \<Rightarrow> (Ok v, fs, w'))"

definition fs_close :: "'w host \<Rightarrow> fd \<Rightarrow> ('w, unit) fs_op" where
  "fs_close H d = (\<lambda>(fs, w). (Ok (), fs, sys_close H d w))"

text \<open>\<open>CString::new\<close> refuses a name with a NUL byte.\<close>

definition to_cstring :: "bytes \<Rightarrow> bytes fs_result" where
  "to_cstring name =
     (if 0 \<in> set name then Err (InvalidArgument ''name contains NUL'') else Ok name)"

section \<open>Construction\<close>

definition passthrough_new ::
  "'w host \<Rightarrow> bytes \<Rightarrow> 'w \<Rightarrow> passthrough_fs fs_result \<times> 'w" where
  "passthrough_new H shared_dir w =
     (if 0 \<in> set shared_dir then (Err (InvalidArgument ''path contains NUL''), w)
      else case sys_open H shared_dir
                  (oflag H O_DIRECTORY OR oflag H O_RDONLY OR oflag H O_CLOEXEC) w of
        (Inl e, w1) \<Rightarrow> (Err (fs_error_from_io (errno_of H) (Some e)), w1)
      | (Inr d, w1) \<Rightarrow>
          (case sys_fstat H d w1 of
             (Inl e, w2) \<Rightarrow> (Err (fs_error_from_io (errno_of H) (Some e)), sys_close H d w2)
           | (Inr st, w2) \<Rightarrow>
               (Ok \<lparr>inodes = inode_store_new d st, handles = handle_store_new\<rparr>, w2)))"

definition inode_count :: "passthrough_fs \<Rightarrow> nat" where
  "inode_count fs = inode_store_len (inodes fs)"

definition handle_count :: "passthrough_fs \<Rightarrow> nat" where
  "handle_count fs = handle_store_len (handles fs)"

section \<open>The tables as operations\<close>

definition fs_inode :: "u64 \<Rightarrow> ('w, inode_data) fs_op" where
  "fs_inode i = (\<lambda>(fs, w). (inode_store_get i (inodes fs), fs, w))"

definition fs_open_child :: "'w host \<Rightarrow> fd \<Rightarrow> bytes \<Rightarrow> ('w, fd \<times> stat) fs_op" where
  "fs_open_child H d name = (\<lambda>(fs, w). case open_child H d name w of (r, w') \<Rightarrow> (r, fs, w'))"

definition fs_register ::
  "'w host \<Rightarrow> u64 \<Rightarrow> bytes \<Rightarrow> fd \<Rightarrow> stat \<Rightarrow> ('w, inode_data) fs_op" where
  "fs_register H parent name d st = (\<lambda>(fs, w).
     case inode_store_register H parent name d st (inodes fs) w of
       (r, s', w') \<Rightarrow> (r, fs\<lparr>inodes := s'\<rparr>, w'))"

definition fs_insert_handle :: "'w host \<Rightarrow> handle_data \<Rightarrow> ('w, u64) fs_op" where
  "fs_insert_handle H data = (\<lambda>(fs, w).
     case handle_store_insert H data (handles fs) w of
       (h, s', w') \<Rightarrow> (Ok h, fs\<lparr>handles := s'\<rparr>, w'))"

text \<open>\<open>handles.remove(handle)?\<close> with the returned handle dropped, which closes it.\<close>

definition fs_drop_handle :: "'w host \<Rightarrow> u64 \<Rightarrow> ('w, unit) fs_op" where
  "fs_drop_handle H h = (\<lambda>(fs, w).
     case handle_store_remove h (handles fs) of
       (Ok d, s') \<Rightarrow> (Ok (), fs\<lparr>handles := s'\<rparr>, sys_close H (handle_fd d) w)
     | (Err e, s') \<Rightarrow> (Err e, fs\<lparr>handles := s'\<rparr>, w)
     | (Panic, s') \<Rightarrow> (Panic, fs\<lparr>handles := s'\<rparr>, w))"

text \<open>A system call on the descriptor of a file handle.\<close>

definition fs_with_file ::
  "'w host \<Rightarrow> u64 \<Rightarrow> (fd \<Rightarrow> 'w \<Rightarrow> 'a sysret \<times> 'w) \<Rightarrow> ('w, 'a) fs_op" where
  "fs_with_file H h call = (\<lambda>(fs, w).
     case handle_store_with_file h
            (\<lambda>d w. case call d w of
               (Inl e, w') \<Rightarrow> (Err (fs_error_from_io (errno_of H) (Some e)), w')
             | (Inr v, w') \<Rightarrow> (Ok v, w'))
            (handles fs) w of
       (r, w') \<Rightarrow> (r, fs, w'))"

section \<open>Lookup, forget and attributes\<close>

definition fs_lookup :: "'w host \<Rightarrow> u64 \<Rightarrow> bytes \<Rightarrow> ('w, u64 \<times> attr) fs_op" where
  "fs_lookup H parent name =
     fs_bind (fs_inode parent) (\<lambda>parent_data.
     fs_bind (fs_lift (to_cstring name)) (\<lambda>cname.
     fs_bind (fs_open_child H (ino_fd parent_data) cname) (\<lambda>(d, st).
     fs_bind (fs_register H parent name d st) (\<lambda>data.
     fs_return (ino_id data, attr_from_stat st)))))"

definition fs_forget :: "'w host \<Rightarrow> u64 \<Rightarrow> u64 \<Rightarrow> ('w, unit) fs_op" where
  "fs_forget H i count = (\<lambda>(fs, w).
     case inode_store_forget H i count (inodes fs) w of
       (s', w') \<Rightarrow> (Ok (), fs\<lparr>inodes := s'\<rparr>, w'))"

definition fs_getattr :: "'w host \<Rightarrow> u64 \<Rightarrow> ('w, attr) fs_op" where
  "fs_getattr H i =
     fs_bind (fs_inode i) (\<lambda>data.
     fs_bind (fs_sys H (sys_fstat H (ino_fd data))) (\<lambda>st.
     fs_return (attr_from_stat st)))"

definition parent_fd_name :: "inode_data \<Rightarrow> ('w, fd \<times> bytes) fs_op" where
  "parent_fd_name data =
     fs_bind (fs_inode (case ino_parent data of Some p \<Rightarrow> p | None \<Rightarrow> ROOT_ID)) (\<lambda>parent.
     fs_bind (fs_lift (to_cstring (ino_name data))) (\<lambda>name.
     fs_return (ino_fd parent, name)))"

definition reopen_via_parent :: "'w host \<Rightarrow> u64 \<Rightarrow> i32 \<Rightarrow> ('w, fd) fs_op" where
  "reopen_via_parent H i flags =
     fs_bind (fs_inode i) (\<lambda>data.
     if i = ROOT_ID then fs_sys H (sys_dupfd H (ino_fd data))
     else fs_bind (parent_fd_name data) (\<lambda>(parent_fd, name).
          fs_sys H (sys_openat H parent_fd name flags None)))"

text \<open>\<open>mode as libc::mode_t\<close>: \<open>mode_t\<close> is 16 bits wide on macOS and 32 on Linux.\<close>

definition mode_t :: "'w host \<Rightarrow> u32 \<Rightarrow> u32" where
  "mode_t H mode = (if target H = Macos then take_bit 16 mode else mode)"

definition to_ts :: "'w host \<Rightarrow> (i64 \<times> u32) option \<Rightarrow> timespec" where
  "to_ts H t = (case t of
     Some (sec, nsec) \<Rightarrow> (sec, ucast nsec)
   | None \<Rightarrow> (0, utime_omit H))"

text \<open>
  \<open>setattr\<close>: the truncation through a descriptor opened for writing, which is closed before
  its error is looked at; then the calls by parent and name; then the attributes anew.
\<close>

definition fs_setattr_size :: "'w host \<Rightarrow> u64 \<Rightarrow> u64 \<Rightarrow> ('w, unit) fs_op" where
  "fs_setattr_size H i sz =
     fs_bind (reopen_via_parent H i (oflag H O_WRONLY)) (\<lambda>wfd.
     fs_sys H (\<lambda>w. case sys_ftruncate H wfd sz w of (r, w') \<Rightarrow> (r, sys_close H wfd w')))"

definition fs_setattr_named :: "'w host \<Rightarrow> inode_data \<Rightarrow> set_attr \<Rightarrow> ('w, unit) fs_op" where
  "fs_setattr_named H data a =
     fs_bind (parent_fd_name data) (\<lambda>(parent_fd, name).
     fs_bind (case set_mode a of
                None \<Rightarrow> fs_return ()
              | Some mode \<Rightarrow>
                  fs_sys H (sys_fchmodat H parent_fd name (mode_t H mode) (at_symlink_nofollow H)))
       (\<lambda>_.
     fs_bind (if set_uid a \<noteq> None \<or> set_gid a \<noteq> None
              then fs_sys H (sys_fchownat H parent_fd name
                     (case set_uid a of Some u \<Rightarrow> u | None \<Rightarrow> - 1)
                     (case set_gid a of Some g \<Rightarrow> g | None \<Rightarrow> - 1) (at_symlink_nofollow H))
              else fs_return ())
       (\<lambda>_.
     if set_atime a \<noteq> None \<or> set_mtime a \<noteq> None
     then fs_sys H (sys_utimensat H parent_fd name
            (to_ts H (set_atime a), to_ts H (set_mtime a)) (at_symlink_nofollow H))
     else fs_return ())))"

definition fs_setattr :: "'w host \<Rightarrow> u64 \<Rightarrow> set_attr \<Rightarrow> ('w, attr) fs_op" where
  "fs_setattr H i a =
     fs_bind (fs_inode i) (\<lambda>data.
     fs_bind (case set_size a of None \<Rightarrow> fs_return () | Some sz \<Rightarrow> fs_setattr_size H i sz) (\<lambda>_.
     fs_bind (if set_mode a \<noteq> None \<or> set_uid a \<noteq> None \<or> set_gid a \<noteq> None
                 \<or> set_atime a \<noteq> None \<or> set_mtime a \<noteq> None
              then fs_setattr_named H data a else fs_return ()) (\<lambda>_.
     fs_getattr H i)))"

section \<open>Names\<close>

definition fs_mkdir :: "'w host \<Rightarrow> u64 \<Rightarrow> bytes \<Rightarrow> u32 \<Rightarrow> ('w, u64 \<times> attr) fs_op" where
  "fs_mkdir H parent name mode =
     fs_bind (fs_inode parent) (\<lambda>parent_data.
     fs_bind (fs_lift (to_cstring name)) (\<lambda>cname.
     fs_bind (fs_sys H (sys_mkdirat H (ino_fd parent_data) cname (mode_t H mode))) (\<lambda>_.
     fs_lookup H parent name)))"

text \<open>
  \<open>create\<close>: the descriptor is a plain integer until the lookup has succeeded, so nothing
  closes it when the lookup fails.
\<close>

definition fs_create ::
  "'w host \<Rightarrow> u64 \<Rightarrow> bytes \<Rightarrow> i32 \<Rightarrow> u32 \<Rightarrow> ('w, u64 \<times> u64 \<times> attr) fs_op" where
  "fs_create H parent name flags mode =
     fs_bind (fs_inode parent) (\<lambda>parent_data.
     fs_bind (fs_lift (to_cstring name)) (\<lambda>cname.
     fs_bind (fs_sys H (sys_openat H (ino_fd parent_data) cname
                (flags OR oflag H O_CREAT OR oflag H O_EXCL) (Some mode))) (\<lambda>d.
     fs_bind (fs_lookup H parent name) (\<lambda>(i, a).
     fs_bind (fs_insert_handle H (FileHandle d)) (\<lambda>h.
     fs_return (i, h, a))))))"

definition fs_unlink :: "'w host \<Rightarrow> u64 \<Rightarrow> bytes \<Rightarrow> ('w, unit) fs_op" where
  "fs_unlink H parent name =
     fs_bind (fs_inode parent) (\<lambda>parent_data.
     fs_bind (fs_lift (to_cstring name)) (\<lambda>cname.
     fs_sys H (sys_unlinkat H (ino_fd parent_data) cname 0)))"

definition fs_rmdir :: "'w host \<Rightarrow> u64 \<Rightarrow> bytes \<Rightarrow> ('w, unit) fs_op" where
  "fs_rmdir H parent name =
     fs_bind (fs_inode parent) (\<lambda>parent_data.
     fs_bind (fs_lift (to_cstring name)) (\<lambda>cname.
     fs_sys H (sys_unlinkat H (ino_fd parent_data) cname (at_removedir H))))"

definition fs_note_rename ::
  "'w host \<Rightarrow> u64 \<Rightarrow> bytes \<Rightarrow> u64 \<Rightarrow> bytes \<Rightarrow> ('w, unit) fs_op" where
  "fs_note_rename H parent name new_parent new_name = (\<lambda>(fs, w).
     (Ok (), fs\<lparr>inodes := inode_store_note_rename H parent name new_parent new_name (inodes fs)\<rparr>,
      w))"

definition fs_rename ::
  "'w host \<Rightarrow> u64 \<Rightarrow> bytes \<Rightarrow> u64 \<Rightarrow> bytes \<Rightarrow> ('w, unit) fs_op" where
  "fs_rename H parent name new_parent new_name =
     fs_bind (fs_inode parent) (\<lambda>parent_data.
     fs_bind (fs_inode new_parent) (\<lambda>new_parent_data.
     fs_bind (fs_lift (to_cstring name)) (\<lambda>cname.
     fs_bind (fs_lift (to_cstring new_name)) (\<lambda>cnew.
     fs_bind (fs_sys H (sys_renameat H (ino_fd parent_data) cname (ino_fd new_parent_data) cnew))
       (\<lambda>_. fs_note_rename H parent name new_parent new_name)))))"

definition fs_symlink :: "'w host \<Rightarrow> u64 \<Rightarrow> bytes \<Rightarrow> bytes \<Rightarrow> ('w, u64 \<times> attr) fs_op" where
  "fs_symlink H parent name target_path =
     fs_bind (fs_inode parent) (\<lambda>parent_data.
     fs_bind (fs_lift (to_cstring name)) (\<lambda>cname.
     fs_bind (fs_lift (to_cstring target_path)) (\<lambda>ctarget.
     fs_bind (fs_sys H (sys_symlinkat H ctarget (ino_fd parent_data) cname)) (\<lambda>_.
     fs_lookup H parent name))))"

definition fs_readlink :: "'w host \<Rightarrow> u64 \<Rightarrow> ('w, bytes) fs_op" where
  "fs_readlink H i =
     fs_bind (fs_inode i) (\<lambda>data.
     fs_bind (parent_fd_name data) (\<lambda>(parent_fd, name).
     fs_sys H (sys_readlinkat H parent_fd name 4096)))"

text \<open>\<open>link\<close>: by descriptor on Linux, by parent and name elsewhere.\<close>

definition fs_link :: "'w host \<Rightarrow> u64 \<Rightarrow> u64 \<Rightarrow> bytes \<Rightarrow> ('w, attr) fs_op" where
  "fs_link H i new_parent new_name =
     fs_bind (fs_inode i) (\<lambda>data.
     fs_bind (fs_inode new_parent) (\<lambda>new_parent_data.
     fs_bind (fs_lift (to_cstring new_name)) (\<lambda>cnew.
     fs_bind (if target H = Linux
              then fs_sys H (sys_linkat H (ino_fd data) [] (ino_fd new_parent_data) cnew
                     (at_empty_path H))
              else fs_bind (parent_fd_name data) (\<lambda>(parent_fd, name).
                   fs_sys H (sys_linkat H parent_fd name (ino_fd new_parent_data) cnew 0)))
       (\<lambda>_. fs_getattr H i))))"

section \<open>Files and directories\<close>

definition fs_open :: "'w host \<Rightarrow> u64 \<Rightarrow> i32 \<Rightarrow> ('w, u64) fs_op" where
  "fs_open H i flags =
     fs_bind (reopen_via_parent H i flags) (\<lambda>d. fs_insert_handle H (FileHandle d))"

definition fs_read :: "'w host \<Rightarrow> u64 \<Rightarrow> u64 \<Rightarrow> nat \<Rightarrow> ('w, bytes) fs_op" where
  "fs_read H h offset sz = fs_with_file H h (\<lambda>d. sys_pread H d sz offset)"

definition fs_write :: "'w host \<Rightarrow> u64 \<Rightarrow> u64 \<Rightarrow> bytes \<Rightarrow> ('w, nat) fs_op" where
  "fs_write H h offset data = fs_with_file H h (\<lambda>d. sys_pwrite H d data offset)"

text \<open>
  The vectored forms read and write through host addresses, so the memory behind them is part
  of the state. An I/O vector has at most 512 entries here (a descriptor chain is bounded), so
  its length fits the C \<open>int\<close> it is cast to.
\<close>

definition fs_read_vectored ::
  "'w host \<Rightarrow> u64 \<Rightarrow> u64 \<Rightarrow> iovec list \<Rightarrow> passthrough_fs \<Rightarrow> heap \<times> 'w
   \<Rightarrow> nat fs_result \<times> heap \<times> 'w" where
  "fs_read_vectored H h offset iov fs x =
     handle_store_with_file h
       (\<lambda>d (m, w). case sys_preadv H d iov offset m w of
          ((Inl e, m'), w') \<Rightarrow> (Err (fs_error_from_io (errno_of H) (Some e)), m', w')
        | ((Inr n, m'), w') \<Rightarrow> (Ok n, m', w'))
       (handles fs) x"

definition fs_write_vectored ::
  "'w host \<Rightarrow> u64 \<Rightarrow> u64 \<Rightarrow> iovec list \<Rightarrow> heap \<Rightarrow> ('w, nat) fs_op" where
  "fs_write_vectored H h offset iov m = fs_with_file H h (\<lambda>d. sys_pwritev H d iov offset m)"

definition fs_fsync :: "'w host \<Rightarrow> u64 \<Rightarrow> ('w, unit) fs_op" where
  "fs_fsync H h = fs_with_file H h (sys_fsync H)"

definition fs_release :: "'w host \<Rightarrow> u64 \<Rightarrow> ('w, unit) fs_op" where
  "fs_release H h = fs_drop_handle H h"

definition fs_opendir :: "'w host \<Rightarrow> u64 \<Rightarrow> ('w, u64) fs_op" where
  "fs_opendir H i =
     fs_bind (reopen_via_parent H i (oflag H O_RDONLY OR oflag H O_DIRECTORY)) (\<lambda>d.
     fs_bind (\<lambda>(fs, w). case sys_fdopendir H d w of
                (Inl e, w') \<Rightarrow> (Err (fs_error_from_nix e), fs, w')
              | (Inr _, w') \<Rightarrow> (Ok (), fs, w')) (\<lambda>_.
     fs_insert_handle H (DirHandle d)))"

definition dirent_kind :: "dirent_type option \<Rightarrow> file_kind" where
  "dirent_kind t = (case t of
     Some DtDirectory \<Rightarrow> Dir
   | Some DtSymlink \<Rightarrow> Symlink
   | Some DtFile \<Rightarrow> Regular
   | _ \<Rightarrow> Other)"

fun readdir_collect :: "(i32 + raw_dirent) list \<Rightarrow> dir_entry list fs_result" where
  "readdir_collect [] = Ok []"
| "readdir_collect (Inl e # _) = Err (fs_error_from_nix e)"
| "readdir_collect (Inr d # xs) =
     (if de_name d = [46] \<or> de_name d = [46, 46] then readdir_collect xs
      else bind (readdir_collect xs) (\<lambda>out.
           Ok (\<lparr>dent_name = de_name d, dent_ino = de_ino d, dent_kind = dirent_kind (de_type d),
                dent_next_offset = 0\<rparr> # out)))"

definition fs_readdir :: "'w host \<Rightarrow> u64 \<Rightarrow> ('w, dir_entry list) fs_op" where
  "fs_readdir H h = (\<lambda>(fs, w).
     case handle_store_with_dir h
            (\<lambda>d w. case sys_readdir H d w of (items, w') \<Rightarrow> (readdir_collect items, w'))
            (handles fs) w of
       (r, w') \<Rightarrow> (r, fs, w'))"

definition fs_releasedir :: "'w host \<Rightarrow> u64 \<Rightarrow> ('w, unit) fs_op" where
  "fs_releasedir H h = fs_drop_handle H h"

definition fs_statfs :: "'w host \<Rightarrow> u64 \<Rightarrow> ('w, statvfs) fs_op" where
  "fs_statfs H i =
     fs_bind (fs_inode i) (\<lambda>data. fs_sys H (sys_fstatvfs H (ino_fd data)))"

section \<open>The engine invariant\<close>

text \<open>
  Both tables are well formed and at most \<open>n\<close> ids have been used in either. An operation
  \<open>fs_keeps k\<close> when it never panics and uses at most \<open>k\<close> more ids, as long as ids
  last. This holds whatever the host answers: no law of the system calls is used.
\<close>

definition passthrough_ok :: "nat \<Rightarrow> passthrough_fs \<Rightarrow> bool" where
  "passthrough_ok n fs \<longleftrightarrow>
     inode_store_ok (inodes fs) \<and> handle_store_ok (handles fs) \<and>
     unat (ino_next_id (inodes fs)) \<le> n \<and> unat (handle_next_id (handles fs)) \<le> n"

definition fs_keeps :: "nat \<Rightarrow> ('w, 'a) fs_op \<Rightarrow> bool" where
  "fs_keeps k m \<longleftrightarrow>
     (\<forall>n fs w r fs' w'. passthrough_ok n fs \<longrightarrow> n + k < 2 ^ 64 - 1 \<longrightarrow>
        m (fs, w) = (r, fs', w') \<longrightarrow> passthrough_ok (n + k) fs' \<and> r \<noteq> Panic)"

named_theorems keeps \<open>operations that keep the engine invariant\<close>

lemma fs_keepsI:
  assumes "\<And>n fs w r fs' w'. passthrough_ok n fs \<Longrightarrow> n + k < 2 ^ 64 - 1 \<Longrightarrow>
      m (fs, w) = (r, fs', w') \<Longrightarrow> passthrough_ok (n + k) fs' \<and> r \<noteq> Panic"
  shows "fs_keeps k m"
  using assms unfolding fs_keeps_def by blast

lemma fs_keepsD:
  assumes "fs_keeps k m" "passthrough_ok n fs" "n + k < 2 ^ 64 - 1" "m (fs, w) = (r, fs', w')"
  shows "passthrough_ok (n + k) fs'" and "r \<noteq> Panic"
  using assms unfolding fs_keeps_def by blast+

lemma passthrough_ok_mono: "passthrough_ok n fs \<Longrightarrow> n \<le> m \<Longrightarrow> passthrough_ok m fs"
  by (simp add: passthrough_ok_def)

lemma fs_keeps_mono:
  assumes "fs_keeps j m" and "j \<le> k"
  shows "fs_keeps k m"
proof (rule fs_keepsI)
  fix n fs w r fs' w'
  assume "passthrough_ok n fs" "n + k < 2 ^ 64 - 1" "m (fs, w) = (r, fs', w')"
  with fs_keepsD [OF assms(1), of n fs w r fs' w'] assms(2)
  show "passthrough_ok (n + k) fs' \<and> r \<noteq> Panic"
    by (auto intro: passthrough_ok_mono)
qed

lemma fs_keeps_bind:
  assumes m: "fs_keeps j m" and f: "\<And>v. fs_keeps k (f v)"
  shows "fs_keeps (j + k) (fs_bind m f)"
proof (rule fs_keepsI)
  fix n fs w r fs' w'
  assume ok: "passthrough_ok n fs" and n: "n + (j + k) < 2 ^ 64 - 1"
    and run: "fs_bind m f (fs, w) = (r, fs', w')"
  obtain r1 fs1 w1 where m1: "m (fs, w) = (r1, fs1, w1)" by (metis surj_pair)
  have ok1: "passthrough_ok (n + j) fs1" "r1 \<noteq> Panic"
    using fs_keepsD [OF m ok _ m1] n by auto
  show "passthrough_ok (n + (j + k)) fs' \<and> r \<noteq> Panic"
  proof (cases r1)
    case (Ok v)
    then have "f v (fs1, w1) = (r, fs', w')"
      using run m1 by (simp add: fs_bind_def)
    with fs_keepsD [OF f ok1(1)] n show ?thesis
      by (metis add.assoc)
  next
    case (Err e)
    then show ?thesis
      using run m1 ok1(1) passthrough_ok_mono [OF ok1(1), of "n + (j + k)"]
      by (auto simp: fs_bind_def)
  qed (use ok1 in simp)
qed

text \<open>The same, with the budget of the whole given.\<close>

lemma fs_keeps_bind0 [keeps]:
  "fs_keeps 0 m \<Longrightarrow> (\<And>v. fs_keeps k (f v)) \<Longrightarrow> fs_keeps k (fs_bind m f)"
  using fs_keeps_bind [of 0 m k f] by simp

lemma fs_keeps_pure [keeps]:
  "fs_keeps k (fs_return v)"
  "r \<noteq> Panic \<Longrightarrow> fs_keeps k (fs_lift r)"
  "fs_keeps k (fs_sys H call)"
  "fs_keeps k (fs_inode i)"
  "fs_keeps k (fs_with_file H h file_call)"
  by (auto intro!: fs_keepsI passthrough_ok_mono [of n _ "n + k" for n]
      simp: fs_return_def fs_lift_def fs_sys_def fs_inode_def fs_with_file_def
        inode_store_get_def handle_store_with_file_def
      split: prod.splits sum.splits option.splits handle_data.splits)

lemma to_cstring_no_panic [keeps]: "to_cstring name \<noteq> Panic"
  by (simp add: to_cstring_def)

lemma fs_keeps_open_child [keeps]: "fs_keeps k (fs_open_child H d name)"
  by (auto intro!: fs_keepsI passthrough_ok_mono [of n _ "n + k" for n]
      simp: fs_open_child_def open_child_def Let_def split: prod.splits sum.splits)

lemma fs_keeps_register [keeps]: "fs_keeps (Suc 0) (fs_register H parent name d st)"
proof (rule fs_keepsI)
  fix n fs w r fs' w'
  assume ok: "passthrough_ok n fs" and n: "n + Suc 0 < 2 ^ 64 - 1"
    and run: "fs_register H parent name d st (fs, w) = (r, fs', w')"
  obtain s' where reg: "inode_store_register H parent name d st (inodes fs) w = (r, s', w')"
    and fs': "fs' = fs\<lparr>inodes := s'\<rparr>"
    using run by (auto simp: fs_register_def split: prod.splits)
  have ino: "inode_store_ok (inodes fs)" "unat (ino_next_id (inodes fs)) \<le> n"
    using ok by (simp_all add: passthrough_ok_def)
  then have room: "ino_next_id (inodes fs) \<noteq> - 1"
    using n by (intro not_max_of_bound) auto
  have "unat (ino_next_id s') \<le> Suc n"
    using reg ino(2) word_less_succ(2) [OF room]
    by (auto simp: inode_store_register_def Let_def split: option.splits)
  moreover have "inode_store_ok s'"
    using ino(1) room reg by (rule inode_store_ok_register)
  moreover have "r \<noteq> Panic"
    using inode_store_register_no_panic [OF ino(1), of H parent name d st w] reg by auto
  ultimately show "passthrough_ok (n + Suc 0) fs' \<and> r \<noteq> Panic"
    using ok by (simp add: passthrough_ok_def fs')
qed

lemma fs_keeps_insert_handle [keeps]: "fs_keeps (Suc 0) (fs_insert_handle H data)"
proof (rule fs_keepsI)
  fix n fs w r fs' w'
  assume ok: "passthrough_ok n fs" and n: "n + Suc 0 < 2 ^ 64 - 1"
    and run: "fs_insert_handle H data (fs, w) = (r, fs', w')"
  obtain h s' where ins: "handle_store_insert H data (handles fs) w = (h, s', w')"
    and fs': "fs' = fs\<lparr>handles := s'\<rparr>" "r = Ok h"
    using run by (auto simp: fs_insert_handle_def split: prod.splits)
  have hs: "handle_store_ok (handles fs)" "unat (handle_next_id (handles fs)) \<le> n"
    using ok by (simp_all add: passthrough_ok_def)
  then have room: "handle_next_id (handles fs) \<noteq> - 1"
    using n by (intro not_max_of_bound) auto
  have "handle_store_ok s'"
    using hs(1) room ins by (rule handle_store_ok_insert)
  moreover have "unat (handle_next_id s') \<le> Suc n"
    using ins hs(2) word_less_succ(2) [OF room] by (auto simp: handle_store_insert_def Let_def)
  ultimately show "passthrough_ok (n + Suc 0) fs' \<and> r \<noteq> Panic"
    using ok by (simp add: passthrough_ok_def fs')
qed

lemma fs_keeps_drop_handle [keeps]: "fs_keeps k (fs_drop_handle H h)"
proof (rule fs_keepsI)
  fix n fs w r fs' w'
  assume ok: "passthrough_ok n fs" and run: "fs_drop_handle H h (fs, w) = (r, fs', w')"
  then have "handle_store_ok (snd (handle_store_remove h (handles fs)))"
    by (simp add: passthrough_ok_def handle_store_ok_remove)
  with ok run show "passthrough_ok (n + k) fs' \<and> r \<noteq> Panic"
    by (cases "handle_map (handles fs) h")
      (auto simp: fs_drop_handle_def handle_store_remove_def passthrough_ok_def)
qed

lemma fs_keeps_forget [keeps]: "fs_keeps k (fs_forget H i count)"
proof (rule fs_keepsI)
  fix n fs w r fs' w'
  assume ok: "passthrough_ok n fs" and run: "fs_forget H i count (fs, w) = (r, fs', w')"
  obtain s' where fg: "inode_store_forget H i count (inodes fs) w = (s', w')"
    and fs': "fs' = fs\<lparr>inodes := s'\<rparr>" "r = Ok ()"
    using run by (auto simp: fs_forget_def split: prod.splits)
  have "inode_store_ok s'"
    using inode_store_ok_forget [of "inodes fs" H i count w] ok fg by (simp add: passthrough_ok_def)
  moreover have "ino_next_id s' = ino_next_id (inodes fs)"
    using fg by (auto simp: inode_store_forget_def Let_def split: if_splits option.splits)
  ultimately show "passthrough_ok (n + k) fs' \<and> r \<noteq> Panic"
    using ok by (simp add: passthrough_ok_def fs')
qed

lemma fs_keeps_note_rename [keeps]: "fs_keeps k (fs_note_rename H p nm np nn)"
  by (auto intro!: fs_keepsI simp: fs_note_rename_def passthrough_ok_def inode_store_ok_note_rename)

lemma fs_keeps_readdir [keeps]: "fs_keeps k (fs_readdir H h)"
proof -
  have "readdir_collect items \<noteq> Panic" for items
    by (induction items rule: readdir_collect.induct) (auto simp: bind_eq_Panic)
  then show ?thesis
    by (auto intro!: fs_keepsI passthrough_ok_mono [of n _ "n + k" for n]
        simp: fs_readdir_def handle_store_with_dir_def
        split: prod.splits option.splits handle_data.splits)
qed

lemma fs_keeps_fdopendir [keeps]:
  "fs_keeps k (\<lambda>(fs, w). case call w of
     (Inl e, w') \<Rightarrow> (Err (fs_error_from_nix e), fs, w') | (Inr _, w') \<Rightarrow> (Ok (), fs, w'))"
  by (auto intro!: fs_keepsI passthrough_ok_mono [of n _ "n + k" for n]
      split: prod.splits sum.splits)

lemma fs_keeps_prod [keeps]: "(\<And>a b. fs_keeps k (f a b)) \<Longrightarrow> fs_keeps k (case v of (a, b) \<Rightarrow> f a b)"
  by (cases v) simp

lemma fs_keeps_if [keeps]: "fs_keeps k m \<Longrightarrow> fs_keeps k m' \<Longrightarrow> fs_keeps k (if b then m else m')"
  by simp

lemma fs_keeps_option [keeps]:
  "fs_keeps k m \<Longrightarrow> (\<And>v. fs_keeps k (f v)) \<Longrightarrow> fs_keeps k (case x of None \<Rightarrow> m | Some v \<Rightarrow> f v)"
  by (cases x) simp_all

text \<open>Every operation of the engine.\<close>

lemma fs_keeps_lookup [keeps]: "fs_keeps (Suc 0) (fs_lookup H parent name)"
proof -
  have tail: "fs_keeps (Suc 0) (fs_bind (fs_register H parent name d st) (\<lambda>data. fs_return (f data)))"
    for d st and f :: "inode_data \<Rightarrow> 'b"
    using fs_keeps_bind [OF fs_keeps_register fs_keeps_pure(1) [of 0]] by simp
  show ?thesis
    unfolding fs_lookup_def by (rule tail | rule keeps)+
qed

lemma fs_keeps_getattr [keeps]: "fs_keeps k (fs_getattr H i)"
  unfolding fs_getattr_def by (intro keeps)

lemma fs_keeps_parent_fd_name [keeps]: "fs_keeps k (parent_fd_name data)"
  unfolding parent_fd_name_def by (intro keeps)

lemma fs_keeps_reopen [keeps]: "fs_keeps k (reopen_via_parent H i flags)"
  unfolding reopen_via_parent_def by (intro keeps)

lemma fs_keeps_setattr [keeps]: "fs_keeps k (fs_setattr H i a)"
  unfolding fs_setattr_def fs_setattr_size_def fs_setattr_named_def by (intro keeps)

lemma fs_keeps_mkdir [keeps]: "fs_keeps (Suc 0) (fs_mkdir H parent name mode)"
  unfolding fs_mkdir_def by (intro keeps)

lemma fs_keeps_create [keeps]: "fs_keeps 2 (fs_create H parent name flags mode)"
proof -
  have ins: "fs_keeps (Suc 0) (fs_bind (fs_insert_handle H d) (\<lambda>h. fs_return (f h)))"
    for d and f :: "u64 \<Rightarrow> 'b"
    using fs_keeps_bind [OF fs_keeps_insert_handle fs_keeps_pure(1) [of 0]] by simp
  have tail: "fs_keeps 2 (fs_bind (fs_lookup H parent name) (\<lambda>(i, a).
      fs_bind (fs_insert_handle H d) (\<lambda>h. fs_return (i, h, a))))" for d
    using fs_keeps_bind [OF fs_keeps_lookup fs_keeps_prod [OF ins]] by (simp add: numeral_2_eq_2)
  show ?thesis
    unfolding fs_create_def by (rule tail | rule keeps)+
qed

lemma fs_keeps_unlink [keeps]: "fs_keeps k (fs_unlink H parent name)"
  unfolding fs_unlink_def by (intro keeps)

lemma fs_keeps_rmdir [keeps]: "fs_keeps k (fs_rmdir H parent name)"
  unfolding fs_rmdir_def by (intro keeps)

lemma fs_keeps_rename [keeps]: "fs_keeps k (fs_rename H parent name new_parent new_name)"
  unfolding fs_rename_def by (intro keeps)

lemma fs_keeps_symlink [keeps]: "fs_keeps (Suc 0) (fs_symlink H parent name target_path)"
  unfolding fs_symlink_def by (intro keeps)

lemma fs_keeps_readlink [keeps]: "fs_keeps k (fs_readlink H i)"
  unfolding fs_readlink_def by (intro keeps)

lemma fs_keeps_link [keeps]: "fs_keeps k (fs_link H i new_parent new_name)"
  unfolding fs_link_def by (intro keeps)

lemma fs_keeps_open [keeps]: "fs_keeps (Suc 0) (fs_open H i flags)"
  unfolding fs_open_def by (intro keeps)

lemma fs_keeps_opendir [keeps]: "fs_keeps (Suc 0) (fs_opendir H i)"
  unfolding fs_opendir_def by (intro keeps)

lemma fs_keeps_io [keeps]:
  "fs_keeps k (fs_read H h offset sz)"
  "fs_keeps k (fs_write H h offset data)"
  "fs_keeps k (fs_write_vectored H h offset iov m)"
  "fs_keeps k (fs_fsync H h)"
  "fs_keeps k (fs_release H h)"
  "fs_keeps k (fs_releasedir H h)"
  "fs_keeps k (fs_statfs H i)"
  unfolding fs_read_def fs_write_def fs_write_vectored_def fs_fsync_def fs_release_def
    fs_releasedir_def fs_statfs_def
  by (intro keeps)+

lemma passthrough_ok_new:
  assumes "passthrough_new H dir w = (Ok fs, w')"
  shows "passthrough_ok 2 fs"
proof -
  obtain d st where "fs = \<lparr>inodes = inode_store_new d st, handles = handle_store_new\<rparr>"
    using assms by (auto simp: passthrough_new_def split: if_splits prod.splits sum.splits)
  then show ?thesis
    using store_counted_new [of d st] handle_store_ok_new
    by (simp add: passthrough_ok_def store_counted_def) (simp add: handle_store_new_def)
qed

end
