(* ===== verification/Dispatch.thy ===== *)
theory Dispatch
  imports Wire Passthrough
begin

text \<open>
  Request dispatch (\<open>fuse/dispatch.rs\<close>): one gathered FUSE request is decoded, the matching
  operation of the engine is called, and its reply is encoded. A session is the engine and the
  cache of directory listings. A handler returns \<open>Some\<close> of a reply, or \<open>None\<close> when the
  code would panic; the macros \<open>try_fs!\<close> and \<open>try_parse!\<close>, which return early, take the
  rest of the handler as an argument.
\<close>

section \<open>Sessions and replies\<close>

datatype reply = ReplyBytes bytes | ReplyNone

record session =
  ses_fs :: passthrough_fs
  readdir_cache :: "u64 \<rightharpoonup> dir_entry list"

type_synonym 'w handler = "session \<times> 'w \<Rightarrow> reply option \<times> session \<times> 'w"

definition session_new :: "passthrough_fs \<Rightarrow> session" where
  "session_new fs = \<lparr>ses_fs = fs, readdir_cache = Map.empty\<rparr>"

definition errno_reply :: "errno_table \<Rightarrow> u64 \<Rightarrow> fs_error \<Rightarrow> reply" where
  "errno_reply tbl unique e = ReplyBytes (out_header_error_for tbl unique (fs_error_errno tbl e))"

definition ok_reply :: "u64 \<Rightarrow> bytes \<Rightarrow> reply" where
  "ok_reply unique body = ReplyBytes (out_header_reply unique 0 body)"

fun dt_type :: "file_kind \<Rightarrow> u32" where
  "dt_type Dir = DT_DIR"
| "dt_type Regular = DT_REG"
| "dt_type Symlink = DT_LNK"
| "dt_type Other = DT_UNKNOWN"

definition done_reply :: "reply \<Rightarrow> 'w handler" where
  "done_reply r = (\<lambda>\<sigma>. (Some r, \<sigma>))"

definition try_fs ::
  "'w host \<Rightarrow> u64 \<Rightarrow> ('w, 'a) fs_op \<Rightarrow> ('a \<Rightarrow> 'w handler) \<Rightarrow> 'w handler" where
  "try_fs H unique m k = (\<lambda>(s, w). case m (ses_fs s, w) of
     (Ok v, fs', w') \<Rightarrow> k v (s\<lparr>ses_fs := fs'\<rparr>, w')
   | (Err e, fs', w') \<Rightarrow> (Some (errno_reply (errno_of H) unique e), s\<lparr>ses_fs := fs'\<rparr>, w')
   | (Panic, fs', w') \<Rightarrow> (None, s\<lparr>ses_fs := fs'\<rparr>, w'))"

definition try_parse ::
  "'w host \<Rightarrow> u64 \<Rightarrow> 'a proto_result \<Rightarrow> ('a \<Rightarrow> 'w handler) \<Rightarrow> 'w handler" where
  "try_parse H unique r k = (\<lambda>\<sigma>. case r of
     Ok v \<Rightarrow> k v \<sigma>
   | Err _ \<Rightarrow>
       (Some (ReplyBytes (out_header_error_for (errno_of H) unique (errno_of H EINVAL))), \<sigma>)
   | Panic \<Rightarrow> (None, \<sigma>))"

section \<open>Names in request bodies\<close>

definition trim_nul :: "bytes \<Rightarrow> bytes" where
  "trim_nul buf = (case position (\<lambda>b. b = 0) buf of Some i \<Rightarrow> take i buf | None \<Rightarrow> buf)"

text \<open>
  \<open>split_two_cstrs\<close>: the items of the iterator, at most two, each the bytes up to the next
  NUL; no more items after a string with no NUL.
\<close>

fun split_cstrs :: "nat \<Rightarrow> bytes \<Rightarrow> bytes list" where
  "split_cstrs 0 rest = []"
| "split_cstrs (Suc n) rest =
     (case position (\<lambda>b. b = 0) rest of
        None \<Rightarrow> []
      | Some e \<Rightarrow> take e rest # split_cstrs n (drop (e + 1) rest))"

definition split_two_cstrs :: "bytes \<Rightarrow> bytes list" where
  "split_two_cstrs buf = split_cstrs 2 buf"

section \<open>Handlers\<close>

text \<open>
  \<open>SystemTime::now().duration_since(UNIX_EPOCH).unwrap_or_default()\<close> is the host's
  \<open>sys_now\<close>: seconds and nanoseconds.
\<close>

definition ses_now :: "'w host \<Rightarrow> ((u64 \<times> u32) \<Rightarrow> 'w handler) \<Rightarrow> 'w handler" where
  "ses_now H k = (\<lambda>(s, w). case sys_now H w of (t, w') \<Rightarrow> k t (s, w'))"

definition bit_set :: "u32 \<Rightarrow> u32 \<Rightarrow> bool" where
  "bit_set v flag \<longleftrightarrow> v AND flag \<noteq> 0"

definition setattr_time ::
  "'w host \<Rightarrow> bool \<Rightarrow> bool \<Rightarrow> u64 \<Rightarrow> u32 \<Rightarrow> ((i64 \<times> u32) option \<Rightarrow> 'w handler) \<Rightarrow> 'w handler"
where
  "setattr_time H now given sec nsec k =
     (if now then ses_now H (\<lambda>(s, ns). k (Some (s, ns)))
      else if given then k (Some (sec, nsec))
      else k None)"

definition handle_setattr :: "'w host \<Rightarrow> u64 \<Rightarrow> u64 \<Rightarrow> bytes \<Rightarrow> 'w handler" where
  "handle_setattr H unique nodeid body =
     try_parse H unique (setattr_in_from_bytes body) (\<lambda>s.
     let v = sa_valid s;
         st = set_attr_default;
         st = (if bit_set v FATTR_SIZE then st\<lparr>set_size := Some (sa_size s)\<rparr> else st);
         st = (if bit_set v FATTR_MODE then st\<lparr>set_mode := Some (sa_mode s)\<rparr> else st);
         st = (if bit_set v FATTR_UID then st\<lparr>set_uid := Some (sa_uid s)\<rparr> else st);
         st = (if bit_set v FATTR_GID then st\<lparr>set_gid := Some (sa_gid s)\<rparr> else st)
     in setattr_time H (bit_set v FATTR_ATIME_NOW) (bit_set v FATTR_ATIME)
          (sa_atime s) (sa_atimensec s) (\<lambda>at.
        setattr_time H (bit_set v FATTR_MTIME_NOW) (bit_set v FATTR_MTIME)
          (sa_mtime s) (sa_mtimensec s) (\<lambda>mt.
        try_fs H unique (fs_setattr H nodeid (st\<lparr>set_atime := at, set_mtime := mt\<rparr>)) (\<lambda>a.
        done_reply (ok_reply unique (attr_out a))))))"

text \<open>
  The fill loop of \<open>READDIR\<close>: \<open>r.size as usize - out.len()\<close> is an unchecked subtraction on
  \<open>usize\<close>.
\<close>

fun readdir_fill :: "u32 \<Rightarrow> (nat \<times> dir_entry) list \<Rightarrow> bytes \<Rightarrow> bytes" where
  "readdir_fill sz [] out = out"
| "readdir_fill sz ((i, entry) # rest) out =
     (let off = of_nat (i + 1) :: u64;
          remaining = unat (of_nat (unat sz) - of_nat (length out) :: u64)
      in case push_dirent out remaining (dent_ino entry) off (dt_type (dent_kind entry))
                (dent_name entry) of
           (fit, out') \<Rightarrow> if fit then readdir_fill sz rest out' else out')"

definition readdir_page :: "u32 \<Rightarrow> u64 \<Rightarrow> dir_entry list \<Rightarrow> bytes" where
  "readdir_page sz offset entries =
     readdir_fill sz (drop (unat offset) (enumerate 0 entries)) []"

definition handle_readdir :: "'w host \<Rightarrow> u64 \<Rightarrow> bytes \<Rightarrow> 'w handler" where
  "handle_readdir H unique body =
     try_parse H unique (read_in_from_bytes body) (\<lambda>r (s, w).
     let page = (\<lambda>(s, w).
           done_reply (ok_reply unique (readdir_page (read_size r) (read_offset r)
             (case readdir_cache s (read_fh r) of Some es \<Rightarrow> es | None \<Rightarrow> []))) (s, w))
     in if read_offset r = 0 \<or> readdir_cache s (read_fh r) = None
        then try_fs H unique (fs_readdir H (read_fh r)) (\<lambda>listing (s, w).
             page (s\<lparr>readdir_cache := (readdir_cache s)(read_fh r \<mapsto> listing)\<rparr>, w)) (s, w)
        else page (s, w))"

definition handle_releasedir :: "'w host \<Rightarrow> u64 \<Rightarrow> bytes \<Rightarrow> 'w handler" where
  "handle_releasedir H unique body =
     try_parse H unique (release_in_from_bytes body) (\<lambda>rel (s, w).
     try_fs H unique (fs_releasedir H (release_fh rel)) (\<lambda>_.
       done_reply (ok_reply unique []))
       (s\<lparr>readdir_cache := (readdir_cache s)(release_fh rel := None)\<rparr>, w))"

definition handle_batch_forget :: "'w host \<Rightarrow> u64 \<Rightarrow> bytes \<Rightarrow> 'w handler" where
  "handle_batch_forget H unique body =
     try_parse H unique (parse_batch_forget body) (\<lambda>entries.
     foldr (\<lambda>e k. try_fs H unique (fs_forget H (forget_nodeid e) (forget_one_nlookup e)) (\<lambda>_. k))
       entries (done_reply ReplyNone))"

text \<open>Replies that carry an entry: nodeid and attributes.\<close>

definition reply_entry :: "'w host \<Rightarrow> u64 \<Rightarrow> ('w, u64 \<times> attr) fs_op \<Rightarrow> 'w handler" where
  "reply_entry H unique m =
     try_fs H unique m (\<lambda>(i, a). done_reply (ok_reply unique (entry_out i a)))"

definition reply_empty :: "'w host \<Rightarrow> u64 \<Rightarrow> ('w, unit) fs_op \<Rightarrow> 'w handler" where
  "reply_empty H unique m = try_fs H unique m (\<lambda>_. done_reply (ok_reply unique []))"

definition reply_handle :: "'w host \<Rightarrow> u64 \<Rightarrow> ('w, u64) fs_op \<Rightarrow> 'w handler" where
  "reply_handle H unique m = try_fs H unique m (\<lambda>h. done_reply (ok_reply unique (open_out h)))"

section \<open>The dispatcher\<close>

text \<open>The longer arms of the match on the opcode, one definition each.\<close>

definition handle_symlink :: "'w host \<Rightarrow> u64 \<Rightarrow> u64 \<Rightarrow> bytes \<Rightarrow> 'w handler" where
  "handle_symlink H unique nodeid body =
     (case split_two_cstrs body of
        name # target_path # _ \<Rightarrow> reply_entry H unique (fs_symlink H nodeid name target_path)
      | _ \<Rightarrow> done_reply (ReplyBytes
          (out_header_error_for (errno_of H) unique (errno_of H EINVAL))))"

definition handle_link :: "'w host \<Rightarrow> u64 \<Rightarrow> u64 \<Rightarrow> bytes \<Rightarrow> 'w handler" where
  "handle_link H unique nodeid body =
     try_parse H unique (link_in_from_bytes body) (\<lambda>(l, name).
     try_fs H unique (fs_link H (link_oldnodeid l) nodeid name) (\<lambda>a.
     done_reply (ok_reply unique (entry_out (link_oldnodeid l) a))))"

definition handle_create :: "'w host \<Rightarrow> u64 \<Rightarrow> u64 \<Rightarrow> bytes \<Rightarrow> 'w handler" where
  "handle_create H unique nodeid body =
     try_parse H unique (create_in_from_bytes body) (\<lambda>(c, name).
     try_fs H unique (fs_create H nodeid name (create_flags c) (create_mode c))
       (\<lambda>(i, h, a). done_reply (ok_reply unique (entry_out i a @ open_out h))))"

definition handle_read :: "'w host \<Rightarrow> u64 \<Rightarrow> bytes \<Rightarrow> 'w handler" where
  "handle_read H unique body =
     try_parse H unique (read_in_from_bytes body) (\<lambda>r.
     try_fs H unique (fs_read H (read_fh r) (read_offset r) (unat (read_size r))) (\<lambda>data.
     done_reply (ok_reply unique data)))"

definition handle_write :: "'w host \<Rightarrow> u64 \<Rightarrow> bytes \<Rightarrow> 'w handler" where
  "handle_write H unique body =
     try_parse H unique (write_in_from_bytes body) (\<lambda>(wr, data).
     let n = min (unat (write_size wr)) (length data) in
     try_fs H unique (fs_write H (write_fh wr) (write_offset wr) (take n data)) (\<lambda>written.
     done_reply (ok_reply unique (write_out (of_nat written)))))"

definition handle_flush :: "'w host \<Rightarrow> u64 \<Rightarrow> bytes \<Rightarrow> 'w handler" where
  "handle_flush H unique body =
     try_parse H unique (flush_in_from_bytes body) (\<lambda>_. done_reply (ok_reply unique []))"

definition handle_fsync :: "'w host \<Rightarrow> u64 \<Rightarrow> bytes \<Rightarrow> 'w handler" where
  "handle_fsync H unique body =
     try_parse H unique (reader_u64 (reader_new body)) (\<lambda>(fh, _).
     reply_empty H unique (fs_fsync H fh))"

definition handle_release :: "'w host \<Rightarrow> u64 \<Rightarrow> bytes \<Rightarrow> 'w handler" where
  "handle_release H unique body =
     try_parse H unique (release_in_from_bytes body) (\<lambda>rel.
     reply_empty H unique (fs_release H (release_fh rel)))"

definition handle_opendir :: "'w host \<Rightarrow> u64 \<Rightarrow> u64 \<Rightarrow> bytes \<Rightarrow> 'w handler" where
  "handle_opendir H unique nodeid body =
     try_parse H unique (open_in_from_bytes body) (\<lambda>_.
     reply_handle H unique (fs_opendir H nodeid))"

definition handle_statfs :: "'w host \<Rightarrow> u64 \<Rightarrow> u64 \<Rightarrow> 'w handler" where
  "handle_statfs H unique nodeid =
     try_fs H unique (fs_statfs H nodeid) (\<lambda>st.
     done_reply (ok_reply unique (statfs_out st)))"

definition handle_access :: "'w host \<Rightarrow> u64 \<Rightarrow> bytes \<Rightarrow> 'w handler" where
  "handle_access H unique body =
     try_parse H unique (access_in_from_bytes body) (\<lambda>_. done_reply (ok_reply unique []))"

definition handle_op ::
  "'w host \<Rightarrow> opcode \<Rightarrow> u64 \<Rightarrow> u64 \<Rightarrow> bytes \<Rightarrow> 'w handler" where
  "handle_op H opc unique nodeid body =
     (case opc of
        OpInit \<Rightarrow>
          try_parse H unique (init_in_from_bytes body) (\<lambda>init.
          done_reply (ok_reply unique (init_out (init_max_readahead init))))
      | OpDestroy \<Rightarrow> done_reply (ok_reply unique [])
      | OpForget \<Rightarrow>
          try_parse H unique (forget_in_from_bytes body) (\<lambda>f.
          try_fs H unique (fs_forget H nodeid (forget_nlookup f)) (\<lambda>_. done_reply ReplyNone))
      | OpBatchForget \<Rightarrow> handle_batch_forget H unique body
      | OpLookup \<Rightarrow> reply_entry H unique (fs_lookup H nodeid (trim_nul body))
      | OpGetattr \<Rightarrow>
          try_parse H unique (getattr_in_from_bytes body) (\<lambda>_.
          try_fs H unique (fs_getattr H nodeid) (\<lambda>a. done_reply (ok_reply unique (attr_out a))))
      | OpSetattr \<Rightarrow> handle_setattr H unique nodeid body
      | OpReadlink \<Rightarrow>
          try_fs H unique (fs_readlink H nodeid) (\<lambda>t. done_reply (ok_reply unique t))
      | OpSymlink \<Rightarrow> handle_symlink H unique nodeid body
      | OpMkdir \<Rightarrow>
          try_parse H unique (mkdir_in_from_bytes body) (\<lambda>(m, name).
          reply_entry H unique (fs_mkdir H nodeid name (mkdir_mode m)))
      | OpUnlink \<Rightarrow> reply_empty H unique (fs_unlink H nodeid (trim_nul body))
      | OpRmdir \<Rightarrow> reply_empty H unique (fs_rmdir H nodeid (trim_nul body))
      | OpRename \<Rightarrow>
          try_parse H unique (rename_in_from_bytes body) (\<lambda>(r, old, new).
          reply_empty H unique (fs_rename H nodeid old (rename_newdir r) new))
      | OpRename2 \<Rightarrow>
          try_parse H unique (rename_in_from_bytes_v2 body) (\<lambda>(r, old, new).
          reply_empty H unique (fs_rename H nodeid old (rename_newdir r) new))
      | OpLink \<Rightarrow> handle_link H unique nodeid body
      | OpOpen \<Rightarrow>
          try_parse H unique (open_in_from_bytes body) (\<lambda>o'.
          reply_handle H unique (fs_open H nodeid (open_flags o')))
      | OpCreate \<Rightarrow> handle_create H unique nodeid body
      | OpRead \<Rightarrow> handle_read H unique body
      | OpWrite \<Rightarrow> handle_write H unique body
      | OpFlush \<Rightarrow> handle_flush H unique body
      | OpFsync \<Rightarrow> handle_fsync H unique body
      | OpRelease \<Rightarrow> handle_release H unique body
      | OpOpendir \<Rightarrow> handle_opendir H unique nodeid body
      | OpReaddir \<Rightarrow> handle_readdir H unique body
      | OpReleasedir \<Rightarrow> handle_releasedir H unique body
      | OpFsyncdir \<Rightarrow> done_reply (ok_reply unique [])
      | OpStatfs \<Rightarrow> handle_statfs H unique nodeid
      | OpAccess \<Rightarrow> handle_access H unique body
      | _ \<Rightarrow> done_reply (ReplyBytes
               (out_header_error_for (errno_of H) unique (errno_of H ENOSYS))))"

definition session_handle :: "'w host \<Rightarrow> bytes \<Rightarrow> 'w handler" where
  "session_handle H request =
     (case in_header_from_bytes request of
        Ok header \<Rightarrow>
          handle_op H (opcode_from (ih_opcode header)) (ih_unique header) (ih_nodeid header)
            (in_header_body request)
      | Err _ \<Rightarrow> done_reply ReplyNone
      | Panic \<Rightarrow> (\<lambda>\<sigma>. (None, \<sigma>)))"

lemmas handle_op_defs = handle_op_def
  handle_symlink_def handle_link_def handle_create_def handle_read_def handle_write_def handle_flush_def
  handle_fsync_def handle_release_def handle_opendir_def handle_statfs_def handle_access_def

section \<open>Every request is answered\<close>

text \<open>
  A well-formed reply to the request \<open>unique\<close>: it starts with a \<open>fuse_out_header\<close> whose
  length field is the length of the reply, whose \<open>unique\<close> is the request's, and whose error
  field is 0 or the negative of a Linux errno in the range the kernel accepts; an error reply is
  the header alone. The flag \<open>q\<close> says that the request may have no reply at all, as
  \<open>FORGET\<close> does.
\<close>

fun reply_ok :: "bool \<Rightarrow> u64 \<Rightarrow> reply \<Rightarrow> bool" where
  "reply_ok q unique ReplyNone \<longleftrightarrow> q"
| "reply_ok q unique (ReplyBytes b) \<longleftrightarrow>
     OUT_HEADER_LEN \<le> length b \<and> u32_at 0 b = of_nat (length b) \<and> u64_at 8 b = unique \<and>
     (u32_at 4 b = 0 \<or>
      length b = OUT_HEADER_LEN \<and> 1 \<le> - u32_at 4 b \<and> - u32_at 4 b \<le> (125 :: i32))"

lemma out_header_reply_fields:
  "u32_at 0 (out_header_reply unique error body) = of_nat (length (out_header_reply unique error body))"
  "u32_at 4 (out_header_reply unique error body) = error"
  "u64_at 8 (out_header_reply unique error body) = unique"
  unfolding length_out_header_reply out_header_reply_eq Let_def
  by (simp_all add: word_at_append_right)

lemma reply_ok_ok_reply [simp]: "reply_ok q unique (ok_reply unique body)"
  by (simp add: ok_reply_def out_header_reply_fields length_out_header_reply OUT_HEADER_LEN_def)

lemma reply_ok_error_for [simp]: "reply_ok q unique (ReplyBytes (out_header_error_for tbl unique e))"
proof -
  have "to_linux_errno tbl e \<noteq> 0"
    using to_linux_errno_range [of tbl e] by auto
  then show ?thesis
    using to_linux_errno_range [of tbl e]
    by (simp add: out_header_error_for_def out_header_reply_fields length_out_header_reply
        OUT_HEADER_LEN_def)
qed

declare reply_ok.simps(2) [simp del]

lemma reply_ok_errno_reply [simp]: "reply_ok q unique (errno_reply tbl unique e)"
  by (simp add: errno_reply_def)

text \<open>
  A handler is safe with a budget of \<open>k\<close> ids when, as long as ids last, it replies, its reply
  is well formed, and the engine keeps its invariant.
\<close>

definition handler_safe :: "bool \<Rightarrow> nat \<Rightarrow> u64 \<Rightarrow> 'w handler \<Rightarrow> bool" where
  "handler_safe q k unique h \<longleftrightarrow>
     (\<forall>n s w. passthrough_ok n (ses_fs s) \<longrightarrow> n + k < 2 ^ 64 - 1 \<longrightarrow>
        (\<exists>r s' w'. h (s, w) = (Some r, s', w') \<and> reply_ok q unique r \<and>
           passthrough_ok (n + k) (ses_fs s')))"

named_theorems handler \<open>safe handlers\<close>

lemma handler_safeI:
  assumes "\<And>n s w. passthrough_ok n (ses_fs s) \<Longrightarrow> n + k < 2 ^ 64 - 1 \<Longrightarrow>
      \<exists>r s' w'. h (s, w) = (Some r, s', w') \<and> reply_ok q unique r \<and> passthrough_ok (n + k) (ses_fs s')"
  shows "handler_safe q k unique h"
  using assms unfolding handler_safe_def by blast

lemma handler_safeE:
  assumes "handler_safe q k unique h" "passthrough_ok n (ses_fs s)" "n + k < 2 ^ 64 - 1"
  obtains r s' w' where "h (s, w) = (Some r, s', w')" "reply_ok q unique r"
    "passthrough_ok (n + k) (ses_fs s')"
  using assms unfolding handler_safe_def by blast

lemma handler_safe_done [handler]: "reply_ok q unique r \<Longrightarrow> handler_safe q k unique (done_reply r)"
  by (rule handler_safeI) (auto simp: done_reply_def intro: passthrough_ok_mono)

lemma handler_safe_try_fs:
  assumes m: "fs_keeps j m" and f: "\<And>v. handler_safe q k unique (f v)"
  shows "handler_safe q (j + k) unique (try_fs H unique m f)"
proof (rule handler_safeI)
  fix n and s :: session and w :: 'a
  assume ok: "passthrough_ok n (ses_fs s)" and n: "n + (j + k) < 2 ^ 64 - 1"
  obtain r fs' w' where m': "m (ses_fs s, w) = (r, fs', w')" by (metis surj_pair)
  have fs': "passthrough_ok (n + j) fs'" "r \<noteq> Panic"
    using fs_keepsD [OF m ok _ m'] n by auto
  show "\<exists>r s' w'. try_fs H unique m f (s, w) = (Some r, s', w') \<and> reply_ok q unique r \<and>
      passthrough_ok (n + (j + k)) (ses_fs s')"
  proof (cases r)
    case (Ok v)
    have "passthrough_ok (n + j) (ses_fs (s\<lparr>ses_fs := fs'\<rparr>))" "n + j + k < 2 ^ 64 - 1"
      using fs'(1) n by auto
    then obtain r1 s1 w1 where "f v (s\<lparr>ses_fs := fs'\<rparr>, w') = (Some r1, s1, w1)"
      "reply_ok q unique r1" "passthrough_ok (n + j + k) (ses_fs s1)"
      by (rule handler_safeE [OF f])
    with Ok m' show ?thesis
      by (simp add: try_fs_def add.assoc)
  next
    case (Err e)
    with m' fs'(1) show ?thesis
      by (auto simp: try_fs_def intro: passthrough_ok_mono)
  qed (use fs' in simp)
qed

lemma handler_safe_try_fs0:
  "fs_keeps 0 m \<Longrightarrow> (\<And>v. handler_safe q k unique (f v)) \<Longrightarrow> handler_safe q k unique (try_fs H unique m f)"
  using handler_safe_try_fs [of 0 m q k unique f H] by simp

text \<open>The budget of one request: no operation takes more than two ids.\<close>

lemma handler_safe_try_fs2 [handler]:
  "fs_keeps 2 m \<Longrightarrow> (\<And>v. handler_safe q 0 unique (f v)) \<Longrightarrow> handler_safe q 2 unique (try_fs H unique m f)"
  using handler_safe_try_fs [of 2 m q 0 unique f H] by simp

lemma handler_safe_try_parse [handler]:
  assumes "r \<noteq> Panic" and "\<And>v. handler_safe q k unique (f v)"
  shows "handler_safe q k unique (try_parse H unique r f)"
proof (cases r)
  case (Ok v)
  then have "try_parse H unique r f = f v" by (simp add: try_parse_def fun_eq_iff)
  with assms(2) show ?thesis by simp
next
  case (Err e)
  then have "try_parse H unique r f = done_reply (ReplyBytes
      (out_header_error_for (errno_of H) unique (errno_of H EINVAL)))"
    by (simp add: try_parse_def done_reply_def)
  then show ?thesis by (simp add: handler_safe_done)
qed (use assms in simp)

lemma handler_safe_prod [handler]:
  "(\<And>a b. handler_safe q k unique (f a b)) \<Longrightarrow> handler_safe q k unique (case v of (a, b) \<Rightarrow> f a b)"
  by (cases v) simp

lemma handler_safe_if [handler]:
  "handler_safe q k unique f \<Longrightarrow> handler_safe q k unique g \<Longrightarrow> handler_safe q k unique (if b then f else g)"
  by simp

lemma handler_safe_now [handler]:
  "(\<And>t. handler_safe q k unique (f t)) \<Longrightarrow> handler_safe q k unique (ses_now H f)"
  unfolding handler_safe_def by (simp add: ses_now_def split: prod.splits)

lemma handler_safe_setattr_time [handler]:
  "(\<And>t. handler_safe q k unique (f t)) \<Longrightarrow> handler_safe q k unique (setattr_time H now given sec ns f)"
  by (auto simp: setattr_time_def intro: handler)

lemma fs_keeps_two:
  "fs_keeps (Suc 0) m \<Longrightarrow> fs_keeps 2 m"
  by (erule fs_keeps_mono) simp

lemma handler_safe_replies [handler]:
  "fs_keeps 2 m \<Longrightarrow> handler_safe q 2 unique (reply_entry H unique m)"
  "fs_keeps 2 m' \<Longrightarrow> handler_safe q 2 unique (reply_empty H unique m')"
  "fs_keeps 2 m'' \<Longrightarrow> handler_safe q 2 unique (reply_handle H unique m'')"
  unfolding reply_entry_def reply_empty_def reply_handle_def
  by (intro handler; simp)+

lemma handler_safe_setattr [handler]:
  assumes "rust_slice body"
  shows "handler_safe q 2 unique (handle_setattr H unique nodeid body)"
  unfolding handle_setattr_def Let_def
  by (intro handler keeps parsers_no_panic assms; simp)

lemma handler_safe_batch_forget [handler]:
  assumes "rust_slice body"
  shows "handler_safe True k unique (handle_batch_forget H unique body)"
proof -
  have "handler_safe True k unique
      (foldr (\<lambda>e f. try_fs H unique (fs_forget H (forget_nodeid e) (forget_one_nlookup e)) (\<lambda>_. f))
        entries (done_reply ReplyNone))" for entries
    by (induction entries) (auto intro: handler handler_safe_try_fs0 keeps)
  then show ?thesis
    unfolding handle_batch_forget_def
    by (intro handler_safe_try_parse parsers_no_panic assms)
qed

text \<open>The cache is not part of the invariant.\<close>

lemma handler_safe_cache:
  assumes "handler_safe q k unique h"
  shows "handler_safe q k unique (\<lambda>(s, w). h (s\<lparr>readdir_cache := f s\<rparr>, w))"
proof (rule handler_safeI)
  fix n and s :: session and w :: 'a
  assume "passthrough_ok n (ses_fs s)" and n: "n + k < 2 ^ 64 - 1"
  then have "passthrough_ok n (ses_fs (s\<lparr>readdir_cache := f s\<rparr>))" by simp
  from handler_safeE [OF assms this n]
  show "\<exists>r s' w'. (\<lambda>(s, w). h (s\<lparr>readdir_cache := f s\<rparr>, w)) (s, w) = (Some r, s', w') \<and>
      reply_ok q unique r \<and> passthrough_ok (n + k) (ses_fs s')"
    by (metis (no_types, lifting) case_prod_conv)
qed

text \<open>A handler may look at the session before it chooses how to go on.\<close>

lemma handler_safe_look:
  assumes "\<And>s w. handler_safe q k unique (g s w)"
  shows "handler_safe q k unique (\<lambda>(s, w). g s w (s, w))"
  using assms unfolding handler_safe_def by simp

lemma handler_safe_readdir [handler]:
  assumes "rust_slice body"
  shows "handler_safe q k unique (handle_readdir H unique body)"
proof -
  let ?page = "\<lambda>r (s, w). done_reply (ok_reply unique (readdir_page (read_size r) (read_offset r)
      (case readdir_cache s (read_fh r) of Some es \<Rightarrow> es | None \<Rightarrow> []))) (s, w)"
  have page: "handler_safe q k unique (?page r)" for r
    by (rule handler_safe_look) (simp add: handler_safe_done)
  have cached: "handler_safe q k unique (\<lambda>(s, w).
      ?page r (s\<lparr>readdir_cache := (readdir_cache s)(read_fh r \<mapsto> listing)\<rparr>, w))" for r listing
    using handler_safe_cache [OF page] .
  have "handler_safe q k unique (\<lambda>(s, w).
      (if read_offset r = 0 \<or> readdir_cache s (read_fh r) = None
       then try_fs H unique (fs_readdir H (read_fh r)) (\<lambda>listing (s, w).
            ?page r (s\<lparr>readdir_cache := (readdir_cache s)(read_fh r \<mapsto> listing)\<rparr>, w))
       else ?page r) (s, w))" for r
    by (rule handler_safe_look)
      (intro handler_safe_if handler_safe_try_fs0 fs_keeps_readdir cached page)
  then show ?thesis
    unfolding handle_readdir_def Let_def if_distribR
    by (intro handler_safe_try_parse parsers_no_panic assms)
qed

lemma handler_safe_releasedir [handler]:
  assumes "rust_slice body"
  shows "handler_safe q k unique (handle_releasedir H unique body)"
proof -
  have "handler_safe q k unique (try_fs H unique (fs_releasedir H h) (\<lambda>_.
      done_reply (ok_reply unique [])))" for h
    by (intro handler_safe_try_fs0 keeps handler) simp
  from handler_safe_cache [OF this] show ?thesis
    unfolding handle_releasedir_def
    by (intro handler_safe_try_parse parsers_no_panic assms)
qed

lemma rust_slice_body: "rust_slice b \<Longrightarrow> rust_slice (in_header_body b)"
  by (simp add: rust_slice_def in_header_body_def)

definition may_be_silent :: "opcode \<Rightarrow> bool" where
  "may_be_silent opc \<longleftrightarrow> opc = OpForget \<or> opc = OpBatchForget"

lemma handler_safe_op:
  assumes "rust_slice body"
  shows "handler_safe (may_be_silent opc) 2 unique (handle_op H opc unique nodeid body)"
proof -
  note rules = handler keeps fs_keeps_two parsers_no_panic assms
  have u64: "reader_u64 (reader_new body) \<noteq> Panic"
    using assms by (simp add: reader_defs cursor)
  have err: "handler_safe q 2 unique (done_reply (ReplyBytes
      (out_header_error_for (errno_of H) unique e)))" for q e
    by (intro handler) simp
  show ?thesis
  proof (cases opc)
    case OpSymlink
    then show ?thesis
      using err by (auto simp: handle_op_defs intro: rules split: list.splits)
  next
    case OpBatchForget
    then show ?thesis
      using handler_safe_batch_forget [OF assms] by (simp add: handle_op_defs may_be_silent_def)
  qed (simp only: handle_op_defs opcode.case Let_def;
      (intro rules u64 err; simp add: may_be_silent_def)?; fail)+
qed

lemma handler_safe_session_handle:
  assumes "rust_slice b"
  shows "handler_safe (length b < IN_HEADER_LEN \<or> may_be_silent (opcode_from (u32_at 4 b))) 2
     (u64_at 8 b) (session_handle H b)"
proof (cases "IN_HEADER_LEN \<le> length b")
  case True
  then show ?thesis
    using handler_safe_op [OF rust_slice_body [OF assms], of "opcode_from (u32_at 4 b)" "u64_at 8 b"]
    by (simp add: session_handle_def in_header_from_bytes_eq [OF assms])
next
  case False
  then show ?thesis
    by (simp add: session_handle_def in_header_from_bytes_eq [OF assms] handler_safe_done)
qed

text \<open>A session serves requests one after the other.\<close>

fun session_run :: "'w host \<Rightarrow> bytes list \<Rightarrow> session \<times> 'w \<Rightarrow> reply list option \<times> session \<times> 'w" where
  "session_run H [] \<sigma> = (Some [], \<sigma>)"
| "session_run H (b # bs) \<sigma> =
     (case session_handle H b \<sigma> of
        (None, \<sigma>') \<Rightarrow> (None, \<sigma>')
      | (Some r, \<sigma>') \<Rightarrow>
          (case session_run H bs \<sigma>' of (rs, \<sigma>'') \<Rightarrow> (map_option (Cons r) rs, \<sigma>'')))"

definition answers :: "bytes \<Rightarrow> reply \<Rightarrow> bool" where
  "answers b r \<longleftrightarrow>
     reply_ok (length b < IN_HEADER_LEN \<or> may_be_silent (opcode_from (u32_at 4 b))) (u64_at 8 b) r"

lemma session_run_safe:
  assumes "passthrough_ok n (ses_fs s)" and "\<forall>b \<in> set bs. rust_slice b"
    and "n + 2 * length bs < 2 ^ 64 - 1"
  shows "\<exists>rs s' w'. session_run H bs (s, w) = (Some rs, s', w') \<and> list_all2 answers bs rs \<and>
     passthrough_ok (n + 2 * length bs) (ses_fs s')"
  using assms
proof (induction bs arbitrary: n s w)
  case Nil
  then show ?case by simp
next
  case (Cons b bs)
  have b: "rust_slice b" "n + 2 < 2 ^ 64 - 1"
    using Cons.prems by auto
  obtain r s1 w1 where r: "session_handle H b (s, w) = (Some r, s1, w1)" "answers b r"
      and s1: "passthrough_ok (n + 2) (ses_fs s1)"
    using handler_safeE [OF handler_safe_session_handle [OF b(1)] Cons.prems(1) b(2)]
    unfolding answers_def by metis
  obtain rs s2 w2 where "session_run H bs (s1, w1) = (Some rs, s2, w2)"
      "list_all2 answers bs rs" "passthrough_ok (n + 2 + 2 * length bs) (ses_fs s2)"
    using Cons.IH [OF s1] Cons.prems by fastforce
  with r show ?case by (auto simp: ac_simps)
qed

section \<open>Requests as a client writes them\<close>

text \<open>
  A request from its header fields and body; \<open>fuse_request\<close> is \<open>request\<close> of the source's tests,
  with the length field filled in.
\<close>

definition raw_request :: "u32 \<Rightarrow> u32 \<Rightarrow> u64 \<Rightarrow> u64 \<Rightarrow> bytes \<Rightarrow> bytes" where
  "raw_request len op unique nodeid body =
     le32 len @ le32 op @ le64 unique @ le64 nodeid @ le32 0 @ le32 0 @ le32 0 @ le32 0 @ body"

lemma length_raw_request [simp]: "length (raw_request len op u i body) = 40 + length body"
  by (simp add: raw_request_def)

lemma session_handle_raw:
  assumes "length body < 2 ^ 62"
  shows "session_handle H (raw_request len op u i body) = handle_op H (opcode_from op) u i body"
proof -
  let ?b = "raw_request len op u i body"
  have "rust_slice ?b" using assms by (simp add: rust_slice_def)
  moreover have "u32_at 4 ?b = op" "u64_at 8 ?b = u" "u64_at 16 ?b = i" "drop 40 ?b = body"
    by (simp_all add: raw_request_def word_at_append_right)
  ultimately show ?thesis
    by (simp add: session_handle_def in_header_from_bytes_eq in_header_body_def IN_HEADER_LEN_def)
qed

definition fuse_request :: "u32 \<Rightarrow> u64 \<Rightarrow> u64 \<Rightarrow> bytes \<Rightarrow> bytes" where
  "fuse_request opc unique nodeid body =
     (let w = writer_u32 (of_nat (IN_HEADER_LEN + length body)) writer_new;
          w = writer_u32 opc w;
          w = writer_u64 unique w;
          w = writer_u64 nodeid w;
          w = writer_u32 0 w;
          w = writer_u32 0 w;
          w = writer_u32 0 w;
          w = writer_u32 0 w
      in writer_bytes body w)"

lemma fuse_request_raw:
  "fuse_request opc u i body = raw_request (of_nat (40 + length body)) opc u i body"
  by (simp add: fuse_request_def raw_request_def writer_defs IN_HEADER_LEN_def Let_def)

lemma length_fuse_request [simp]: "length (fuse_request opc u i body) = 40 + length body"
  by (simp add: fuse_request_raw)

lemma session_handle_request:
  "length body < 2 ^ 62 \<Longrightarrow>
     session_handle H (fuse_request opc u i body) = handle_op H (opcode_from opc) u i body"
  by (simp add: fuse_request_raw session_handle_raw)

end
