(* ===== verification/Server.thy ===== *)
theory Server
  imports Connection Virtqueue Dispatch
begin

text \<open>
  The server (\<open>vhost_user/server.rs\<close>): control messages that build up the guest memory and
  the vrings, the processing of a vring, with its two zero-copy paths, and the event loop.

  The state is the server itself, the bytes of mapped memory and the outside world. The guest
  shares the mapped memory; between two operations of the daemon it may change it at will, which
  the event loop's step relation allows. A vring is processed in a loop that runs as long as the
  guest has published something, so it is given fuel, and running out is a separate outcome.
\<close>

section \<open>State\<close>

definition REQUEST_HEADER_LEN :: nat where "REQUEST_HEADER_LEN = IN_HEADER_LEN + 40"
definition PROTOCOL_FEATURES :: u64 where "PROTOCOL_FEATURES = 0"
definition VIRTIO_F_VERSION_1 :: u64 where "VIRTIO_F_VERSION_1 = push_bit 32 1"
definition VIRTIO_FEATURES :: u64 where "VIRTIO_FEATURES = push_bit 30 1 OR VIRTIO_F_VERSION_1"
definition NUM_QUEUES :: nat where "NUM_QUEUES = 2"

record vring_slot =
  slot_queue_size :: "u16 option"
  slot_pending_avail_base :: u16
  slot_vq :: "virtqueue option"
  slot_kick_fd :: "fd option"
  slot_call_fd :: "fd option"
  slot_enabled :: bool

definition vring_slot_default :: vring_slot where
  "vring_slot_default =
     \<lparr>slot_queue_size = None, slot_pending_avail_base = 0, slot_vq = None,
      slot_kick_fd = None, slot_call_fd = None, slot_enabled = False\<rparr>"

definition maybe_build :: "vring_addr \<Rightarrow> vring_slot \<Rightarrow> vring_slot" where
  "maybe_build a slot =
     (case slot_queue_size slot of
        Some qs \<Rightarrow>
          slot\<lparr>slot_vq := Some (set_avail_base (slot_pending_avail_base slot)
                 (virtqueue_new qs (va_descriptor a) (va_avail a) (va_used a)))\<rparr>
      | None \<Rightarrow> slot)"

record server =
  srv_conn :: fd
  srv_mem :: "guest_memory option"
  srv_vrings :: "vring_slot list"
  srv_session :: session

definition server_new :: "fd \<Rightarrow> session \<Rightarrow> server" where
  "server_new conn session =
     \<lparr>srv_conn = conn, srv_mem = None, srv_vrings = replicate NUM_QUEUES vring_slot_default,
      srv_session = session\<rparr>"

section \<open>One request\<close>

text \<open>\<open>From<VirtqueueError>\<close>: a virtqueue error as a protocol error.\<close>

definition vq_lift :: "'a vq_result \<Rightarrow> 'a proto_result" where
  "vq_lift r = map_err Virtqueue r"

text \<open>The session, the mapped memory and the world, which a request may all change.\<close>

type_synonym 'w req_state = "session \<times> heap \<times> 'w"

definition scatter_reply ::
  "guest_memory \<Rightarrow> desc_chain \<Rightarrow> bytes \<Rightarrow> 'w req_state \<Rightarrow> u32 proto_result \<times> 'w req_state" where
  "scatter_reply mem chain b = (\<lambda>(s, h, w).
     case scatter_writable mem chain b h of (r, h') \<Rightarrow> (vq_lift r, s, h', w))"

definition dispatch_generic ::
  "'w host \<Rightarrow> guest_memory \<Rightarrow> desc_chain \<Rightarrow> 'w req_state \<Rightarrow> u32 proto_result \<times> 'w req_state" where
  "dispatch_generic H mem chain = (\<lambda>(s, h, w).
     case gather_readable mem h chain of
       Err e \<Rightarrow> (Err (Virtqueue e), s, h, w)
     | Panic \<Rightarrow> (Panic, s, h, w)
     | Ok req \<Rightarrow>
         (case session_handle H req (s, w) of
            (None, s', w') \<Rightarrow> (Panic, s', h, w')
          | (Some (ReplyBytes b), s', w') \<Rightarrow> scatter_reply mem chain b (s', h, w')
          | (Some ReplyNone, s', w') \<Rightarrow> (Ok 0, s', h, w')))"

text \<open>
  The zero-copy paths return \<open>None\<close> when the header does not parse, and otherwise the outcome
  with the new state.
\<close>

definition try_write_zero_copy ::
  "'w host \<Rightarrow> guest_memory \<Rightarrow> desc_chain \<Rightarrow> bytes \<Rightarrow> 'w req_state
   \<Rightarrow> (u32 proto_result \<times> 'w req_state) option" where
  "try_write_zero_copy H mem chain header_prefix = (\<lambda>(s, h, w).
     case in_header_from_bytes header_prefix of
       Err _ \<Rightarrow> None
     | Panic \<Rightarrow> Some (Panic, s, h, w)
     | Ok hdr \<Rightarrow>
         (case write_in_from_bytes (in_header_body header_prefix) of
            Err _ \<Rightarrow> None
          | Panic \<Rightarrow> Some (Panic, s, h, w)
          | Ok (wr, _) \<Rightarrow>
              Some (case iovecs_from mem (dc_readable chain) (of_nat REQUEST_HEADER_LEN)
                           (ucast (write_size wr)) False of
                Err e \<Rightarrow> (Err (Virtqueue e), s, h, w)
              | Panic \<Rightarrow> (Panic, s, h, w)
              | Ok iov \<Rightarrow>
                  (case fs_write_vectored H (write_fh wr) (write_offset wr) iov h (ses_fs s, w) of
                     (Panic, fs', w') \<Rightarrow> (Panic, s\<lparr>ses_fs := fs'\<rparr>, h, w')
                   | (Ok written, fs', w') \<Rightarrow>
                       scatter_reply mem chain
                         (out_header_reply (ih_unique hdr) 0 (write_out (of_nat written)))
                         (s\<lparr>ses_fs := fs'\<rparr>, h, w')
                   | (Err e, fs', w') \<Rightarrow>
                       scatter_reply mem chain
                         (out_header_error_for (errno_of H) (ih_unique hdr)
                            (fs_error_errno (errno_of H) e))
                         (s\<lparr>ses_fs := fs'\<rparr>, h, w')))))"

text \<open>The sum of the segment lengths is a wrapping \<open>u64\<close> sum, as \<open>Iterator::sum\<close> is.\<close>

definition try_read_zero_copy ::
  "'w host \<Rightarrow> guest_memory \<Rightarrow> desc_chain \<Rightarrow> bytes \<Rightarrow> 'w req_state
   \<Rightarrow> (u32 proto_result \<times> 'w req_state) option" where
  "try_read_zero_copy H mem chain header_prefix = (\<lambda>(s, h, w).
     case in_header_from_bytes header_prefix of
       Err _ \<Rightarrow> None
     | Panic \<Rightarrow> Some (Panic, s, h, w)
     | Ok hdr \<Rightarrow>
         (case read_in_from_bytes (in_header_body header_prefix) of
            Err _ \<Rightarrow> None
          | Panic \<Rightarrow> Some (Panic, s, h, w)
          | Ok r \<Rightarrow>
              let writable_capacity = sum_list (map snd (dc_writable chain)) :: u64;
                  payload_capacity = writable_capacity - min writable_capacity (of_nat OUT_HEADER_LEN);
                  want = min (ucast (read_size r)) payload_capacity
              in Some (case iovecs_from mem (dc_writable chain) (of_nat OUT_HEADER_LEN) want True of
                Err e \<Rightarrow> (Err (Virtqueue e), s, h, w)
              | Panic \<Rightarrow> (Panic, s, h, w)
              | Ok iov \<Rightarrow>
                  (case fs_read_vectored H (read_fh r) (read_offset r) iov (ses_fs s) (h, w) of
                     (Panic, h', w') \<Rightarrow> (Panic, s, h', w')
                   | (Ok n, h', w') \<Rightarrow>
                       (case scatter_reply mem chain
                               (out_header_success_header_only (ih_unique hdr)
                                  (of_nat (OUT_HEADER_LEN + n))) (s, h', w') of
                          (Ok header_written, \<sigma>) \<Rightarrow> (Ok (header_written + of_nat n), \<sigma>)
                        | (Err e, \<sigma>) \<Rightarrow> (Err e, \<sigma>)
                        | (Panic, \<sigma>) \<Rightarrow> (Panic, \<sigma>))
                   | (Err e, h', w') \<Rightarrow>
                       scatter_reply mem chain
                         (out_header_error_for (errno_of H) (ih_unique hdr)
                            (fs_error_errno (errno_of H) e))
                         (s, h', w')))))"

definition peek_opcode :: "bytes \<Rightarrow> opcode" where
  "peek_opcode b = (if 8 \<le> length b then opcode_from (u32_at 4 b) else OpUnknown 0)"

definition dispatch_request ::
  "'w host \<Rightarrow> guest_memory \<Rightarrow> desc_chain \<Rightarrow> bytes \<Rightarrow> 'w req_state
   \<Rightarrow> u32 proto_result \<times> 'w req_state" where
  "dispatch_request H mem chain header_prefix \<sigma> =
     (case peek_opcode header_prefix of
        OpWrite \<Rightarrow>
          (case try_write_zero_copy H mem chain header_prefix \<sigma> of
             Some res \<Rightarrow> res
           | None \<Rightarrow> dispatch_generic H mem chain \<sigma>)
      | OpRead \<Rightarrow>
          (case try_read_zero_copy H mem chain header_prefix \<sigma> of
             Some res \<Rightarrow> res
           | None \<Rightarrow> dispatch_generic H mem chain \<sigma>)
      | _ \<Rightarrow> dispatch_generic H mem chain \<sigma>)"

text \<open>The body of the loop of \<open>process_vring\<close>, for one head taken off the ring.\<close>

definition process_chain ::
  "'w host \<Rightarrow> guest_memory \<Rightarrow> virtqueue \<Rightarrow> u16 \<Rightarrow> 'w req_state \<Rightarrow> unit proto_result \<times> 'w req_state"
where
  "process_chain H mem vq head = (\<lambda>(s, h, w).
     case read_chain mem h vq head of
       Err e \<Rightarrow> (Err (Virtqueue e), s, h, w)
     | Panic \<Rightarrow> (Panic, s, h, w)
     | Ok chain \<Rightarrow>
         (case gather_readable_prefix mem h chain REQUEST_HEADER_LEN of
            Err e \<Rightarrow> (Err (Virtqueue e), s, h, w)
          | Panic \<Rightarrow> (Panic, s, h, w)
          | Ok header_prefix \<Rightarrow>
              (case dispatch_request H mem chain header_prefix (s, h, w) of
                 (Err e, \<sigma>) \<Rightarrow> (Err e, \<sigma>)
               | (Panic, \<sigma>) \<Rightarrow> (Panic, \<sigma>)
               | (Ok written, s', h', w') \<Rightarrow>
                   (case push_used mem vq head written h' of
                      (r, h'') \<Rightarrow> (vq_lift r, s', h'', w')))))"

section \<open>A vring\<close>

text \<open>\<open>None\<close> is running out of fuel; otherwise the number of requests processed, or an error.\<close>

fun process_loop ::
  "nat \<Rightarrow> 'w host \<Rightarrow> guest_memory \<Rightarrow> virtqueue \<Rightarrow> nat \<Rightarrow> 'w req_state
   \<Rightarrow> (nat proto_result \<times> virtqueue \<times> 'w req_state) option" where
  "process_loop 0 H mem vq processed \<sigma> = None"
| "process_loop (Suc fuel) H mem vq processed (s, h, w) =
     (case pop_avail mem h vq of
        (Err e, vq') \<Rightarrow> Some (Err (Virtqueue e), vq', s, h, w)
      | (Panic, vq') \<Rightarrow> Some (Panic, vq', s, h, w)
      | (Ok None, vq') \<Rightarrow> Some (Ok processed, vq', s, h, w)
      | (Ok (Some head), vq') \<Rightarrow>
          (case process_chain H mem vq' head (s, h, w) of
             (Err e, \<sigma>') \<Rightarrow> Some (Err e, vq', \<sigma>')
           | (Panic, \<sigma>') \<Rightarrow> Some (Panic, vq', \<sigma>')
           | (Ok _, \<sigma>') \<Rightarrow> process_loop fuel H mem vq' (Suc processed) \<sigma>'))"

definition notify :: "'w vmm \<Rightarrow> fd \<Rightarrow> 'w \<Rightarrow> 'w" where
  "notify V d w = snd (sys_write V d (le64 1) w)"

type_synonym 'w srv_state = "server \<times> heap \<times> 'w"

definition process_vring ::
  "nat \<Rightarrow> 'w host \<Rightarrow> 'w vmm \<Rightarrow> nat \<Rightarrow> 'w srv_state \<Rightarrow> (unit proto_result \<times> 'w srv_state) option"
where
  "process_vring fuel H V idx = (\<lambda>(srv, h, w).
     case srv_mem srv of
       None \<Rightarrow> Some (Ok (), srv, h, w)
     | Some mem \<Rightarrow>
         if length (srv_vrings srv) \<le> idx then Some (Panic, srv, h, w)
         else let slot = srv_vrings srv ! idx in
              case slot_vq slot of
                None \<Rightarrow> Some (Ok (), srv, h, w)
              | Some vq \<Rightarrow>
                  (case process_loop fuel H mem vq 0 (srv_session srv, h, w) of
                     None \<Rightarrow> None
                   | Some (r, vq', s', h', w') \<Rightarrow>
                       let srv' = srv\<lparr>srv_session := s',
                                      srv_vrings := (srv_vrings srv)[idx := slot\<lparr>slot_vq := Some vq'\<rparr>]\<rparr>
                       in Some (case r of
                            Err e \<Rightarrow> (Err e, srv', h', w')
                          | Panic \<Rightarrow> (Panic, srv', h', w')
                          | Ok processed \<Rightarrow>
                              (Ok (), srv', h',
                               case slot_call_fd slot of
                                 Some d \<Rightarrow> if 0 < processed then notify V d w' else w'
                               | None \<Rightarrow> w'))))"

section \<open>Control messages\<close>

definition take_fd :: "fd list \<Rightarrow> bool \<Rightarrow> fd option \<times> fd list" where
  "take_fd fds no_fd =
     (if no_fd \<or> fds = [] then (None, fds) else (Some (hd fds), tl fds))"

definition close_opt :: "'w host \<Rightarrow> fd option \<Rightarrow> 'w \<Rightarrow> 'w" where
  "close_opt H d w = (case d of None \<Rightarrow> w | Some fd \<Rightarrow> sys_close H fd w)"

definition server_reply :: "'w vmm \<Rightarrow> request \<Rightarrow> bytes \<Rightarrow> 'w \<Rightarrow> unit proto_result \<times> 'w" where
  "server_reply V r body w =
     connection_send V (msg_header_reply r (of_nat (length body))) body [] w"

text \<open>\<open>self.vrings.get_mut(i)\<close> with an update; an index out of range changes nothing.\<close>

definition update_slot :: "nat \<Rightarrow> (vring_slot \<Rightarrow> vring_slot) \<Rightarrow> server \<Rightarrow> server" where
  "update_slot i f srv =
     (if i < length (srv_vrings srv)
      then srv\<lparr>srv_vrings := (srv_vrings srv)[i := f (srv_vrings srv ! i)]\<rparr> else srv)"

definition slot_at :: "server \<Rightarrow> nat \<Rightarrow> vring_slot option" where
  "slot_at srv i = (if i < length (srv_vrings srv) then Some (srv_vrings srv ! i) else None)"

definition set_vring_base :: "u16 \<Rightarrow> vring_slot \<Rightarrow> vring_slot" where
  "set_vring_base base slot =
     slot\<lparr>slot_pending_avail_base := base, slot_vq := map_option (set_avail_base base) (slot_vq slot)\<rparr>"

type_synonym 'w control = "server \<times> 'w \<Rightarrow> unit proto_result \<times> server \<times> 'w"

definition ctl_done :: "'w control" where
  "ctl_done = (\<lambda>\<sigma>. (Ok (), \<sigma>))"

definition ctl_try :: "'a proto_result \<Rightarrow> ('a \<Rightarrow> 'w control) \<Rightarrow> 'w control" where
  "ctl_try r k = (\<lambda>\<sigma>. case r of Ok v \<Rightarrow> k v \<sigma> | Err e \<Rightarrow> (Err e, \<sigma>) | Panic \<Rightarrow> (Panic, \<sigma>))"

definition ctl_reply :: "'w vmm \<Rightarrow> request \<Rightarrow> bytes \<Rightarrow> 'w control" where
  "ctl_reply V r body = (\<lambda>(srv, w). case server_reply V r body w of (res, w') \<Rightarrow> (res, srv, w'))"

definition ctl_slot :: "nat \<Rightarrow> (vring_slot \<Rightarrow> vring_slot) \<Rightarrow> 'w control" where
  "ctl_slot i f = (\<lambda>(srv, w). (Ok (), update_slot i f srv, w))"

text \<open>
  \<open>SET_MEM_TABLE\<close>: the new table replaces the old one, whose mappings are undone; the received
  descriptors are not closed.
\<close>

definition ctl_set_mem_table :: "'w vmm \<Rightarrow> bytes \<Rightarrow> fd list \<Rightarrow> 'w control" where
  "ctl_set_mem_table V payload fds =
     ctl_try (memory_regions_from_bytes payload) (\<lambda>regions (srv, w).
     if length regions \<noteq> length fds then (Err Truncated, srv, w)
     else case map_regions V regions fds w of
            (Err e, w') \<Rightarrow> (Err e, srv, w')
          | (Panic, w') \<Rightarrow> (Panic, srv, w')
          | (Ok mem, w') \<Rightarrow>
              (Ok (), srv\<lparr>srv_mem := Some mem\<rparr>,
               case srv_mem srv of None \<Rightarrow> w' | Some old \<Rightarrow> fold (drop_region V) old w'))"

text \<open>A kick or call descriptor: the one it replaces is dropped, so closed.\<close>

definition ctl_set_kick :: "'w host \<Rightarrow> bytes \<Rightarrow> fd list \<Rightarrow> 'w control" where
  "ctl_set_kick H payload fds =
     ctl_try (vring_fd_payload_from_bytes payload) (\<lambda>p (srv, w).
     case slot_at srv (unat (vf_index p)) of
       None \<Rightarrow> (Ok (), srv, w)
     | Some slot \<Rightarrow>
         (Ok (),
          update_slot (unat (vf_index p))
            (\<lambda>s. s\<lparr>slot_kick_fd := fst (take_fd fds (vf_no_fd p))\<rparr>) srv,
          close_opt H (slot_kick_fd slot) w))"

definition ctl_set_call :: "'w host \<Rightarrow> bytes \<Rightarrow> fd list \<Rightarrow> 'w control" where
  "ctl_set_call H payload fds =
     ctl_try (vring_fd_payload_from_bytes payload) (\<lambda>p (srv, w).
     case slot_at srv (unat (vf_index p)) of
       None \<Rightarrow> (Ok (), srv, w)
     | Some slot \<Rightarrow>
         (Ok (),
          update_slot (unat (vf_index p))
            (\<lambda>s. s\<lparr>slot_call_fd := fst (take_fd fds (vf_no_fd p))\<rparr>) srv,
          close_opt H (slot_call_fd slot) w))"

definition ctl_get_vring_base :: "'w vmm \<Rightarrow> bytes \<Rightarrow> 'w control" where
  "ctl_get_vring_base V payload =
     ctl_try (vring_state_from_bytes payload) (\<lambda>st (srv, w).
     let base = (case slot_at srv (unat (vs_index st)) of
                   None \<Rightarrow> 0
                 | Some slot \<Rightarrow> (case slot_vq slot of None \<Rightarrow> 0 | Some vq \<Rightarrow> avail_base vq))
     in ctl_reply V GetVringBase
          (vring_state_to_bytes \<lparr>vs_index = vs_index st, vs_num = ucast base\<rparr>) (srv, w))"

definition handle_request ::
  "'w host \<Rightarrow> 'w vmm \<Rightarrow> request \<Rightarrow> bytes \<Rightarrow> fd list \<Rightarrow> 'w control" where
  "handle_request H V r payload fds =
     (case r of
        GetFeatures \<Rightarrow> ctl_reply V r (u64_payload_to_bytes VIRTIO_FEATURES)
      | SetFeatures \<Rightarrow> ctl_try (u64_payload_from_bytes payload) (\<lambda>_. ctl_done)
      | SetOwner \<Rightarrow> ctl_done
      | ResetOwner \<Rightarrow> ctl_done
      | GetProtocolFeatures \<Rightarrow> ctl_reply V r (u64_payload_to_bytes PROTOCOL_FEATURES)
      | SetProtocolFeatures \<Rightarrow> ctl_done
      | GetQueueNum \<Rightarrow> ctl_reply V r (u64_payload_to_bytes (of_nat NUM_QUEUES))
      | SetMemTable \<Rightarrow> ctl_set_mem_table V payload fds
      | SetVringNum \<Rightarrow> ctl_try (vring_state_from_bytes payload) (\<lambda>st.
          ctl_slot (unat (vs_index st)) (\<lambda>s. s\<lparr>slot_queue_size := Some (ucast (vs_num st))\<rparr>))
      | SetVringAddr \<Rightarrow> ctl_try (vring_addr_from_bytes payload) (\<lambda>a.
          ctl_slot (unat (va_index a)) (maybe_build a))
      | SetVringBase \<Rightarrow> ctl_try (vring_state_from_bytes payload) (\<lambda>st.
          ctl_slot (unat (vs_index st)) (set_vring_base (ucast (vs_num st))))
      | GetVringBase \<Rightarrow> ctl_get_vring_base V payload
      | SetVringKick \<Rightarrow> ctl_set_kick H payload fds
      | SetVringCall \<Rightarrow> ctl_set_call H payload fds
      | SetVringErr \<Rightarrow> ctl_try (vring_fd_payload_from_bytes payload) (\<lambda>p (srv, w).
          (Ok (), srv, close_opt H (fst (take_fd fds (vf_no_fd p))) w))
      | SetVringEnable \<Rightarrow> ctl_try (vring_state_from_bytes payload) (\<lambda>st.
          ctl_slot (unat (vs_index st)) (\<lambda>s. s\<lparr>slot_enabled := (vs_num st \<noteq> 0)\<rparr>))
      | SetLogBase \<Rightarrow> ctl_done
      | SetLogFd \<Rightarrow> ctl_done)"

text \<open>An unknown request code is skipped, not an error.\<close>

definition handle_one_message :: "'w host \<Rightarrow> 'w vmm \<Rightarrow> 'w control" where
  "handle_one_message H V = (\<lambda>(srv, w).
     case connection_recv V w of
       (Err e, w') \<Rightarrow> (Err e, srv, w')
     | (Panic, w') \<Rightarrow> (Panic, srv, w')
     | (Ok (header, payload, fds), w') \<Rightarrow>
         (case msg_header_request header of
            Ok r \<Rightarrow> handle_request H V r payload fds (srv, w')
          | Err _ \<Rightarrow> (Ok (), srv, w')
          | Panic \<Rightarrow> (Panic, srv, w')))"

section \<open>The event loop\<close>

definition POLLIN :: u16 where "POLLIN = 1"
definition POLLERR :: u16 where "POLLERR = 8"
definition POLLHUP :: u16 where "POLLHUP = 16"

text \<open>
  \<open>drain_fd\<close> reads until a read fails or returns less than the buffer. It is given fuel, as a
  descriptor that always has 256 more bytes keeps it busy for ever.
\<close>

fun drain_fd :: "nat \<Rightarrow> 'w vmm \<Rightarrow> fd \<Rightarrow> 'w \<Rightarrow> 'w option" where
  "drain_fd 0 V d w = None"
| "drain_fd (Suc fuel) V d w =
     (case sys_read V d 256 w of
        (Inl _, w') \<Rightarrow> Some w'
      | (Inr b, w') \<Rightarrow> if length b < 256 then Some w' else drain_fd fuel V d w')"

text \<open>The vrings that are polled: the index and kick descriptor of each enabled slot with one.\<close>

definition kick_slots :: "vring_slot list \<Rightarrow> (nat \<times> fd) list" where
  "kick_slots slots =
     concat (map (\<lambda>(i, s). case slot_kick_fd s of
                    Some d \<Rightarrow> if slot_enabled s then [(i, d)] else []
                  | None \<Rightarrow> []) (enumerate 0 slots))"

fun process_kicks ::
  "nat \<Rightarrow> 'w host \<Rightarrow> 'w vmm \<Rightarrow> ((nat \<times> fd) \<times> u16) list \<Rightarrow> 'w srv_state
   \<Rightarrow> (unit proto_result \<times> 'w srv_state) option" where
  "process_kicks fuel H V [] \<sigma> = Some (Ok (), \<sigma>)"
| "process_kicks fuel H V (((i, d), revents) # rest) (srv, h, w) =
     (if revents AND POLLIN \<noteq> 0
      then case drain_fd fuel V d w of
             None \<Rightarrow> None
           | Some w' \<Rightarrow>
               (case process_vring fuel H V i (srv, h, w') of
                  None \<Rightarrow> None
                | Some (Ok _, \<sigma>') \<Rightarrow> process_kicks fuel H V rest \<sigma>'
                | Some (Err e, \<sigma>') \<Rightarrow> Some (Err e, \<sigma>')
                | Some (Panic, \<sigma>') \<Rightarrow> Some (Panic, \<sigma>'))
      else process_kicks fuel H V rest (srv, h, w))"

text \<open>
  One turn of the loop of \<open>run\<close>. \<open>Continue\<close> goes round again; \<open>Stop r\<close> returns
  \<open>r\<close> from \<open>run\<close>. The outer \<open>None\<close> is running out of fuel.
\<close>

datatype turn = Continue | Stop "unit proto_result"

definition turn_kicks ::
  "nat \<Rightarrow> 'w host \<Rightarrow> 'w vmm \<Rightarrow> ((nat \<times> fd) \<times> u16) list \<Rightarrow> 'w srv_state
   \<Rightarrow> (turn \<times> 'w srv_state) option" where
  "turn_kicks fuel H V ks \<sigma> =
     (case process_kicks fuel H V ks \<sigma> of
        None \<Rightarrow> None
      | Some (r, \<sigma>') \<Rightarrow> Some (if r = Ok () then Continue else Stop r, \<sigma>'))"

definition turn_polled ::
  "nat \<Rightarrow> 'w host \<Rightarrow> 'w vmm \<Rightarrow> u16 \<Rightarrow> ((nat \<times> fd) \<times> u16) list \<Rightarrow> 'w srv_state
   \<Rightarrow> (turn \<times> 'w srv_state) option" where
  "turn_polled fuel H V conn_revents ks \<sigma> =
     (if conn_revents AND (POLLHUP OR POLLERR) \<noteq> 0 then Some (Stop (Ok ()), \<sigma>)
      else turn_kicks fuel H V ks \<sigma>)"

definition server_turn ::
  "nat \<Rightarrow> 'w host \<Rightarrow> 'w vmm \<Rightarrow> 'w srv_state \<Rightarrow> (turn \<times> 'w srv_state) option" where
  "server_turn fuel H V = (\<lambda>(srv, h, w).
     let kicks = kick_slots (srv_vrings srv) in
     case sys_poll V (srv_conn srv # map snd kicks) w of
       (Inl e, w1) \<Rightarrow>
         Some (if e = errno_of H EINTR then Continue else Stop (Err (Io (OsError e))), srv, h, w1)
     | (Inr revents, w1) \<Rightarrow>
         let conn_revents = hd revents;
             ks = zip kicks (tl revents)
         in if conn_revents AND POLLIN \<noteq> 0
            then case handle_one_message H V (srv, w1) of
                   (Ok _, srv', w2) \<Rightarrow> turn_polled fuel H V conn_revents ks (srv', h, w2)
                 | (Err e, srv', w2) \<Rightarrow>
                     Some (Stop (if e = Disconnected then Ok () else Err e), srv', h, w2)
                 | (Panic, srv', w2) \<Rightarrow> Some (Stop Panic, srv', h, w2)
            else turn_polled fuel H V conn_revents ks (srv, h, w1))"

lemma server_new_sel [simp]:
  "srv_conn (server_new c s) = c" "srv_mem (server_new c s) = None"
  "kick_slots (srv_vrings (server_new c s)) = []"
  by (simp_all add: server_new_def kick_slots_def NUM_QUEUES_def numeral_2_eq_2 vring_slot_default_def)

section \<open>The zero-copy paths are the generic path\<close>

text \<open>
  The documented behaviour of the vectored calls: \<open>pwritev\<close> writes what the buffers hold, in
  order, as one \<open>pwrite\<close>; \<open>preadv\<close> reads as much as the buffers hold, as one
  \<open>pread\<close>, and fills them in order; \<open>pread\<close> returns no more than was asked for.
\<close>

definition vectored_io :: "'w host \<Rightarrow> bool" where
  "vectored_io H \<longleftrightarrow>
     (\<forall>d iov off m w. sys_pwritev H d iov off m w = sys_pwrite H d (load_all m iov) off w) \<and>
     (\<forall>d iov off m w. sys_preadv H d iov off m w =
        (case sys_pread H d (slices_len iov) off w of
           (Inl e, w') \<Rightarrow> ((Inl e, m), w')
         | (Inr b, w') \<Rightarrow> ((Inr (length b), scatter_store iov b m), w'))) \<and>
     (\<forall>d n off w b w'. sys_pread H d n off w = (Inr b, w') \<longrightarrow> length b \<le> n)"

lemma fs_write_vectored_eq:
  assumes "vectored_io H"
  shows "fs_write_vectored H fh off iov m = fs_write H fh off (load_all m iov)"
proof -
  have "(\<lambda>d. sys_pwritev H d iov off m) = (\<lambda>d. sys_pwrite H d (load_all m iov) off)"
    using assms by (simp add: vectored_io_def fun_eq_iff)
  then show ?thesis by (simp add: fs_write_vectored_def fs_write_def)
qed

text \<open>The header parses from the prefix as it does from the whole request.\<close>

lemma word_at_take: "i + n \<le> k \<Longrightarrow> word_at n i (take k b) = word_at n i b"
  by (simp add: word_at_def slice_of_def drop_take min_absorb1)

lemma word_at_drop: "word_at n i (drop k b) = word_at n (k + i) b"
  by (simp add: word_at_def slice_of_def add.commute add.left_commute)

lemma rust_slice_take: "rust_slice b \<Longrightarrow> rust_slice (take k b)"
  by (simp add: rust_slice_def)

lemma rust_slice_drop: "rust_slice b \<Longrightarrow> rust_slice (drop k b)"
  by (simp add: rust_slice_def)

lemma in_header_prefix:
  assumes "rust_slice b" and "IN_HEADER_LEN \<le> k"
  shows "in_header_from_bytes (take k b) = in_header_from_bytes b"
  using assms by (simp add: in_header_from_bytes_eq rust_slice_take IN_HEADER_LEN_def word_at_take)

lemma write_in_prefix:
  assumes "rust_slice b" and "IN_HEADER_LEN \<le> length b"
  shows "write_in_from_bytes (in_header_body (take REQUEST_HEADER_LEN b)) =
     bind (write_in_from_bytes (in_header_body b)) (\<lambda>(wr, _). Ok (wr, []))"
  using assms
  by (simp add: write_in_from_bytes_eq rust_slice_take rust_slice_drop in_header_body_def
      REQUEST_HEADER_LEN_def IN_HEADER_LEN_def drop_take word_at_take min_def)

lemma peek_opcode_eq:
  assumes "IN_HEADER_LEN \<le> length b"
  shows "peek_opcode (take REQUEST_HEADER_LEN b) = opcode_from (u32_at 4 b)"
  using assms by (simp add: peek_opcode_def REQUEST_HEADER_LEN_def IN_HEADER_LEN_def word_at_take)

lemma ucast_u32_u64: "unat (ucast (x :: u32) :: u64) = unat x"
proof -
  have "unat x < 2 ^ LENGTH(32)" by (rule unsigned_less)
  then show ?thesis by (simp add: unsigned_ucast_eq take_bit_nat_eq_self)
qed

text \<open>What the generic path does with a \<open>WRITE\<close> request that parses.\<close>

lemma session_handle_write:
  assumes "rust_slice b" and "REQUEST_HEADER_LEN \<le> length b" and "opcode_from (u32_at 4 b) = OpWrite"
  shows "session_handle H b (s, w) =
     (case fs_write H (u64_at 40 b) (u64_at 48 b) (take (unat (u32_at 56 b)) (drop 80 b)) (ses_fs s, w) of
        (Ok n, fs', w') \<Rightarrow>
          (Some (ReplyBytes (out_header_reply (u64_at 8 b) 0 (write_out (of_nat n)))), s\<lparr>ses_fs := fs'\<rparr>, w')
      | (Err e, fs', w') \<Rightarrow>
          (Some (ReplyBytes (out_header_error_for (errno_of H) (u64_at 8 b)
             (fs_error_errno (errno_of H) e))), s\<lparr>ses_fs := fs'\<rparr>, w')
      | (Panic, fs', w') \<Rightarrow> (None, s\<lparr>ses_fs := fs'\<rparr>, w'))"
proof -
  have take_min: "take (min k (length xs)) xs = take k xs" for k and xs :: bytes
    by (simp add: min_def)
  have "40 \<le> length b - 40" "40 \<le> length b"
    using assms(2) by (simp_all add: REQUEST_HEADER_LEN_def IN_HEADER_LEN_def)
  then have "session_handle H b = try_fs H (u64_at 8 b)
      (fs_write H (u64_at 40 b) (u64_at 48 b) (take (unat (u32_at 56 b)) (drop 80 b)))
      (\<lambda>n. done_reply (ok_reply (u64_at 8 b) (write_out (of_nat n))))"
    using assms
    by (simp add: session_handle_def in_header_from_bytes_eq handle_op_defs try_parse_def
        write_in_from_bytes_eq rust_slice_drop in_header_body_def IN_HEADER_LEN_def word_at_drop
        take_min)
  then show ?thesis
    by (simp add: try_fs_def errno_reply_def ok_reply_def done_reply_def
        split: prod.splits result.splits)
qed

lemma write_zero_copy_eq:
  assumes dis: "regions_disjoint Gpa mem" and gather: "gather_readable mem h chain = Ok b"
    and rs: "rust_slice b" and io: "vectored_io H" and opc: "opcode_from (u32_at 4 b) = OpWrite"
    and len: "REQUEST_HEADER_LEN \<le> length b"
  shows "try_write_zero_copy H mem chain (take REQUEST_HEADER_LEN b) (s, h, w) =
     Some (dispatch_generic H mem chain (s, h, w))"
proof -
  obtain ss where ss: "slices_of mem (dc_readable chain) = Some ss" "b = load_all h ss"
    using gather by (auto simp: gather_readable_eq split: option.splits)
  have len': "IN_HEADER_LEN \<le> length b" "80 \<le> length b"
    using len by (simp_all add: REQUEST_HEADER_LEN_def IN_HEADER_LEN_def)
  have hdr: "in_header_from_bytes (take REQUEST_HEADER_LEN b) = Ok \<lparr>ih_len = u32_at 0 b,
      ih_opcode = u32_at 4 b, ih_unique = u64_at 8 b, ih_nodeid = u64_at 16 b, ih_uid = u32_at 24 b,
      ih_gid = u32_at 28 b, ih_pid = u32_at 32 b\<rparr>"
    using rs len' in_header_prefix [OF rs, of REQUEST_HEADER_LEN]
    by (simp add: in_header_from_bytes_eq REQUEST_HEADER_LEN_def)
  have wr: "write_in_from_bytes (in_header_body (take REQUEST_HEADER_LEN b)) =
      Ok (\<lparr>write_fh = u64_at 40 b, write_offset = u64_at 48 b, write_size = u32_at 56 b\<rparr>, [])"
    using rs len' write_in_prefix [OF rs]
    by (simp add: write_in_from_bytes_eq rust_slice_drop in_header_body_def IN_HEADER_LEN_def word_at_drop)
  have iov: "iovecs_from mem (dc_readable chain) (of_nat REQUEST_HEADER_LEN) (ucast (u32_at 56 b)) False =
      Ok (cut_slices 80 (unat (u32_at 56 b)) ss)"
    using iovecs_from_eq [OF dis ss(1)]
    by (simp add: ucast_u32_u64 REQUEST_HEADER_LEN_def IN_HEADER_LEN_def)
  have data: "fs_write_vectored H fh off (cut_slices 80 (unat (u32_at 56 b)) ss) h =
      fs_write H fh off (take (unat (u32_at 56 b)) (drop 80 b))" for fh off
    by (simp add: fs_write_vectored_eq [OF io] load_all_cut ss(2))
  show ?thesis
    by (simp add: try_write_zero_copy_def hdr wr iov data dispatch_generic_def gather
        session_handle_write [OF rs len opc] split: prod.splits result.splits)
qed

text \<open>The same for \<open>READ\<close>.\<close>

lemma fs_read_unchanged: "fs_read H fh off n (fs, w) = (r, fs', w') \<Longrightarrow> fs' = fs"
  by (auto simp: fs_read_def fs_with_file_def split: prod.splits)

lemma fs_read_vectored_eq:
  assumes "vectored_io H"
  shows "fs_read_vectored H fh off iov fs (h, w) =
     (case fs_read H fh off (slices_len iov) (fs, w) of
        (Ok b, _, w') \<Rightarrow> (Ok (length b), scatter_store iov b h, w')
      | (Err e, _, w') \<Rightarrow> (Err e, h, w')
      | (Panic, _, w') \<Rightarrow> (Panic, h, w'))"
  using assms
  by (simp add: vectored_io_def fs_read_vectored_def fs_read_def fs_with_file_def
      handle_store_with_file_def split: option.splits handle_data.splits prod.splits sum.splits)

lemma fs_read_length:
  assumes "vectored_io H" and "fs_read H fh off n (fs, w) = (Ok b, fs', w')"
  shows "length b \<le> n"
proof -
  obtain d where "sys_pread H d n off w = (Inr b, w')"
    using assms(2)
    by (auto simp: fs_read_def fs_with_file_def handle_store_with_file_def
        split: prod.splits option.splits handle_data.splits sum.splits)
  with assms(1) show ?thesis unfolding vectored_io_def by blast
qed

lemma session_handle_read:
  assumes "rust_slice b" and "60 \<le> length b" and "opcode_from (u32_at 4 b) = OpRead"
  shows "session_handle H b = try_fs H (u64_at 8 b)
      (fs_read H (u64_at 40 b) (u64_at 48 b) (unat (u32_at 56 b)))
      (\<lambda>data. done_reply (ok_reply (u64_at 8 b) data))"
proof -
  have "20 \<le> length b - 40" "40 \<le> length b"
    using assms(2) by simp_all
  then show ?thesis
    using assms
    by (simp add: session_handle_def in_header_from_bytes_eq handle_op_defs try_parse_def
        read_in_from_bytes_eq rust_slice_drop in_header_body_def IN_HEADER_LEN_def word_at_drop)
qed

lemma read_in_prefix:
  assumes "rust_slice b" and "IN_HEADER_LEN \<le> length b"
  shows "read_in_from_bytes (in_header_body (take REQUEST_HEADER_LEN b)) =
     read_in_from_bytes (in_header_body b)"
  using assms
  by (simp add: read_in_from_bytes_eq rust_slice_take rust_slice_drop in_header_body_def
      REQUEST_HEADER_LEN_def IN_HEADER_LEN_def drop_take word_at_take min_def)

lemma sum_segments:
  "slices_of mem segs = Some ss \<Longrightarrow> sum_list (map snd segs) = of_nat (slices_len ss)"
proof (induction segs arbitrary: ss)
  case (Cons seg segs)
  obtain addr len where seg: "seg = (addr, len)" by (cases seg)
  obtain p ss' where "slices_of mem segs = Some ss'" "ss = (p, unat len) # ss'"
    using Cons.prems unfolding seg by (rule slices_of_ConsE)
  with Cons.IH show ?case by (simp add: seg)
qed simp

lemma out_header_reply_split:
  "out_header_reply unique 0 body =
     out_header_success_header_only unique (of_nat (OUT_HEADER_LEN + length body)) @ body"
  by (simp add: out_header_reply_def out_header_success_header_only_def writer_defs)

lemma length_success_header: "length (out_header_success_header_only unique n) = OUT_HEADER_LEN"
  by (simp add: out_header_success_header_only_def writer_defs OUT_HEADER_LEN_def)

text \<open>The buffers of a zero-copy read that has room for its reply: what follows the header.\<close>

lemma read_iovecs:
  fixes sz :: u32
  assumes dis: "regions_disjoint Gpa mem" and ss: "slices_of mem (dc_writable chain) = Some ss"
    and room: "OUT_HEADER_LEN + unat sz \<le> slices_len ss" and cap: "slices_len ss < 2 ^ 64"
  shows "iovecs_from mem (dc_writable chain) (of_nat OUT_HEADER_LEN)
      (min (ucast sz) (sum_list (map snd (dc_writable chain)) -
         min (sum_list (map snd (dc_writable chain))) (of_nat OUT_HEADER_LEN))) True =
      Ok (cut_slices 16 (unat sz) ss)"
    and "slices_len (cut_slices 16 (unat sz) ss) = unat sz"
proof -
  let ?cap = "of_nat (slices_len ss) :: u64"
  have c: "unat ?cap = slices_len ss"
    using cap by (simp add: unat_of_nat)
  have "min ?cap (of_nat OUT_HEADER_LEN) = of_nat OUT_HEADER_LEN"
    using room by (intro min.absorb2) (simp add: word_le_nat_alt c OUT_HEADER_LEN_def)
  moreover have "unat (?cap - of_nat OUT_HEADER_LEN) = slices_len ss - OUT_HEADER_LEN"
    using room by (simp add: unat_sub word_le_nat_alt c OUT_HEADER_LEN_def)
  then have "unat (min (ucast sz) (?cap - of_nat OUT_HEADER_LEN)) = unat sz"
    using room by (simp add: min_def word_le_nat_alt ucast_u32_u64)
  ultimately show "iovecs_from mem (dc_writable chain) (of_nat OUT_HEADER_LEN)
      (min (ucast sz) (sum_list (map snd (dc_writable chain)) -
         min (sum_list (map snd (dc_writable chain))) (of_nat OUT_HEADER_LEN))) True =
      Ok (cut_slices 16 (unat sz) ss)"
    by (simp add: iovecs_from_eq [OF dis ss] sum_segments [OF ss]) (simp add: OUT_HEADER_LEN_def)
  show "slices_len (cut_slices 16 (unat sz) ss) = unat sz"
    using room by (simp add: slices_len_cut OUT_HEADER_LEN_def)
qed

lemma read_zero_copy_eq:
  assumes dis: "regions_disjoint Gpa mem" and gather: "gather_readable mem h chain = Ok b"
    and rs: "rust_slice b" and io: "vectored_io H" and opc: "opcode_from (u32_at 4 b) = OpRead"
    and len: "60 \<le> length b"
    and ss: "slices_of mem (dc_writable chain) = Some ss" and apart: "all_apart ss"
    and room: "OUT_HEADER_LEN + unat (u32_at 56 b) \<le> slices_len ss" and cap: "slices_len ss < 2 ^ 64"
  shows "try_read_zero_copy H mem chain (take REQUEST_HEADER_LEN b) (s, h, w) =
     Some (dispatch_generic H mem chain (s, h, w))"
proof -
  let ?size = "unat (u32_at 56 b)"
  have hdr: "in_header_from_bytes (take REQUEST_HEADER_LEN b) = Ok \<lparr>ih_len = u32_at 0 b,
      ih_opcode = u32_at 4 b, ih_unique = u64_at 8 b, ih_nodeid = u64_at 16 b, ih_uid = u32_at 24 b,
      ih_gid = u32_at 28 b, ih_pid = u32_at 32 b\<rparr>"
    using rs len in_header_prefix [OF rs, of REQUEST_HEADER_LEN]
    by (simp add: in_header_from_bytes_eq REQUEST_HEADER_LEN_def IN_HEADER_LEN_def)
  have rd: "read_in_from_bytes (in_header_body (take REQUEST_HEADER_LEN b)) =
      Ok \<lparr>read_fh = u64_at 40 b, read_offset = u64_at 48 b, read_size = u32_at 56 b\<rparr>"
    using rs len read_in_prefix [OF rs]
    by (simp add: read_in_from_bytes_eq rust_slice_drop in_header_body_def IN_HEADER_LEN_def word_at_drop)
  note iov = read_iovecs [OF dis ss room cap]
  obtain r fs' w' where run: "fs_read H (u64_at 40 b) (u64_at 48 b) ?size (ses_fs s, w) = (r, fs', w')"
    by (metis surj_pair)
  have fs': "fs' = ses_fs s" using run by (rule fs_read_unchanged)
  note generic = dispatch_generic_def gather session_handle_read [OF rs len opc] try_fs_def run fs'
    done_reply_def ok_reply_def errno_reply_def
  note zero = try_read_zero_copy_def hdr rd iov fs_read_vectored_eq [OF io] run
  show ?thesis
  proof (cases r)
    case (Ok d)
    let ?h = "out_header_success_header_only (u64_at 8 b) (of_nat (OUT_HEADER_LEN + length d))"
    have "length d \<le> ?size"
      using fs_read_length [OF io] run Ok by simp
    then have "scatter_store ss (?h @ d) h = scatter_store ss ?h (scatter_store (cut_slices 16 ?size ss) d h)"
      using scatter_split [OF apart, of d ?size ?h h] by (simp add: length_success_header OUT_HEADER_LEN_def)
    moreover have "of_nat (min (length (?h @ d)) (slices_len ss)) =
        of_nat (min (length ?h) (slices_len ss)) + (of_nat (length d) :: u32)"
      using room \<open>length d \<le> ?size\<close> by (simp add: length_success_header min_def)
    ultimately show ?thesis
      by (simp add: zero generic Ok scatter_reply_def scatter_writable_eq [OF dis ss] vq_lift_def
          out_header_reply_split Let_def)
  next
    case (Err e)
    then show ?thesis
      by (simp add: zero generic scatter_reply_def scatter_writable_eq [OF dis ss] vq_lift_def Let_def)
  next
    case Panic
    then show ?thesis by (simp add: zero generic Let_def)
  qed
qed

text \<open>A \<open>READ\<close> whose buffers are mapped, do not overlap, and have room for the reply.\<close>

definition read_has_room :: "guest_memory \<Rightarrow> desc_chain \<Rightarrow> bytes \<Rightarrow> bool" where
  "read_has_room mem chain b \<longleftrightarrow>
     (case slices_of mem (dc_writable chain) of
        None \<Rightarrow> False
      | Some ss \<Rightarrow> all_apart ss \<and> OUT_HEADER_LEN + unat (u32_at 56 b) \<le> slices_len ss \<and>
                   slices_len ss < 2 ^ 64)"

lemma try_write_short:
  assumes "rust_slice b" and "length b < REQUEST_HEADER_LEN"
  shows "try_write_zero_copy H mem chain (take REQUEST_HEADER_LEN b) \<sigma> = None"
  using assms
  by (cases \<sigma>) (auto simp: try_write_zero_copy_def in_header_from_bytes_eq write_in_from_bytes_eq
      rust_slice_drop in_header_body_def REQUEST_HEADER_LEN_def IN_HEADER_LEN_def)

lemma try_read_short:
  assumes "rust_slice b" and "length b < 60"
  shows "try_read_zero_copy H mem chain (take REQUEST_HEADER_LEN b) \<sigma> = None"
  using assms
  by (cases \<sigma>) (auto simp: try_read_zero_copy_def in_header_from_bytes_eq read_in_from_bytes_eq
      rust_slice_drop in_header_body_def REQUEST_HEADER_LEN_def IN_HEADER_LEN_def)

lemma dispatch_request_eq:
  assumes dis: "regions_disjoint Gpa mem" and gather: "gather_readable mem h chain = Ok b"
    and rs: "rust_slice b" and io: "vectored_io H"
    and room: "opcode_from (u32_at 4 b) = OpRead \<Longrightarrow> 60 \<le> length b \<Longrightarrow> read_has_room mem chain b"
  shows "dispatch_request H mem chain (take REQUEST_HEADER_LEN b) (s, h, w) =
     dispatch_generic H mem chain (s, h, w)"
proof -
  have w: "(case try_write_zero_copy H mem chain (take REQUEST_HEADER_LEN b) (s, h, w) of
      Some res \<Rightarrow> res | None \<Rightarrow> dispatch_generic H mem chain (s, h, w)) = dispatch_generic H mem chain (s, h, w)"
    if "opcode_from (u32_at 4 b) = OpWrite"
    using write_zero_copy_eq [OF dis gather rs io that] try_write_short [OF rs, of H mem chain "(s, h, w)"]
    by (cases "REQUEST_HEADER_LEN \<le> length b") simp_all
  have r: "(case try_read_zero_copy H mem chain (take REQUEST_HEADER_LEN b) (s, h, w) of
      Some res \<Rightarrow> res | None \<Rightarrow> dispatch_generic H mem chain (s, h, w)) = dispatch_generic H mem chain (s, h, w)"
    if "opcode_from (u32_at 4 b) = OpRead"
  proof (cases "60 \<le> length b")
    case True
    with room that obtain ss where "slices_of mem (dc_writable chain) = Some ss" "all_apart ss"
        "OUT_HEADER_LEN + unat (u32_at 56 b) \<le> slices_len ss" "slices_len ss < 2 ^ 64"
      by (auto simp: read_has_room_def split: option.splits)
    with read_zero_copy_eq [OF dis gather rs io that True] show ?thesis by simp
  qed (simp add: try_read_short [OF rs])
  have "8 \<le> length b \<Longrightarrow> u32_at 4 (take REQUEST_HEADER_LEN b) = u32_at 4 b"
    by (simp add: word_at_take REQUEST_HEADER_LEN_def IN_HEADER_LEN_def)
  then show ?thesis
    using w r
    by (auto simp: dispatch_request_def peek_opcode_def REQUEST_HEADER_LEN_def IN_HEADER_LEN_def
        split: opcode.split)
qed

end
