(* ===== verification/Server_Safety.thy ===== *)
theory Server_Safety
  imports Server
begin

text \<open>
  The server never panics. The invariant of the server is that of the engine, that there is a
  slot per queue, and that no queue has size 0; control messages and requests keep it, so every
  state the event loop reaches has it, whatever the guest does to the shared memory and whatever
  the host answers in between. The one message that can break it is a \<open>SET_VRING_NUM\<close> of a
  multiple of 65536.
\<close>

section \<open>The server invariant\<close>

text \<open>
  The engine is well formed, there are as many vrings as queues, and no queue has size 0.
\<close>

definition slot_ok :: "vring_slot \<Rightarrow> bool" where
  "slot_ok slot \<longleftrightarrow> slot_queue_size slot \<noteq> Some 0 \<and>
     (\<forall>vq. slot_vq slot = Some vq \<longrightarrow> vq_queue_size vq \<noteq> 0)"

definition server_ok :: "nat \<Rightarrow> server \<Rightarrow> bool" where
  "server_ok n srv \<longleftrightarrow>
     passthrough_ok n (ses_fs (srv_session srv)) \<and> length (srv_vrings srv) = NUM_QUEUES \<and>
     (\<forall>slot \<in> set (srv_vrings srv). slot_ok slot)"

lemma server_ok_mono: "server_ok n srv \<Longrightarrow> n \<le> m \<Longrightarrow> server_ok m srv"
  by (auto simp: server_ok_def intro: passthrough_ok_mono)

lemma server_ok_new: "passthrough_ok n fs \<Longrightarrow> server_ok n (server_new conn (session_new fs))"
  by (simp add: server_ok_def server_new_def session_new_def slot_ok_def vring_slot_default_def)

text \<open>A request is at most 512 segments of less than 4 GiB, so it fits a Rust slice.\<close>

lemma slices_len_bound:
  assumes "slices_of mem segs = Some ss" and "\<forall>(addr, len) \<in> set segs. unat len < 2 ^ 32"
  shows "slices_len ss \<le> length segs * 2 ^ 32"
  using assms
proof (induction segs arbitrary: ss)
  case (Cons seg segs)
  obtain addr len where seg: "seg = (addr, len)" by (cases seg)
  obtain p ss' where "slices_of mem segs = Some ss'" "ss = (p, unat len) # ss'"
    using Cons.prems(1) unfolding seg by (rule slices_of_ConsE)
  with Cons seg show ?case by fastforce
qed simp

lemma read_chain_bounds:
  assumes "read_chain mem h vq head = Ok chain"
  shows "length (dc_readable chain) + length (dc_writable chain) \<le> MAX_CHAIN_LEN"
    and "\<forall>(addr, len) \<in> set (dc_readable chain) \<union> set (dc_writable chain). unat len < 2 ^ 32"
proof -
  obtain ds where ds: "length ds \<le> MAX_CHAIN_LEN"
    "dc_readable chain = segments_of (\<lambda>d. \<not> flag_on VIRTQ_DESC_F_WRITE d) ds"
    "dc_writable chain = segments_of (flag_on VIRTQ_DESC_F_WRITE) ds"
    using assms by (auto simp: read_chain_def chain_loop_Ok fold_add_segment)
  have "unat (l :: u32) < 2 ^ 32" for l
    using unsigned_less [where 'a = nat and w = l] by simp
  then show "\<forall>(addr, len) \<in> set (dc_readable chain) \<union> set (dc_writable chain). unat len < 2 ^ 32"
    by (auto simp: ds(2,3) segments_of_def ucast_u32_u64)
  have "length (dc_readable chain) + length (dc_writable chain) = length ds"
    using sum_length_filter_compl [of "flag_on VIRTQ_DESC_F_WRITE" ds]
    by (simp add: ds(2,3) segments_of_def add.commute)
  with ds(1) show "length (dc_readable chain) + length (dc_writable chain) \<le> MAX_CHAIN_LEN" by simp
qed

lemma gathered_request_small:
  assumes "read_chain mem h vq head = Ok chain" and "gather_readable mem h' chain = Ok b"
  shows "rust_slice b"
proof -
  obtain ss where ss: "slices_of mem (dc_readable chain) = Some ss" "b = load_all h' ss"
    using assms(2) by (auto simp: gather_readable_eq split: option.splits)
  have "slices_len ss \<le> length (dc_readable chain) * 2 ^ 32"
    using read_chain_bounds(2) [OF assms(1)] by (intro slices_len_bound [OF ss(1)]) auto
  also have "\<dots> \<le> 512 * 2 ^ 32"
    using read_chain_bounds(1) [OF assms(1)] by (simp add: MAX_CHAIN_LEN_def)
  finally show ?thesis
    by (simp add: rust_slice_def ss(2))
qed

lemma prefix_loop_length:
  "prefix_loop mem h m segs buf = Ok b \<Longrightarrow> length buf \<le> m \<Longrightarrow> length b \<le> m"
proof (induction segs arbitrary: buf)
  case (Cons seg segs)
  obtain addr len where seg: "seg = (addr, len)" by (cases seg)
  show ?case
  proof (cases "m \<le> length buf")
    case True
    with Cons.prems show ?thesis by (simp add: seg)
  next
    case False
    let ?n = "min (m - length buf) (unat len)"
    obtain p n where s: "get_slice mem Gpa addr (of_nat ?n) = Some (p, n)"
      and rest: "prefix_loop mem h m segs (buf @ load h (p, n)) = Ok b"
      using Cons.prems(1) False by (auto simp: seg Let_def)
    have "unat len < 2 ^ LENGTH(64)" by (rule unsigned_less)
    then have "unat (of_nat ?n :: u64) = ?n"
      by (simp add: unat_of_nat)
    moreover have "n = unat (of_nat ?n :: u64)"
      using s by (rule get_slice_Some)
    ultimately have "n \<le> m - length buf" by simp
    with False show ?thesis
      by (intro Cons.IH [OF rest]) simp
  qed
qed simp

lemma copying_no_panic:
  "gather_readable mem h chain \<noteq> Panic"
  "gather_readable_prefix mem h chain n \<noteq> Panic"
  "fst (scatter_writable mem chain b h) \<noteq> Panic"
  "iovecs_from mem segs skip tot mutable \<noteq> Panic"
proof -
  show "gather_readable mem h chain \<noteq> Panic"
    by (simp add: gather_readable_eq split: option.splits)
  have "prefix_loop mem h n segs buf \<noteq> Panic" for segs buf
    by (induction mem h n segs buf rule: prefix_loop.induct) (auto simp: Let_def bind_eq_Panic)
  then show "gather_readable_prefix mem h chain n \<noteq> Panic"
    by (simp add: gather_readable_prefix_def)
  have "fst (scatter_loop mem segs d wr h) \<noteq> Panic" for segs d wr h
    by (induction mem segs d wr h rule: scatter_loop.induct) (auto simp: Let_def split: option.splits)
  then show "fst (scatter_writable mem chain b h) \<noteq> Panic"
    by (simp add: scatter_writable_def)
  have "iovecs_loop mem segs skip tot mutable acc \<noteq> Panic" for segs skip tot acc
    by (induction mem segs skip tot mutable acc rule: iovecs_loop.induct)
      (auto simp: Let_def bind_eq_Panic)
  then show "iovecs_from mem segs skip tot mutable \<noteq> Panic"
    by (simp add: iovecs_from_def)
qed

text \<open>A request handled, one way or the other: no panic, and at most two ids used.\<close>

definition req_safe :: "nat \<Rightarrow> 'a proto_result \<times> 'w req_state \<Rightarrow> bool" where
  "req_safe n res \<longleftrightarrow> (case res of (r, s, h, w) \<Rightarrow> r \<noteq> Panic \<and> passthrough_ok (n + 2) (ses_fs s))"

lemma req_safe_scatter_reply:
  "passthrough_ok (n + 2) (ses_fs s) \<Longrightarrow> req_safe n (scatter_reply mem chain b (s, h, w))"
  using copying_no_panic(3) [of mem chain b h]
  by (auto simp: req_safe_def scatter_reply_def vq_lift_def split: prod.splits)

lemma req_safe_keep: "passthrough_ok n (ses_fs s) \<Longrightarrow> r \<noteq> Panic \<Longrightarrow> req_safe n (r, s, h, w)"
  by (auto simp: req_safe_def intro: passthrough_ok_mono)

lemma dispatch_generic_safe:
  assumes ok: "passthrough_ok n (ses_fs s)" and n: "n + 2 < 2 ^ 64 - 1"
    and small: "\<And>b. gather_readable mem h chain = Ok b \<Longrightarrow> rust_slice b"
  shows "req_safe n (dispatch_generic H mem chain (s, h, w))"
proof (cases "gather_readable mem h chain")
  case (Ok b)
  obtain r s' w' where "session_handle H b (s, w) = (Some r, s', w')" "passthrough_ok (n + 2) (ses_fs s')"
    using handler_safeE [OF handler_safe_session_handle [OF small [OF Ok]] ok n] by metis
  with Ok show ?thesis
    by (cases r) (auto simp: dispatch_generic_def req_safe_scatter_reply, simp add: req_safe_def)
qed (use ok copying_no_panic in \<open>auto simp: dispatch_generic_def intro: req_safe_keep\<close>)

lemma try_write_safe:
  assumes ok: "passthrough_ok n (ses_fs s)" and n: "n + 2 < 2 ^ 64 - 1" and rs: "rust_slice b"
    and res: "try_write_zero_copy H mem chain b (s, h, w) = Some res"
  shows "req_safe n res"
proof -
  obtain hdr wr rest where "in_header_from_bytes b = Ok hdr"
      "write_in_from_bytes (in_header_body b) = Ok (wr, rest)"
    using res parsers_no_panic(1) [OF rs] parsers_no_panic(6) [OF rust_slice_body [OF rs]]
    by (auto simp: try_write_zero_copy_def split: result.splits prod.splits)
  note parsed = this
  show ?thesis
  proof (cases "iovecs_from mem (dc_readable chain) (of_nat REQUEST_HEADER_LEN) (ucast (write_size wr)) False")
    case (Ok iov)
    obtain r fs' w' where run: "fs_write_vectored H (write_fh wr) (write_offset wr) iov h (ses_fs s, w) = (r, fs', w')"
      by (metis surj_pair)
    have fs': "passthrough_ok (n + 2) fs'" "r \<noteq> Panic"
      using fs_keepsD [OF fs_keeps_io(3) ok n run] by auto
    then show ?thesis
      using res parsed Ok run
      by (cases r) (auto simp: try_write_zero_copy_def intro: req_safe_scatter_reply)
  qed (use ok res parsed copying_no_panic(4) in
    \<open>auto simp: try_write_zero_copy_def intro: req_safe_keep\<close>)
qed

lemma fs_read_vectored_no_panic: "fst (fs_read_vectored H fh off iov fs x) \<noteq> Panic"
  by (cases x) (auto simp: fs_read_vectored_def handle_store_with_file_def
      split: option.splits handle_data.splits prod.splits sum.splits)

lemma try_read_safe:
  assumes ok: "passthrough_ok n (ses_fs s)" and rs: "rust_slice b"
    and res: "try_read_zero_copy H mem chain b (s, h, w) = Some res"
  shows "req_safe n res"
proof -
  obtain hdr r where parsed: "in_header_from_bytes b = Ok hdr"
      "read_in_from_bytes (in_header_body b) = Ok r"
    using res parsers_no_panic(1) [OF rs] parsers_no_panic(5) [OF rust_slice_body [OF rs]]
    by (auto simp: try_read_zero_copy_def split: result.splits)
  define cap :: u64 where "cap = sum_list (map snd (dc_writable chain))"
  define want :: u64 where "want = min (ucast (read_size r)) (cap - min cap (of_nat OUT_HEADER_LEN))"
  have reply: "req_safe n (scatter_reply mem chain b' (s, h', w'))" for b' h' w'
    using ok by (intro req_safe_scatter_reply) (auto intro: passthrough_ok_mono)
  show ?thesis
  proof (cases "iovecs_from mem (dc_writable chain) (of_nat OUT_HEADER_LEN) want True")
    case (Ok iov)
    obtain r1 h1 w1 where run: "fs_read_vectored H (read_fh r) (read_offset r) iov (ses_fs s) (h, w) = (r1, h1, w1)"
      by (metis surj_pair)
    have "r1 \<noteq> Panic"
      using fs_read_vectored_no_panic [of H "read_fh r" "read_offset r" iov "ses_fs s" "(h, w)"] run by simp
    moreover have "req_safe n (case scatter_reply mem chain b' (s, h1, w1) of
        (Ok hw, \<sigma>) \<Rightarrow> (Ok (hw + k), \<sigma>) | (Err e, \<sigma>) \<Rightarrow> (Err e, \<sigma>) | (Panic, \<sigma>) \<Rightarrow> (Panic, \<sigma>))" for b' k
      using reply [of b' h1 w1] by (auto simp: req_safe_def split: prod.splits result.splits)
    ultimately show ?thesis
      using res parsed Ok run reply
      by (cases r1) (auto simp: try_read_zero_copy_def cap_def want_def Let_def)
  qed (use ok res parsed copying_no_panic(4) in
    \<open>auto simp: try_read_zero_copy_def cap_def want_def Let_def intro: req_safe_keep\<close>)
qed

lemma dispatch_request_safe:
  assumes ok: "passthrough_ok n (ses_fs s)" and n: "n + 2 < 2 ^ 64 - 1" and rs: "rust_slice prefix"
    and small: "\<And>b. gather_readable mem h chain = Ok b \<Longrightarrow> rust_slice b"
  shows "req_safe n (dispatch_request H mem chain prefix (s, h, w))"
  using dispatch_generic_safe [OF ok n small] try_write_safe [OF ok n rs] try_read_safe [OF ok rs]
  by (auto simp: dispatch_request_def split: opcode.split option.split)

lemma process_chain_safe:
  assumes ok: "passthrough_ok n (ses_fs s)" and n: "n + 2 < 2 ^ 64 - 1"
    and qs: "vq_queue_size vq \<noteq> 0"
  shows "req_safe n (process_chain H mem vq head (s, h, w))"
proof (cases "read_chain mem h vq head")
  case (Ok chain)
  note chain = this
  show ?thesis
  proof (cases "gather_readable_prefix mem h chain REQUEST_HEADER_LEN")
    case (Ok prefix)
    have "length prefix \<le> REQUEST_HEADER_LEN"
      using Ok prefix_loop_length [of mem h REQUEST_HEADER_LEN "dc_readable chain" "[]" prefix]
      by (simp add: gather_readable_prefix_def)
    then have "rust_slice prefix"
      by (simp add: rust_slice_def REQUEST_HEADER_LEN_def IN_HEADER_LEN_def)
    then have "req_safe n (dispatch_request H mem chain prefix (s, h, w))"
      using gathered_request_small [OF chain] by (intro dispatch_request_safe [OF ok n])
    moreover have "push_used mem vq head wl h' \<noteq> (Panic, h'')" for wl h' h''
      using push_used_no_panic [OF qs, of mem head wl h'] by auto
    ultimately show ?thesis
      using chain Ok
      by (auto simp: process_chain_def req_safe_def vq_lift_def split: prod.splits result.splits)
  qed (use ok chain copying_no_panic in \<open>auto simp: process_chain_def intro: req_safe_keep\<close>)
qed (use ok chain_loop_no_panic in \<open>auto simp: process_chain_def read_chain_def intro: req_safe_keep\<close>)

lemma pop_avail_size: "vq_queue_size (snd (pop_avail mem h vq)) = vq_queue_size vq"
  by (simp add: pop_avail_def Let_def split: option.splits)

lemma process_loop_safe:
  assumes "passthrough_ok n (ses_fs s)" and "n + 2 * fuel < 2 ^ 64 - 1" and "vq_queue_size vq \<noteq> 0"
    and "process_loop fuel H mem vq k (s, h, w) = Some (r, vq', s', h', w')"
  shows "r \<noteq> Panic \<and> passthrough_ok (n + 2 * fuel) (ses_fs s') \<and> vq_queue_size vq' = vq_queue_size vq"
  using assms
proof (induction fuel arbitrary: n vq k s h w)
  case (Suc fuel)
  obtain r1 vq1 where pop: "pop_avail mem h vq = (r1, vq1)" by fastforce
  have size1: "vq_queue_size vq1 = vq_queue_size vq" and "r1 \<noteq> Panic"
    using pop_avail_size [of mem h vq] pop_avail_no_panic [OF Suc.prems(3), of mem h] pop by auto
  show ?case
  proof (cases "\<exists>head. r1 = Ok (Some head)")
    case True
    then obtain head where head: "r1 = Ok (Some head)" by auto
    obtain r2 s2 h2 w2 where chain: "process_chain H mem vq1 head (s, h, w) = (r2, s2, h2, w2)"
      by (metis surj_pair)
    have safe: "r2 \<noteq> Panic" "passthrough_ok (n + 2) (ses_fs s2)"
      using process_chain_safe [OF Suc.prems(1) _ , of vq1 H mem head h w] Suc.prems(2,3) size1 chain
      by (auto simp: req_safe_def)
    show ?thesis
    proof (cases r2)
      case (Ok u)
      then have rest: "process_loop fuel H mem vq1 (Suc k) (s2, h2, w2) = Some (r, vq', s', h', w')"
        using Suc.prems(4) pop head chain by simp
      then show ?thesis
        using Suc.IH [OF safe(2) _ _ rest] Suc.prems(2,3) size1 by (simp add: ac_simps)
    next
      case (Err e)
      with Suc.prems(4) pop head chain safe size1 show ?thesis
        by (auto intro: passthrough_ok_mono)
    qed (use safe in simp)
  next
    case False
    with \<open>r1 \<noteq> Panic\<close> have "r1 = Ok None \<or> (\<exists>e. r1 = Err e)"
      by (cases r1) auto
    with Suc.prems pop size1 show ?thesis
      by (auto intro: passthrough_ok_mono)
  qed
qed simp

lemma slot_ok_vq: "slot_ok slot \<Longrightarrow> slot_vq slot = Some vq \<Longrightarrow> vq_queue_size vq' = vq_queue_size vq \<Longrightarrow>
    slot_ok (slot\<lparr>slot_vq := Some vq'\<rparr>)"
  by (simp add: slot_ok_def)

lemma process_vring_safe:
  assumes ok: "server_ok n srv" and n: "n + 2 * fuel < 2 ^ 64 - 1" and idx: "idx < NUM_QUEUES"
    and run: "process_vring fuel H V idx (srv, h, w) = Some (r, srv', h', w')"
  shows "r \<noteq> Panic \<and> server_ok (n + 2 * fuel) srv'"
proof (cases "srv_mem srv = None \<or> slot_vq (srv_vrings srv ! idx) = None")
  case True
  then have "r = Ok ()" "srv' = srv"
    using run ok idx by (cases "srv_mem srv"; auto simp: process_vring_def server_ok_def)+
  with ok show ?thesis by (auto intro: server_ok_mono)
next
  case False
  then obtain mem vq where mem: "srv_mem srv = Some mem" and vq: "slot_vq (srv_vrings srv ! idx) = Some vq"
    by auto
  have len: "idx < length (srv_vrings srv)" and slot: "slot_ok (srv_vrings srv ! idx)"
    using ok idx by (simp_all add: server_ok_def)
  obtain r1 vq1 s1 h1 w1 where loop: "process_loop fuel H mem vq 0 (srv_session srv, h, w) = Some (r1, vq1, s1, h1, w1)"
    using run mem vq len
    by (cases "process_loop fuel H mem vq 0 (srv_session srv, h, w)") (auto simp: process_vring_def)
  have "passthrough_ok n (ses_fs (srv_session srv))" "vq_queue_size vq \<noteq> 0"
    using ok slot vq by (auto simp: server_ok_def slot_ok_def)
  then have safe: "r1 \<noteq> Panic" "passthrough_ok (n + 2 * fuel) (ses_fs s1)" "vq_queue_size vq1 = vq_queue_size vq"
    using process_loop_safe [OF _ n _ loop] by auto
  let ?srv = "srv\<lparr>srv_session := s1, srv_vrings := (srv_vrings srv)
      [idx := (srv_vrings srv ! idx)\<lparr>slot_vq := Some vq1\<rparr>]\<rparr>"
  have "srv' = ?srv \<and> r \<noteq> Panic"
  proof (cases r1)
    case (Ok k)
    have "process_vring fuel H V idx (srv, h, w) = Some (Ok (), ?srv, h1,
        case slot_call_fd (srv_vrings srv ! idx) of
          Some d \<Rightarrow> if 0 < k then notify V d w1 else w1 | None \<Rightarrow> w1)"
      using mem vq len loop Ok by (simp add: process_vring_def Let_def)
    with run show ?thesis by auto
  next
    case (Err e)
    have "process_vring fuel H V idx (srv, h, w) = Some (Err e, ?srv, h1, w1)"
      using mem vq len loop Err by (simp add: process_vring_def Let_def)
    with run show ?thesis by auto
  qed (use safe(1) in simp)
  moreover have "slot_ok ((srv_vrings srv ! idx)\<lparr>slot_vq := Some vq1\<rparr>)"
    using slot vq safe(3) by (rule slot_ok_vq)
  ultimately show ?thesis
    using ok safe(2) by (auto simp: server_ok_def dest!: subsetD [OF set_update_subset_insert])
qed

section \<open>Control messages keep the invariant\<close>

text \<open>
  A \<open>SET_VRING_NUM\<close> that sets a size other than 0. The size is cut to 16 bits, so 65536 is 0
  as well.
\<close>

definition sane_message :: "request \<Rightarrow> bytes \<Rightarrow> bool" where
  "sane_message r payload \<longleftrightarrow>
     (r = SetVringNum \<longrightarrow>
        (\<forall>st. vring_state_from_bytes payload = Ok st \<longrightarrow> (ucast (vs_num st) :: u16) \<noteq> 0))"

definition control_safe :: "'w control \<Rightarrow> bool" where
  "control_safe c \<longleftrightarrow>
     (\<forall>n srv w r srv' w'. server_ok n srv \<longrightarrow> c (srv, w) = (r, srv', w') \<longrightarrow>
        r \<noteq> Panic \<and> server_ok n srv')"

named_theorems control \<open>control handlers that keep the invariant\<close>

lemma control_safe_done [control]: "control_safe ctl_done"
  by (simp add: control_safe_def ctl_done_def)

lemma control_safe_try [control]:
  "r \<noteq> Panic \<Longrightarrow> (\<And>v. r = Ok v \<Longrightarrow> control_safe (k v)) \<Longrightarrow> control_safe (ctl_try r k)"
  by (cases r) (auto simp: control_safe_def ctl_try_def)

lemma control_safe_reply [control]: "control_safe (ctl_reply V r body)"
  using connection_send_no_panic [of V]
  by (auto simp: control_safe_def ctl_reply_def server_reply_def split: prod.splits)
    (metis fst_conv)

lemma server_ok_update_slot:
  assumes "server_ok n srv" and "\<And>slot. slot_ok slot \<Longrightarrow> slot_ok (f slot)"
  shows "server_ok n (update_slot i f srv)"
  using assms
  by (auto simp: server_ok_def update_slot_def dest!: subsetD [OF set_update_subset_insert])

lemma control_safe_slot [control]:
  "(\<And>slot. slot_ok slot \<Longrightarrow> slot_ok (f slot)) \<Longrightarrow> control_safe (ctl_slot i f)"
  by (auto simp: control_safe_def ctl_slot_def intro: server_ok_update_slot)

lemma map_regions_no_panic:
  assumes "page_size V \<noteq> 0"
  shows "fst (map_regions V regions fds w) \<noteq> Panic"
proof -
  have "map_one V rg d w \<noteq> (Panic, w')" for rg d w w'
    using assms by (auto simp: map_one_def Let_def split: prod.splits sum.splits)
  then have "fst (map_loop V xs mapped w) \<noteq> Panic" for xs mapped w
    by (induction V xs mapped w rule: map_loop.induct) (auto split: prod.splits result.splits)
  then show ?thesis by (simp add: map_regions_def)
qed

lemma memory_regions_no_panic: "memory_regions_from_bytes b \<noteq> Panic"
  by (simp add: memory_regions_from_bytes_def memory_region.entries_at_no_panic Let_def)

lemma control_safe_set_mem_table [control]:
  assumes "page_size V \<noteq> 0"
  shows "control_safe (ctl_set_mem_table V payload fds)"
proof -
  have "map_regions V regions fds w \<noteq> (Panic, w')" for regions w w'
    using map_regions_no_panic [OF assms, of regions fds w] by auto
  then show ?thesis
    unfolding ctl_set_mem_table_def
    by (intro control_safe_try memory_regions_no_panic)
      (auto simp: control_safe_def server_ok_def split: if_splits prod.splits result.splits)
qed

lemma control_safe_fds [control]:
  "control_safe (ctl_set_kick H payload fds)"
  "control_safe (ctl_set_call H payload fds)"
  unfolding ctl_set_kick_def ctl_set_call_def
  by (intro control_safe_try vring_fd_payload.dec_no_panic;
      auto simp: control_safe_def slot_ok_def split: option.splits intro!: server_ok_update_slot)+

lemma control_safe_get_vring_base [control]: "control_safe (ctl_get_vring_base V payload)"
proof -
  have "control_safe (\<lambda>(srv, w). ctl_reply V GetVringBase (f srv) (srv, w))" for f
    using control_safe_reply [of V GetVringBase] unfolding control_safe_def by simp
  then show ?thesis
    unfolding ctl_get_vring_base_def Let_def
    by (intro control_safe_try vring_state.dec_no_panic) simp
qed

lemma control_safe_request:
  assumes "page_size V \<noteq> 0" and "sane_message r payload"
  shows "control_safe (handle_request H V r payload fds)"
proof -
  note no_panic = u64_payload.dec_no_panic vring_state.dec_no_panic vring_addr.dec_no_panic
    vring_fd_payload.dec_no_panic
  have slots: "slot_ok (maybe_build a slot)" "slot_ok (set_vring_base base slot)"
      "slot_ok (slot\<lparr>slot_enabled := e\<rparr>)" if "slot_ok slot" for a base e slot
    using that by (auto simp: slot_ok_def maybe_build_def set_vring_base_def set_avail_base_def
        virtqueue_new_def split: option.splits)
  show ?thesis
  proof (cases r)
    case SetVringNum
    then have "slot_ok (slot\<lparr>slot_queue_size := Some (ucast (vs_num st))\<rparr>)"
      if "slot_ok slot" "vring_state_from_bytes payload = Ok st" for slot st
      using that assms(2) by (auto simp: slot_ok_def sane_message_def)
    with SetVringNum show ?thesis
      by (auto simp: handle_request_def intro!: control_safe_try control_safe_slot no_panic)
  next
    case SetVringErr
    have "control_safe (\<lambda>(srv, w). (Ok (), srv, close_opt H d w))" for d
      by (simp add: control_safe_def)
    with SetVringErr show ?thesis
      by (simp add: handle_request_def control_safe_try no_panic)
  next
    case SetVringAddr
    then show ?thesis
      by (simp add: handle_request_def control_safe_try control_safe_slot no_panic slots)
  next
    case SetVringBase
    then show ?thesis
      by (simp add: handle_request_def control_safe_try control_safe_slot no_panic slots)
  next
    case SetVringEnable
    then show ?thesis
      by (simp add: handle_request_def control_safe_try control_safe_slot no_panic slots)
  qed (simp_all add: handle_request_def control no_panic assms(1))
qed

section \<open>The event loop\<close>

text \<open>
  A front-end that never sets a queue size of 0, on a host whose page size is not 0. Nothing
  else is assumed of either.
\<close>

definition sane_front_end :: "'w vmm \<Rightarrow> bool" where
  "sane_front_end V \<longleftrightarrow> page_size V \<noteq> 0 \<and>
     (\<forall>w header payload fds w' r. connection_recv V w = (Ok (header, payload, fds), w') \<longrightarrow>
        msg_header_request header = Ok r \<longrightarrow> sane_message r payload)"

lemma request_try_from_no_panic: "request_try_from v \<noteq> Panic"
  by (simp add: request_try_from_def)

lemma handle_one_message_safe:
  assumes "sane_front_end V" and "server_ok n srv"
    and "handle_one_message H V (srv, w) = (r, srv', w')"
  shows "r \<noteq> Panic" and "server_ok n srv'"
proof -
  obtain res w1 where recv: "connection_recv V w = (res, w1)" by fastforce
  have "r \<noteq> Panic \<and> server_ok n srv'"
  proof (cases res)
    case (Ok m)
    obtain header payload fds where m: "m = (header, payload, fds)" by (metis surj_pair)
    show ?thesis
    proof (cases "msg_header_request header")
      case (Ok q)
      then have "control_safe (handle_request H V q payload fds)"
        using assms(1) recv \<open>res = Ok m\<close> m
        unfolding sane_front_end_def by (intro control_safe_request) blast+
      moreover have "handle_request H V q payload fds (srv, w1) = (r, srv', w')"
        using assms(3) recv \<open>res = Ok m\<close> m Ok by (simp add: handle_one_message_def)
      ultimately show ?thesis
        using assms(2) unfolding control_safe_def by blast
    qed (use assms(2,3) recv Ok m request_try_from_no_panic in
      \<open>auto simp: handle_one_message_def msg_header_request_def\<close>)
  next
    case (Err e)
    with assms(2,3) recv show ?thesis by (auto simp: handle_one_message_def)
  next
    case Panic
    with recv connection_recv_no_panic [of V w] show ?thesis by simp
  qed
  then show "r \<noteq> Panic" "server_ok n srv'" by simp_all
qed

lemma process_kicks_safe:
  assumes "server_ok n srv" and "n + 2 * fuel * length ks < 2 ^ 64 - 1"
    and "\<forall>((i, d), e) \<in> set ks. i < NUM_QUEUES"
    and "process_kicks fuel H V ks (srv, h, w) = Some (r, srv', h', w')"
  shows "r \<noteq> Panic \<and> server_ok (n + 2 * fuel * length ks) srv'"
  using assms
proof (induction ks arbitrary: n srv h w)
  case Nil
  then show ?case by auto
next
  case (Cons k ks)
  obtain i d e where k: "k = ((i, d), e)" by (metis surj_pair)
  have i: "i < NUM_QUEUES" using Cons.prems(3) by (simp add: k)
  show ?case
  proof (cases "e AND POLLIN \<noteq> 0")
    case True
    obtain w1 where d: "drain_fd fuel V d w = Some w1"
      using Cons.prems(4) True by (cases "drain_fd fuel V d w") (simp_all add: k)
    obtain r1 srv1 h1 w2 where pv: "process_vring fuel H V i (srv, h, w1) = Some (r1, srv1, h1, w2)"
      using Cons.prems(4) True d by (cases "process_vring fuel H V i (srv, h, w1)") (auto simp: k)
    have rest: "r = r1 \<and> srv' = srv1 \<or>
        process_kicks fuel H V ks (srv1, h1, w2) = Some (r, srv', h', w')"
      using Cons.prems(4) True d pv by (cases r1) (simp_all add: k)
    have safe: "r1 \<noteq> Panic" "server_ok (n + 2 * fuel) srv1"
      using process_vring_safe [OF Cons.prems(1) _ i pv] Cons.prems(2) by auto
    from rest show ?thesis
    proof
      assume "r = r1 \<and> srv' = srv1"
      with safe show ?thesis by (auto intro: server_ok_mono)
    next
      assume "process_kicks fuel H V ks (srv1, h1, w2) = Some (r, srv', h', w')"
      from Cons.IH [OF safe(2) _ _ this] Cons.prems(2,3) show ?thesis
        by (simp add: ac_simps)
    qed
  next
    case False
    then have "process_kicks fuel H V ks (srv, h, w) = Some (r, srv', h', w')"
      using Cons.prems(4) by (simp add: k)
    from Cons.IH [OF Cons.prems(1) _ _ this] Cons.prems(2,3) show ?thesis
      by (auto intro: server_ok_mono)
  qed
qed

lemma kick_slots_bounds:
  "length (kick_slots slots) \<le> length slots" "\<forall>(i, d) \<in> set (kick_slots slots). i < length slots"
proof -
  have "length (concat (map (\<lambda>(i, s). case slot_kick_fd s of
      Some d \<Rightarrow> if slot_enabled s then [(i, d)] else [] | None \<Rightarrow> []) xs)) \<le> length xs"
    for xs :: "(nat \<times> vring_slot) list"
    by (induction xs) (auto split: option.splits)
  from this [of "enumerate 0 slots"] show "length (kick_slots slots) \<le> length slots"
    by (simp add: kick_slots_def)
  show "\<forall>(i, d) \<in> set (kick_slots slots). i < length slots"
    by (auto simp: kick_slots_def in_set_enumerate_eq split: option.splits if_splits)
qed

text \<open>One turn takes at most \<open>4 * fuel\<close> ids: two vrings, \<open>fuel\<close> requests each, two ids each.\<close>

lemma kicks_safe:
  assumes "server_ok n srv0" and n: "n + 4 * fuel < 2 ^ 64 - 1" and "server_ok n srv"
    and run: "process_kicks fuel H V (zip (kick_slots (srv_vrings srv0)) rv) (srv, h, w) = Some (r, srv', h', w')"
  shows "r \<noteq> Panic \<and> server_ok (n + 4 * fuel) srv'"
proof -
  let ?ks = "zip (kick_slots (srv_vrings srv0)) rv"
  have "length (kick_slots (srv_vrings srv0)) \<le> 2"
    using kick_slots_bounds(1) [of "srv_vrings srv0"] assms(1) by (simp add: server_ok_def NUM_QUEUES_def)
  then have "length ?ks \<le> 2" by simp
  then have len: "2 * fuel * length ?ks \<le> 4 * fuel"
    using mult_le_mono2 [of "length ?ks" 2 "2 * fuel"] by simp
  have "\<forall>((i, d), e) \<in> set ?ks. i < NUM_QUEUES"
    using kick_slots_bounds(2) [of "srv_vrings srv0"] assms(1)
    by (auto simp: server_ok_def dest!: set_zip_leftD)
  moreover have "n + 2 * fuel * length ?ks < 2 ^ 64 - 1"
    using len n by linarith
  ultimately have "r \<noteq> Panic" "server_ok (n + 2 * fuel * length ?ks) srv'"
    using process_kicks_safe [OF assms(3) _ _ run] by simp_all
  with len show ?thesis by (auto elim: server_ok_mono)
qed

lemma turn_polled_safe:
  assumes "server_ok n srv0" and "n + 4 * fuel < 2 ^ 64 - 1" and ok: "server_ok n srv"
    and pol: "turn_polled fuel H V e (zip (kick_slots (srv_vrings srv0)) rv) (srv, h, w) = Some (t, srv', h', w')"
  shows "t \<noteq> Stop Panic \<and> server_ok (n + 4 * fuel) srv'"
proof (cases "e AND (POLLHUP OR POLLERR) \<noteq> 0")
  case True
  with pol server_ok_mono [OF ok, of "n + 4 * fuel"] show ?thesis by (auto simp: turn_polled_def)
next
  case False
  then obtain r where r: "process_kicks fuel H V (zip (kick_slots (srv_vrings srv0)) rv) (srv, h, w) = Some (r, srv', h', w')"
      "t = (if r = Ok () then Continue else Stop r)"
    using pol by (auto simp: turn_polled_def turn_kicks_def split: option.splits prod.splits)
  with kicks_safe [OF assms(1-3) r(1)] show ?thesis by auto
qed

lemma server_turn_safe:
  assumes fe: "sane_front_end V" and ok: "server_ok n srv" and n: "n + 4 * fuel < 2 ^ 64 - 1"
    and turn: "server_turn fuel H V (srv, h, w) = Some (t, srv', h', w')"
  shows "t \<noteq> Stop Panic \<and> server_ok (n + 4 * fuel) srv'"
proof -
  let ?kicks = "kick_slots (srv_vrings srv)"
  have ok': "server_ok (n + 4 * fuel) srv1" if "server_ok n srv1" for srv1
    using that by (rule server_ok_mono) simp
  note polled = turn_polled_safe [OF ok n]
  obtain p w1 where poll: "sys_poll V (srv_conn srv # map snd ?kicks) w = (p, w1)" by fastforce
  show ?thesis
  proof (cases p)
    case (Inl e)
    with turn poll ok' [OF ok] show ?thesis
      by (auto simp: server_turn_def Let_def split: if_splits)
  next
    case (Inr rv)
    show ?thesis
    proof (cases "hd rv AND POLLIN \<noteq> 0")
      case True
      obtain r srv1 w2 where m: "handle_one_message H V (srv, w1) = (r, srv1, w2)" by (metis surj_pair)
      have "r \<noteq> Panic" "server_ok n srv1"
        using handle_one_message_safe [OF fe ok m] by simp_all
      then show ?thesis
        using turn poll Inr True m polled [of srv1 H V "hd rv" "tl rv" h w2] ok' [of srv1]
        by (cases r) (auto simp: server_turn_def Let_def split: if_splits)
    next
      case False
      with turn poll Inr polled [OF ok, of H V "hd rv" "tl rv" h w1] show ?thesis
        by (simp add: server_turn_def Let_def)
    qed
  qed
qed

text \<open>
  The states the event loop reaches: from a new server, by turns of the loop, and by whatever
  the guest does to the shared memory and the world does in between.
\<close>

inductive server_reach ::
  "nat \<Rightarrow> 'w host \<Rightarrow> 'w vmm \<Rightarrow> server \<Rightarrow> nat \<Rightarrow> 'w srv_state \<Rightarrow> bool"
  for fuel H V srv0 where
  reach_start: "server_reach fuel H V srv0 0 (srv0, h, w)"
| reach_turn: "server_reach fuel H V srv0 k \<sigma> \<Longrightarrow> server_turn fuel H V \<sigma> = Some (Continue, \<sigma>') \<Longrightarrow>
    server_reach fuel H V srv0 (Suc k) \<sigma>'"
| reach_env: "server_reach fuel H V srv0 k (srv, h, w) \<Longrightarrow> server_reach fuel H V srv0 k (srv, h', w')"

lemma server_reach_ok:
  assumes "server_reach fuel H V srv0 k \<sigma>" and "sane_front_end V" and "server_ok n srv0"
    and "n + 4 * fuel * k < 2 ^ 64 - 1"
  shows "server_ok (n + 4 * fuel * k) (fst \<sigma>)"
  using assms(1,4)
proof (induction rule: server_reach.induct)
  case (reach_start h w)
  with assms(3) show ?case by simp
next
  case (reach_turn k \<sigma> \<sigma>')
  obtain srv h w where \<sigma>: "\<sigma> = (srv, h, w)" by (metis surj_pair)
  obtain srv' h' w' where \<sigma>': "\<sigma>' = (srv', h', w')" by (metis surj_pair)
  have "server_ok (n + 4 * fuel * k) srv"
    using reach_turn by (simp add: \<sigma>)
  from server_turn_safe [OF assms(2) this] reach_turn.prems reach_turn.hyps(2)
  have "server_ok (n + 4 * fuel * k + 4 * fuel) srv'"
    by (simp add: \<sigma> \<sigma>' add.assoc)
  then show ?case by (simp add: \<sigma>' algebra_simps)
qed simp

end
