(* ===== verification/Mem_Host.thy ===== *)
theory Mem_Host
  imports Server
begin

text \<open>
  A small host and a small front-end, kept in memory: a concrete value for each of the two
  parameter records. The shared directory has one file, \<open>f\<close>, whose contents, and whether it
  is there, are part of the world; descriptors are handed out one after the other and every
  close is recorded; a socket delivers at most five bytes at a time and accepts at most seven.
  It shows that the laws assumed of the host can hold together, and it is what the concrete
  examples run on.
\<close>

section \<open>The world\<close>

record mem_world =
  mw_next :: fd
  mw_closed :: "fd list"
  mw_file :: "bytes option"
  mw_in :: stream
  mw_out :: stream

definition mem_world0 :: mem_world where
  "mem_world0 = \<lparr>mw_next = 3, mw_closed = [], mw_file = Some [104, 105], mw_in = [],
     mw_out = []\<rparr>"

definition mem_stat :: "u64 \<Rightarrow> u32 \<Rightarrow> nat \<Rightarrow> stat" where
  "mem_stat ino mode sz =
     \<lparr>st_dev = 1, st_ino = ino, st_mode = mode, st_nlink = 1, st_uid = 0, st_gid = 0, st_rdev = 0,
      st_size = of_nat sz, st_blksize = 512, st_blocks = 1, st_atime = 0, st_atime_nsec = 0,
      st_mtime = 0, st_mtime_nsec = 0, st_ctime = 0, st_ctime_nsec = 0\<rparr>"

text \<open>The world once the shared directory is open, as descriptor 3.\<close>

abbreviation mem_world1 :: mem_world where "mem_world1 \<equiv> mem_world0\<lparr>mw_next := 4\<rparr>"

abbreviation root_stat :: stat where "root_stat \<equiv> mem_stat 10 0x41ED 0"
abbreviation file_stat :: "bytes \<Rightarrow> stat" where "file_stat b \<equiv> mem_stat 11 0x81A4 (length b)"

abbreviation name_f :: bytes where "name_f \<equiv> [102]"

section \<open>System calls\<close>

definition mem_new_fd :: "mem_world \<Rightarrow> fd sysret \<times> mem_world" where
  "mem_new_fd w = (Inr (mw_next w), w\<lparr>mw_next := mw_next w + 1\<rparr>)"

definition mem_lookup :: "bytes \<Rightarrow> (bytes \<Rightarrow> mem_world \<Rightarrow> 'a sysret \<times> mem_world) \<Rightarrow> mem_world
   \<Rightarrow> 'a sysret \<times> mem_world" where
  "mem_lookup name f w =
     (case mw_file w of
        Some b \<Rightarrow> if name = name_f then f b w else (Inl (linux_errno ENOENT), w)
      | None \<Rightarrow> (Inl (linux_errno ENOENT), w))"

definition mem_pread :: "fd \<Rightarrow> nat \<Rightarrow> i64 \<Rightarrow> mem_world \<Rightarrow> bytes sysret \<times> mem_world" where
  "mem_pread d n off w =
     (case mw_file w of
        Some b \<Rightarrow> (Inr (take n (drop (unat off) b)), w)
      | None \<Rightarrow> (Inl (linux_errno EIO), w))"

definition mem_pwrite :: "fd \<Rightarrow> bytes \<Rightarrow> i64 \<Rightarrow> mem_world \<Rightarrow> nat sysret \<times> mem_world" where
  "mem_pwrite d b off w =
     (case mw_file w of
        Some old \<Rightarrow>
          (Inr (length b), w\<lparr>mw_file := Some (take (unat off) old
             @ replicate (unat off - length old) 0 @ b @ drop (unat off + length b) old)\<rparr>)
      | None \<Rightarrow> (Inl (linux_errno EIO), w))"

definition mem_fail :: "mem_world \<Rightarrow> 'a sysret \<times> mem_world" where
  "mem_fail w = (Inl (linux_errno ENOSYS), w)"

fun mem_oflag :: "open_flag \<Rightarrow> i32" where
  "mem_oflag O_RDONLY = 0"
| "mem_oflag O_WRONLY = 1"
| "mem_oflag O_RDWR = 2"
| "mem_oflag O_CREAT = 0x40"
| "mem_oflag O_EXCL = 0x80"
| "mem_oflag O_DIRECTORY = 0x10000"
| "mem_oflag O_CLOEXEC = 0x80000"
| "mem_oflag O_NOFOLLOW = 0x20000"
| "mem_oflag O_PATH = 0x200000"
| "mem_oflag O_EVTONLY = 0x8000"
| "mem_oflag O_SYMLINK = 0x200000"

definition mem_host :: "mem_world host" where
  "mem_host =
     \<lparr>target = Linux, errno_of = linux_errno, oflag = mem_oflag, at_symlink_nofollow = 0x100,
      at_removedir = 0x200, at_empty_path = 0x1000, utime_omit = 0x3FFFFFFE,
      sys_open = (\<lambda>path flags. mem_new_fd),
      sys_openat = (\<lambda>d name flags mode w.
        if flags AND mem_oflag O_CREAT \<noteq> 0 \<and> mw_file w = None \<and> name = name_f
        then mem_new_fd (w\<lparr>mw_file := Some []\<rparr>)
        else mem_lookup name (\<lambda>_. mem_new_fd) w),
      sys_close = (\<lambda>d w. w\<lparr>mw_closed := d # mw_closed w\<rparr>),
      sys_dupfd = (\<lambda>d. mem_new_fd),
      sys_fstat = (\<lambda>d w. case mw_file w of
         Some b \<Rightarrow> (Inr (if d = 3 then root_stat else file_stat b), w)
       | None \<Rightarrow> (Inr root_stat, w)),
      sys_fstatat = (\<lambda>d name flags. mem_lookup name (\<lambda>b w. (Inr (file_stat b), w))),
      sys_ftruncate = (\<lambda>d n w. (Inr (), w\<lparr>mw_file := map_option (take (unat n)) (mw_file w)\<rparr>)),
      sys_fchmodat = (\<lambda>d name mode flags. mem_fail),
      sys_fchownat = (\<lambda>d name uid gid flags. mem_fail),
      sys_utimensat = (\<lambda>d name times flags. mem_fail),
      sys_mkdirat = (\<lambda>d name mode. mem_fail),
      sys_unlinkat = (\<lambda>d name flags. mem_lookup name (\<lambda>_ w. (Inr (), w\<lparr>mw_file := None\<rparr>))),
      sys_renameat = (\<lambda>d name d' name'. mem_lookup name (\<lambda>_ w. (Inr (), w))),
      sys_symlinkat = (\<lambda>path d name. mem_fail),
      sys_readlinkat = (\<lambda>d name n. mem_fail),
      sys_linkat = (\<lambda>d name d' name' flags w. (Inr (), w)),
      sys_pread = mem_pread,
      sys_pwrite = mem_pwrite,
      sys_preadv = (\<lambda>d iov off m w. case mem_pread d (slices_len iov) off w of
         (Inl e, w') \<Rightarrow> ((Inl e, m), w')
       | (Inr b, w') \<Rightarrow> ((Inr (length b), scatter_store iov b m), w')),
      sys_pwritev = (\<lambda>d iov off m. mem_pwrite d (load_all m iov) off),
      sys_fsync = (\<lambda>d w. (Inr (), w)),
      sys_fdopendir = (\<lambda>d w. (Inr (), w)),
      sys_readdir = (\<lambda>d w. (case mw_file w of
         Some _ \<Rightarrow> [Inr \<lparr>de_name = name_f, de_ino = 11, de_type = Some DtFile\<rparr>]
       | None \<Rightarrow> [], w)),
      sys_fstatvfs = (\<lambda>d. mem_fail),
      sys_now = (\<lambda>w. ((0, 0), w)),
      hash_order = sorted_list_of_set\<rparr>"

section \<open>The front-end\<close>

definition mem_recv :: "nat \<Rightarrow> nat \<Rightarrow> mem_world \<Rightarrow> (bytes \<times> fd list) sysret \<times> mem_world" where
  "mem_recv n m w =
     (let k = min n 5 in
      (Inr (map fst (take k (mw_in w)), stream_fds (take k (mw_in w))), w\<lparr>mw_in := drop k (mw_in w)\<rparr>))"

definition mem_send :: "bytes \<Rightarrow> fd list \<Rightarrow> mem_world \<Rightarrow> nat sysret \<times> mem_world" where
  "mem_send b fds w =
     (let k = min (length b) 7 in
      (Inr k, w\<lparr>mw_out := mw_out w @ attach fds (take k b)\<rparr>))"

definition mem_vmm :: "mem_world vmm" where
  "mem_vmm =
     \<lparr>page_size = 4096,
      sys_mmap = (\<lambda>d n off w. (Inr (unat d, unat off), w)),
      sys_munmap = (\<lambda>p n w. w),
      sys_recv_with_fd = mem_recv,
      sys_send_with_fd = mem_send,
      sys_read = (\<lambda>d n w. (Inr [], w)),
      sys_write = (\<lambda>d b w. (Inr (length b), w)),
      sys_poll = (\<lambda>ds w. (Inr (map (\<lambda>_. POLLIN) ds), w))\<rparr>"

text \<open>A front-end that asks for the features again and again, whatever has been sent before.\<close>

definition asking_vmm :: "mem_world vmm" where
  "asking_vmm = mem_vmm\<lparr>sys_recv_with_fd :=
     (\<lambda>n m w. (Inr (map (\<lambda>i. if i = 0 then 1 else 0) [0 ..< n], []), w))\<rparr>"

lemma mem_host_sel [simp]:
  "target mem_host = Linux" "errno_of mem_host = linux_errno" "oflag mem_host = mem_oflag"
  "sys_open mem_host path flags = mem_new_fd"
  "sys_close mem_host d w = w\<lparr>mw_closed := d # mw_closed w\<rparr>"
  "sys_dupfd mem_host d = mem_new_fd"
  "sys_fstatat mem_host d name flags = mem_lookup name (\<lambda>b w. (Inr (file_stat b), w))"
  "sys_unlinkat mem_host d name flags = mem_lookup name (\<lambda>_ w. (Inr (), w\<lparr>mw_file := None\<rparr>))"
  "sys_renameat mem_host d name d' name' = mem_lookup name (\<lambda>_ w. (Inr (), w))"
  "sys_linkat mem_host d name d' name' flags w = (Inr (), w)"
  "sys_pread mem_host = mem_pread" "sys_pwrite mem_host = mem_pwrite"
  "sys_pwritev mem_host d iov off m = mem_pwrite d (load_all m iov) off"
  "sys_fdopendir mem_host d w = (Inr (), w)"
  "hash_order mem_host = sorted_list_of_set"
  by (simp_all add: mem_host_def)

lemma mem_host_openat [simp]:
  "sys_openat mem_host d name flags mode w =
     (if flags AND mem_oflag O_CREAT \<noteq> 0 \<and> mw_file w = None \<and> name = name_f
      then mem_new_fd (w\<lparr>mw_file := Some []\<rparr>) else mem_lookup name (\<lambda>_. mem_new_fd) w)"
  by (simp add: mem_host_def)

lemma mem_host_fstat [simp]:
  "sys_fstat mem_host d w =
     (Inr (case mw_file w of Some b \<Rightarrow> if d = 3 then root_stat else file_stat b
                           | None \<Rightarrow> root_stat), w)"
  by (simp add: mem_host_def split: option.split)

lemma mem_vmm_sel [simp]:
  "page_size mem_vmm = 4096"
  "sys_mmap mem_vmm d m off w = (Inr (unat d, unat off), w)" "sys_munmap mem_vmm p m w = w"
  "sys_recv_with_fd mem_vmm = mem_recv" "sys_send_with_fd mem_vmm = mem_send"
  "sys_read mem_vmm d n w = (Inr [], w)" "sys_write mem_vmm d b w = (Inr (length b), w)"
  "sys_poll mem_vmm ds w = (Inr (map (\<lambda>_. POLLIN) ds), w)"
  by (simp_all add: mem_vmm_def)

lemma asking_vmm_sel [simp]:
  "page_size asking_vmm = 4096" "sys_send_with_fd asking_vmm = mem_send"
  "sys_recv_with_fd asking_vmm n m w = (Inr (map (\<lambda>i. if i = 0 then 1 else 0) [0 ..< n], []), w)"
  "sys_read asking_vmm d n w = (Inr [], w)" "sys_write asking_vmm d b w = (Inr (length b), w)"
  "sys_poll asking_vmm ds w = (Inr (map (\<lambda>_. POLLIN) ds), w)"
  by (simp_all add: asking_vmm_def)

section \<open>The laws hold\<close>

lemma mem_host_vectored_io: "vectored_io mem_host"
  by (auto simp: vectored_io_def mem_host_def mem_pread_def split: option.splits)

lemma mem_vmm_stream_recv: "stream_recv mem_vmm mw_in"
  unfolding stream_recv_def
proof (intro allI impI)
  fix n m :: nat and w :: mem_world assume "0 < n" "mw_in w \<noteq> []"
  then show "\<exists>s w'. sys_recv_with_fd mem_vmm n m w = (Inr (map fst s, stream_fds s), w') \<and>
      s \<noteq> [] \<and> length s \<le> n \<and> mw_in w = s @ mw_in w'"
    by (intro exI [of _ "take (min n 5) (mw_in w)"]) (simp add: mem_recv_def Let_def)
qed

lemma mem_vmm_stream_send: "stream_send mem_vmm mw_out"
  by (auto simp: stream_send_def mem_send_def Let_def)

definition mem_fs :: passthrough_fs where
  "mem_fs = \<lparr>inodes = inode_store_new 3 root_stat, handles = handle_store_new\<rparr>"

lemma mem_passthrough_new:
  "passthrough_new mem_host [115] mem_world0 = (Ok mem_fs, mem_world1)"
  by (simp add: passthrough_new_def mem_new_fd_def mem_world0_def mem_fs_def)

text \<open>What it takes to evaluate an operation of the engine on this host.\<close>

lemmas engine_eval =
  fs_bind_def fs_return_def fs_lift_def fs_sys_def fs_inode_def inode_store_get_def to_cstring_def
  fs_open_child_def open_child_def fs_register_def inode_store_register_def stat_key_def
  mem_stat_def inode_set_location_def inode_store_new_def ROOT_ID_def Let_def
  mem_fs_def mem_world0_def mem_lookup_def mem_new_fd_def
  fs_insert_handle_def handle_store_insert_def handle_store_new_def fs_with_file_def
  handle_store_with_file_def fs_drop_handle_def handle_store_remove_def

lemma asking_vmm_recv:
  "connection_recv asking_vmm w = (Ok (\<lparr>mh_request = 1, mh_flags = 0, mh_size = 0\<rparr>, [], []), w)"
  by (simp add: connection_recv_def recv_exact.simps HEADER_LEN_def upt_rec
      msg_header_from_bytes_def word_at_def slice_of_def numeral_eq_Suc Let_def)

section \<open>More state beside the world\<close>

text \<open>A host whose world has a second part, which no call touches.\<close>

definition beside :: "('w \<Rightarrow> 'a \<times> 'w) \<Rightarrow> 'w \<times> 'm \<Rightarrow> 'a \<times> 'w \<times> 'm" where
  "beside call = (\<lambda>(w, m). case call w of (r, w') \<Rightarrow> (r, w', m))"

definition host_beside :: "'w host \<Rightarrow> ('w \<times> 'm) host" where
  "host_beside H =
     \<lparr>target = target H, errno_of = errno_of H, oflag = oflag H,
      at_symlink_nofollow = at_symlink_nofollow H, at_removedir = at_removedir H,
      at_empty_path = at_empty_path H, utime_omit = utime_omit H,
      sys_open = (\<lambda>path fl. beside (sys_open H path fl)),
      sys_openat = (\<lambda>d name fl mode. beside (sys_openat H d name fl mode)),
      sys_close = (\<lambda>d (w, m). (sys_close H d w, m)),
      sys_dupfd = (\<lambda>d. beside (sys_dupfd H d)),
      sys_fstat = (\<lambda>d. beside (sys_fstat H d)),
      sys_fstatat = (\<lambda>d name fl. beside (sys_fstatat H d name fl)),
      sys_ftruncate = (\<lambda>d n. beside (sys_ftruncate H d n)),
      sys_fchmodat = (\<lambda>d name mode fl. beside (sys_fchmodat H d name mode fl)),
      sys_fchownat = (\<lambda>d name uid gid fl. beside (sys_fchownat H d name uid gid fl)),
      sys_utimensat = (\<lambda>d name ts fl. beside (sys_utimensat H d name ts fl)),
      sys_mkdirat = (\<lambda>d name mode. beside (sys_mkdirat H d name mode)),
      sys_unlinkat = (\<lambda>d name fl. beside (sys_unlinkat H d name fl)),
      sys_renameat = (\<lambda>d name d' name'. beside (sys_renameat H d name d' name')),
      sys_symlinkat = (\<lambda>path d name. beside (sys_symlinkat H path d name)),
      sys_readlinkat = (\<lambda>d name n. beside (sys_readlinkat H d name n)),
      sys_linkat = (\<lambda>d name d' name' fl. beside (sys_linkat H d name d' name' fl)),
      sys_pread = (\<lambda>d n off. beside (sys_pread H d n off)),
      sys_pwrite = (\<lambda>d b off. beside (sys_pwrite H d b off)),
      sys_preadv = (\<lambda>d iov off h. beside (sys_preadv H d iov off h)),
      sys_pwritev = (\<lambda>d iov off h. beside (sys_pwritev H d iov off h)),
      sys_fsync = (\<lambda>d. beside (sys_fsync H d)),
      sys_fdopendir = (\<lambda>d. beside (sys_fdopendir H d)),
      sys_readdir = (\<lambda>d. beside (sys_readdir H d)),
      sys_fstatvfs = (\<lambda>d. beside (sys_fstatvfs H d)),
      sys_now = beside (sys_now H),
      hash_order = hash_order H\<rparr>"

end
