(* ===== verification/Engine_Properties.thy ===== *)
theory Engine_Properties
  imports Passthrough Mem_Host
begin

text \<open>
  What a client of the passthrough engine may rely on: the ids it is given and how long they
  last, and what happens with an id or a handle it does not hold.
\<close>

section \<open>Inode ids\<close>

text \<open>
  C7. From a new inode table, after any sequence of registrations, forgets and renames, the
  table holds exactly the references a ledger counts that adds one per registration and takes
  off what is given back; an id is in the table exactly as long as its count is not 0; and the
  two maps of the table are still inverse to each other.
\<close>

theorem inode_table_refines_ledger:
  assumes "length ops + 2 < 2 ^ 64"
    and "store_run H ops (inode_store_new d st) w (\<lambda>i. if i = ROOT_ID then 1 else 0) = (s', w', c)"
  shows "c = refs s' \<and> inode_store_ok s' \<and> (\<forall>i. i \<in> dom (by_id s') \<longleftrightarrow> 0 < c i)"
proof -
  have "store_counted (length ops) s'" "c = refs s'"
    using store_run_refines [OF store_counted_new, of ops H d st w s' w' c] assms
    by (simp_all add: refs_new)
  then show ?thesis by (simp add: store_counted_def)
qed

theorem inode_table_refines_ledger_witness:
  "\<exists>s' w' c. store_run mem_host
      [Register 1 name_f 4 (file_stat []), Register 1 [103] 5 (file_stat []), Forget 2 1, Forget 2 7]
      (inode_store_new 3 root_stat) mem_world0 (\<lambda>i. if i = ROOT_ID then 1 else 0) = (s', w', c) \<and>
     mw_closed w' = [4, 5] \<and> refs s' 2 = 0 \<and> inode_store_ok s'"
proof -
  let ?ops = "[Register 1 name_f 4 (file_stat []), Register 1 [103] 5 (file_stat []), Forget 2 1, Forget 2 7]"
  obtain s' w' c where run: "store_run mem_host ?ops
      (inode_store_new 3 root_stat) mem_world0 (\<lambda>i. if i = ROOT_ID then 1 else 0) = (s', w', c)"
      "mw_closed w' = [4, 5]" "c 2 = 0"
    by (simp add: inode_store_register_def inode_store_new_def Let_def stat_key_def mem_stat_def
        ROOT_ID_def inode_store_forget_def inode_set_location_def mem_world0_def)
  with inode_table_refines_ledger [OF _ run(1)] show ?thesis by auto
qed

text \<open>A lookup that succeeds has registered the file it found; ids handed out before keep their file.\<close>

text \<open>What the host says the name is: \<open>fstatat\<close> on the directory of the parent, links not followed.\<close>

definition host_says :: "'w host \<Rightarrow> passthrough_fs \<Rightarrow> u64 \<Rightarrow> bytes \<Rightarrow> 'w \<Rightarrow> stat option" where
  "host_says H fs p name w =
     (case by_id (inodes fs) p of
        None \<Rightarrow> None
      | Some dir \<Rightarrow> (case sys_fstatat H (ino_fd dir) name (at_symlink_nofollow H) w of
          (Inl e, _) \<Rightarrow> None | (Inr st, _) \<Rightarrow> Some st))"

lemma open_child_OkE:
  assumes "open_child H d name w = (Ok (c, st), w')"
  obtains w1 where "sys_fstatat H d name (at_symlink_nofollow H) w = (Inr st, w1)"
  using assms by (auto simp: open_child_def Let_def split: prod.splits sum.splits)

lemma fs_lookup_OkE:
  assumes "fs_lookup H p name (fs, w) = (Ok (i, a), fs', w')"
  obtains d st w1 data s' where
    "inode_store_register H p name d st (inodes fs) w1 = (Ok data, s', w')"
    "fs' = fs\<lparr>inodes := s'\<rparr>" "i = ino_id data" "a = attr_from_stat st" "host_says H fs p name w = Some st"
proof -
  obtain dir where dir: "by_id (inodes fs) p = Some dir"
    using assms by (cases "by_id (inodes fs) p")
      (simp_all add: fs_lookup_def fs_bind_def fs_inode_def inode_store_get_def)
  have name: "to_cstring name = Ok name"
    using assms dir by (auto simp: fs_lookup_def fs_bind_def fs_inode_def inode_store_get_def fs_lift_def to_cstring_def
        split: if_splits)
  obtain d st w1 where child: "open_child H (ino_fd dir) name w = (Ok (d, st), w1)"
    using assms dir name
    by (auto simp: fs_lookup_def fs_bind_def fs_inode_def inode_store_get_def fs_lift_def fs_open_child_def
        split: prod.splits result.splits)
  then have "host_says H fs p name w = Some st"
    by (rule open_child_OkE) (simp add: host_says_def dir)
  with that assms dir name child show thesis
    by (auto simp: fs_lookup_def fs_bind_def fs_inode_def inode_store_get_def fs_lift_def fs_open_child_def
        fs_register_def fs_return_def split: prod.splits result.splits)
qed

lemma register_keeps_keys:
  assumes ok: "inode_store_ok s" and reg: "inode_store_register H p name d st s w = (r, s', w')"
    and e: "by_id s j = Some e"
  shows "\<exists>e'. by_id s' j = Some e' \<and> ino_key e' = ino_key e"
proof (cases "by_key s (stat_key st)")
  case None
  moreover have "j \<noteq> ino_next_id s"
    using inode_store_ok_fresh [OF ok] e by auto
  ultimately show ?thesis
    using reg e by (auto simp: inode_store_register_def Let_def)
next
  case (Some i)
  then obtain d where "by_id s i = Some d"
    using inode_store_okD(5) [OF ok] by blast
  with Some reg e show ?thesis
    by (auto simp: inode_store_register_def Let_def inode_set_location_def)
qed

lemma fs_lookup_entry:
  assumes ok: "passthrough_ok n fs" and "n + 1 < 2 ^ 64 - 1"
    and look: "fs_lookup H p name (fs, w) = (Ok (i, a), fs', w')"
  shows "passthrough_ok (n + 1) fs'"
    and "\<exists>d st. by_id (inodes fs') i = Some d \<and> host_says H fs p name w = Some st \<and>
      ino_key d = \<lparr>key_dev = st_dev st, key_ino = st_ino st\<rparr> \<and> a = attr_from_stat st"
    and "by_id (inodes fs) j = Some e \<Longrightarrow> \<exists>e'. by_id (inodes fs') j = Some e' \<and> ino_key e' = ino_key e"
proof -
  show "passthrough_ok (n + 1) fs'"
    using fs_keepsD(1) [OF fs_keeps_lookup ok _ look] assms(2) by simp
  obtain d st w1 data s' where
      reg: "inode_store_register H p name d st (inodes fs) w1 = (Ok data, s', w')"
      and fs': "fs' = fs\<lparr>inodes := s'\<rparr>" "i = ino_id data" "a = attr_from_stat st"
      and st: "host_says H fs p name w = Some st"
    using look by (rule fs_lookup_OkE)
  have ino: "inode_store_ok (inodes fs)"
    using ok by (simp add: passthrough_ok_def)
  show "\<exists>d st. by_id (inodes fs') i = Some d \<and> host_says H fs p name w = Some st \<and>
      ino_key d = \<lparr>key_dev = st_dev st, key_ino = st_ino st\<rparr> \<and> a = attr_from_stat st"
    using inode_store_register_no_panic [OF ino, of H p name d st w1] reg st
    by (auto simp: fs' stat_key_def)
  show "\<exists>e'. by_id (inodes fs') j = Some e' \<and> ino_key e' = ino_key e"
    if "by_id (inodes fs) j = Some e"
    using register_keeps_keys [OF ino reg that] by (simp add: fs')
qed

text \<open>
  C15. Two lookups, one after the other, return the same nodeid exactly when the host says the
  two names are the same file, that is, when the two answers of \<open>fstatat\<close> have the same device
  and the same inode number: a hard link is found again under the id it already has, and no two
  files share an id. The table then holds an entry for each id under the device and the inode
  number of the answer, and the attributes returned are those of the answer.
\<close>

theorem lookup_identifies_files:
  assumes "passthrough_ok n fs" and "n + 2 < 2 ^ 64 - 1"
    and "fs_lookup H p1 name1 (fs, w) = (Ok (i1, a1), fs1, w1)"
    and "fs_lookup H p2 name2 (fs1, w1) = (Ok (i2, a2), fs2, w2)"
  shows "\<exists>st1 st2 d1 d2. host_says H fs p1 name1 w = Some st1 \<and> host_says H fs1 p2 name2 w1 = Some st2 \<and>
     (i1 = i2 \<longleftrightarrow> st_dev st1 = st_dev st2 \<and> st_ino st1 = st_ino st2) \<and>
     by_id (inodes fs2) i1 = Some d1 \<and> ino_key d1 = \<lparr>key_dev = st_dev st1, key_ino = st_ino st1\<rparr> \<and>
     by_id (inodes fs2) i2 = Some d2 \<and> ino_key d2 = \<lparr>key_dev = st_dev st2, key_ino = st_ino st2\<rparr> \<and>
     a1 = attr_from_stat st1 \<and> a2 = attr_from_stat st2"
proof -
  have n: "n + 1 < 2 ^ 64 - 1" "n + 1 + 1 < 2 ^ 64 - 1"
    using assms(2) by auto
  have ok1: "passthrough_ok (n + 1) fs1"
    using fs_lookup_entry(1) [OF assms(1) n(1) assms(3)] .
  obtain d1 st1 where d1: "by_id (inodes fs1) i1 = Some d1" "host_says H fs p1 name1 w = Some st1"
      "ino_key d1 = \<lparr>key_dev = st_dev st1, key_ino = st_ino st1\<rparr>" "a1 = attr_from_stat st1"
    using fs_lookup_entry(2) [OF assms(1) n(1) assms(3)] by auto
  obtain d1' d2 st2 where d: "by_id (inodes fs2) i1 = Some d1'" "ino_key d1' = ino_key d1"
      "by_id (inodes fs2) i2 = Some d2" "host_says H fs1 p2 name2 w1 = Some st2"
      "ino_key d2 = \<lparr>key_dev = st_dev st2, key_ino = st_ino st2\<rparr>" "a2 = attr_from_stat st2"
    using fs_lookup_entry(2) [OF ok1 n(2) assms(4)]
      fs_lookup_entry(3) [OF ok1 n(2) assms(4) d1(1)] by auto
  have "inode_store_ok (inodes fs2)"
    using fs_lookup_entry(1) [OF ok1 n(2) assms(4)] by (simp add: passthrough_ok_def)
  from inode_store_okD(3) [OF this d(1)] inode_store_okD(3) [OF this d(3)]
  have "i1 = i2 \<longleftrightarrow> ino_key d1' = ino_key d2"
    using d by (metis option.inject)
  with d d1 show ?thesis by auto
qed

theorem lookup_identifies_files_witness:
  "\<exists>a fs1 w1 fs2 w2. fs_lookup mem_host 1 name_f (mem_fs, mem_world1) = (Ok (2, a), fs1, w1) \<and>
     fs_lookup mem_host 1 name_f (fs1, w1) = (Ok (2, a), fs2, w2) \<and> mw_closed w2 = [5] \<and>
     (\<exists>st1 st2. host_says mem_host mem_fs 1 name_f mem_world1 = Some st1 \<and>
        host_says mem_host fs1 1 name_f w1 = Some st2 \<and> st_dev st1 = st_dev st2 \<and> st_ino st1 = st_ino st2)"
proof -
  obtain a fs1 w1 fs2 w2 where
      run: "fs_lookup mem_host 1 name_f (mem_fs, mem_world1) = (Ok (2, a), fs1, w1)"
        "fs_lookup mem_host 1 name_f (fs1, w1) = (Ok (2, a), fs2, w2)" "mw_closed w2 = [5]"
    by (simp add: fs_lookup_def engine_eval)
  have "passthrough_ok 2 mem_fs"
    using mem_passthrough_new by (rule passthrough_ok_new)
  from lookup_identifies_files [OF this _ run(1,2)] run show ?thesis by auto
qed

text \<open>
  C17. An id the client does not hold, because it was never given out or because its last
  reference was forgotten, is refused by every operation that takes one except \<open>forget\<close>, also
  as the new parent of \<open>rename\<close> and \<open>link\<close>: the answer is \<open>UnknownInode\<close>, which is sent as
  \<open>EBADF\<close>, with no system call made and the engine unchanged. If both ids of \<open>rename\<close> or
  \<open>link\<close> are unknown, the answer names the first. \<open>forget\<close> has no way to fail: on such an id it
  does nothing.
\<close>

theorem unknown_inode_is_refused:
  assumes "by_id (inodes fs) i = None"
  shows "fs_lookup H i name (fs, w) = (Err (UnknownInode i), fs, w) \<and>
    fs_getattr H i (fs, w) = (Err (UnknownInode i), fs, w) \<and>
    fs_setattr H i a (fs, w) = (Err (UnknownInode i), fs, w) \<and>
    fs_mkdir H i name mode (fs, w) = (Err (UnknownInode i), fs, w) \<and>
    fs_create H i name flags mode (fs, w) = (Err (UnknownInode i), fs, w) \<and>
    fs_unlink H i name (fs, w) = (Err (UnknownInode i), fs, w) \<and>
    fs_rmdir H i name (fs, w) = (Err (UnknownInode i), fs, w) \<and>
    fs_rename H i name j name' (fs, w) = (Err (UnknownInode i), fs, w) \<and>
    fs_rename H j name i name' (fs, w) =
      (Err (UnknownInode (if by_id (inodes fs) j = None then j else i)), fs, w) \<and>
    fs_symlink H i name path (fs, w) = (Err (UnknownInode i), fs, w) \<and>
    fs_readlink H i (fs, w) = (Err (UnknownInode i), fs, w) \<and>
    fs_link H i j name (fs, w) = (Err (UnknownInode i), fs, w) \<and>
    fs_link H j i name (fs, w) =
      (Err (UnknownInode (if by_id (inodes fs) j = None then j else i)), fs, w) \<and>
    fs_open H i flags (fs, w) = (Err (UnknownInode i), fs, w) \<and>
    fs_opendir H i (fs, w) = (Err (UnknownInode i), fs, w) \<and>
    fs_statfs H i (fs, w) = (Err (UnknownInode i), fs, w) \<and>
    fs_forget H i count (fs, w) = (Ok (), fs, w) \<and>
    fs_error_errno tbl (UnknownInode i) = tbl EBADF"
  using assms
  by (cases "by_id (inodes fs) j")
    (simp_all add: fs_lookup_def fs_getattr_def fs_setattr_def fs_mkdir_def fs_create_def
      fs_unlink_def fs_rmdir_def fs_rename_def fs_symlink_def fs_readlink_def fs_link_def fs_open_def
      fs_opendir_def fs_statfs_def fs_forget_def inode_store_forget_def reopen_via_parent_def fs_bind_def
      fs_inode_def inode_store_get_def)

theorem unknown_inode_is_refused_witness:
  "by_id (inodes mem_fs) 2 = None \<and>
   fs_getattr mem_host 2 (mem_fs, mem_world1) = (Err (UnknownInode 2), mem_fs, mem_world1) \<and>
   fs_rename mem_host 1 name_f 2 name_f (mem_fs, mem_world1) = (Err (UnknownInode 2), mem_fs, mem_world1) \<and>
   fs_forget mem_host 2 1 (mem_fs, mem_world1) = (Ok (), mem_fs, mem_world1)"
proof -
  have "by_id (inodes mem_fs) 2 = None" "by_id (inodes mem_fs) 1 \<noteq> None"
    by (simp_all add: mem_fs_def inode_store_new_def ROOT_ID_def)
  with unknown_inode_is_refused [OF this(1), of mem_host name_f mem_world1 _ _ _ 1 name_f _ 1] show ?thesis by simp
qed

section \<open>Handles\<close>

text \<open>
  C16. A handle id is never issued twice: over any sequence of insertions and removals on a new
  handle table, the ids issued are pairwise different, none is 0, and the table stays well formed.
\<close>

theorem handles_never_reissued:
  assumes "length ops < 2 ^ 64 - 1"
    and "table_run (handle_table_ins H) handle_table_rem ops (handle_store_new, w) = (hs, s', w')"
  shows "distinct hs \<and> 0 \<notin> set hs \<and> handle_store_ok s'"
proof -
  have "handle_store_ok handle_store_new" "unat (handle_next_id handle_store_new) = 1"
    by (simp_all add: handle_store_ok_new) (simp add: handle_store_new_def)
  then show ?thesis
    using handle_table.run_issues_fresh [of "(handle_store_new, w)" ops H hs "(s', w')"] assms
    by fastforce
qed

theorem handles_never_reissued_witness:
  "\<exists>s' w'. table_run (handle_table_ins mem_host) handle_table_rem
      [Ins (FileHandle 7), Rem 1, Ins (DirHandle 7)] (handle_store_new, mem_world1) = ([1, 2], s', w') \<and>
     handle_store_ok s'"
proof -
  obtain s' w' where run: "table_run (handle_table_ins mem_host) handle_table_rem
      [Ins (FileHandle 7), Rem 1, Ins (DirHandle 7)] (handle_store_new, mem_world1) = ([1, 2], s', w')"
    by (simp add: handle_table_ins_def handle_table_rem_def handle_store_insert_def
        handle_store_remove_def handle_store_new_def Let_def)
  with handles_never_reissued [OF _ run] show ?thesis by auto
qed

text \<open>
  C18. A handle the client does not hold is refused with \<open>UnknownHandle\<close> (\<open>EBADF\<close>) by every
  operation on handles, and one of the wrong kind with \<open>InvalidArgument\<close> (\<open>EINVAL\<close>) by every
  operation that reads, writes, syncs or lists, the vectored ones included; no system call is
  made then, and neither the engine nor the guest's memory changes. \<open>release\<close> and
  \<open>releasedir\<close> do not look at the kind: each drops a handle of either kind and closes its
  descriptor.
\<close>

theorem wrong_handle_is_refused:
  "(handle_map (handles fs) h = None \<longrightarrow>
      fs_read H h off sz (fs, w) = (Err (UnknownHandle h), fs, w) \<and>
      fs_write H h off b (fs, w) = (Err (UnknownHandle h), fs, w) \<and>
      fs_read_vectored H h off iov fs (m, w) = (Err (UnknownHandle h), m, w) \<and>
      fs_write_vectored H h off iov m (fs, w) = (Err (UnknownHandle h), fs, w) \<and>
      fs_fsync H h (fs, w) = (Err (UnknownHandle h), fs, w) \<and>
      fs_readdir H h (fs, w) = (Err (UnknownHandle h), fs, w) \<and>
      fs_release H h (fs, w) = (Err (UnknownHandle h), fs, w) \<and>
      fs_releasedir H h (fs, w) = (Err (UnknownHandle h), fs, w)) \<and>
   (handle_map (handles fs) h = Some (DirHandle d) \<longrightarrow>
      (\<exists>msg. fs_read H h off sz (fs, w) = (Err (InvalidArgument msg), fs, w) \<and>
        fs_write H h off b (fs, w) = (Err (InvalidArgument msg), fs, w) \<and>
        fs_read_vectored H h off iov fs (m, w) = (Err (InvalidArgument msg), m, w) \<and>
        fs_write_vectored H h off iov m (fs, w) = (Err (InvalidArgument msg), fs, w) \<and>
        fs_fsync H h (fs, w) = (Err (InvalidArgument msg), fs, w))) \<and>
   (handle_map (handles fs) h = Some (FileHandle d) \<longrightarrow>
      (\<exists>msg. fs_readdir H h (fs, w) = (Err (InvalidArgument msg), fs, w))) \<and>
   (handle_map (handles fs) h = Some (FileHandle d) \<or> handle_map (handles fs) h = Some (DirHandle d) \<longrightarrow>
      (\<exists>fs'. fs_release H h (fs, w) = (Ok (), fs', sys_close H d w) \<and>
        fs_releasedir H h (fs, w) = (Ok (), fs', sys_close H d w) \<and>
        inodes fs' = inodes fs \<and> handle_map (handles fs') = (handle_map (handles fs))(h := None))) \<and>
   fs_error_errno tbl (UnknownHandle h) = tbl EBADF \<and> fs_error_errno tbl (InvalidArgument msg') = tbl EINVAL"
proof -
  have "\<exists>fs'. fs_release H h (fs, w) = (Ok (), fs', sys_close H d w) \<and>
      fs_releasedir H h (fs, w) = (Ok (), fs', sys_close H d w) \<and>
      inodes fs' = inodes fs \<and> handle_map (handles fs') = (handle_map (handles fs))(h := None)"
    if "handle_map (handles fs) h = Some (FileHandle d) \<or> handle_map (handles fs) h = Some (DirHandle d)"
    using that by (auto simp: fs_release_def fs_releasedir_def fs_drop_handle_def handle_store_remove_def)
  then show ?thesis
    by (simp_all add: fs_read_def fs_write_def fs_read_vectored_def fs_write_vectored_def fs_fsync_def fs_readdir_def
        fs_release_def fs_releasedir_def fs_with_file_def fs_drop_handle_def handle_store_remove_def
        handle_store_with_file_def handle_store_with_dir_def fun_upd_idem)
qed

theorem wrong_handle_is_refused_witness:
  "fs_read mem_host 1 0 5 (mem_fs, mem_world1) = (Err (UnknownHandle 1), mem_fs, mem_world1) \<and>
   fs_release mem_host 1 (mem_fs, mem_world1) = (Err (UnknownHandle 1), mem_fs, mem_world1) \<and>
   (\<exists>msg. fs_read mem_host 1 0 5 (mem_fs\<lparr>handles := \<lparr>handle_map = [1 \<mapsto> DirHandle 7], handle_next_id = 2\<rparr>\<rparr>, mem_world1) =
      (Err (InvalidArgument msg), mem_fs\<lparr>handles := \<lparr>handle_map = [1 \<mapsto> DirHandle 7], handle_next_id = 2\<rparr>\<rparr>, mem_world1))"
proof -
  have "handle_map (handles mem_fs) 1 = None"
    by (simp add: mem_fs_def handle_store_new_def)
  with wrong_handle_is_refused [of mem_fs 1 mem_host 0 5 mem_world1]
    wrong_handle_is_refused [of "mem_fs\<lparr>handles := \<lparr>handle_map = [1 \<mapsto> DirHandle 7], handle_next_id = 2\<rparr>\<rparr>"
      1 mem_host 0 5 mem_world1 _ _ _ 7]
  show ?thesis by fastforce
qed

end
