(* ===== verification/Engine_Limits.thy ===== *)
theory Engine_Limits
  imports Dispatch Mem_Host
begin

text \<open>
  What requests do to the files and to the table of inodes beyond the ids: what was written is
  read back, a rename moves the recorded location, and an empty \<open>SETATTR\<close> changes nothing; then
  the places where the bookkeeping falls behind the file system, a flag is ignored or a name is
  not confined.
\<close>

section \<open>Reading back what was written\<close>

text \<open>
  The documented behaviour of a regular file: what \<open>pwrite\<close> took at an offset is what a
  \<open>pread\<close> that follows at that offset returns. It holds for a descriptor that is open for
  reading and writing and not in append mode, where \<open>pwrite\<close> appends whatever its offset;
  \<open>rdwr\<close> says which descriptors are such in a world.
\<close>

definition read_after_write :: "'w host \<Rightarrow> (fd \<Rightarrow> 'w \<Rightarrow> bool) \<Rightarrow> bool" where
  "read_after_write H rdwr \<longleftrightarrow> (\<forall>d b off w n w'. rdwr d w \<longrightarrow> sys_pwrite H d b off w = (Inr n, w') \<longrightarrow>
     (\<forall>sz \<le> n. \<exists>w''. sys_pread H d sz off w' = (Inr (take sz b), w'')))"

text \<open>The bodies of the two requests, as the guest's kernel lays them out.\<close>

definition write_body :: "u64 \<Rightarrow> u64 \<Rightarrow> bytes \<Rightarrow> bytes" where
  "write_body fh off data =
     le64 fh @ le64 off @ le32 (of_nat (length data)) @ le32 0 @ le64 0 @ le32 0 @ le32 0 @ data"

definition read_body :: "u64 \<Rightarrow> u64 \<Rightarrow> u32 \<Rightarrow> bytes" where
  "read_body fh off sz = le64 fh @ le64 off @ le32 sz @ replicate 20 0"

lemma write_body_parses:
  assumes "length data < 2 ^ 32"
  shows "write_in_from_bytes (write_body fh off data) =
      Ok (\<lparr>write_fh = fh, write_offset = off, write_size = of_nat (length data)\<rparr>, data)"
    and "unat (of_nat (length data) :: u32) = length data"
proof -
  have "rust_slice (write_body fh off data)"
    using assms by (simp add: rust_slice_def write_body_def)
  then show "write_in_from_bytes (write_body fh off data) =
      Ok (\<lparr>write_fh = fh, write_offset = off, write_size = of_nat (length data)\<rparr>, data)"
    by (simp add: write_in_from_bytes_eq) (simp add: write_body_def word_at_append_right)
  show "unat (of_nat (length data) :: u32) = length data"
    using assms by (simp add: unat_of_nat)
qed

lemma read_body_parses:
  "read_in_from_bytes (read_body fh off sz) = Ok \<lparr>read_fh = fh, read_offset = off, read_size = sz\<rparr>"
proof -
  have "rust_slice (read_body fh off sz)" by (simp add: rust_slice_def read_body_def)
  then show ?thesis
    by (simp add: read_in_from_bytes_eq) (simp add: read_body_def word_at_append_right)
qed

lemma handle_op_write:
  assumes "length data < 2 ^ 32" and "handle_map (handles (ses_fs s)) fh = Some (FileHandle d)"
    and "sys_pwrite H d data off w = (Inr n, w')"
  shows "handle_op H OpWrite u i (write_body fh off data) (s, w) =
    (Some (ok_reply u (write_out (of_nat n))), s, w')"
  using assms
  by (simp add: handle_op_defs write_body_parses try_parse_def try_fs_def fs_write_def fs_with_file_def
      handle_store_with_file_def done_reply_def)

lemma handle_op_read:
  assumes "handle_map (handles (ses_fs s)) fh = Some (FileHandle d)"
    and "sys_pread H d (unat sz) off w = (Inr data, w')"
  shows "handle_op H OpRead u i (read_body fh off sz) (s, w) = (Some (ok_reply u data), s, w')"
  using assms
  by (simp add: handle_op_defs read_body_parses try_parse_def try_fs_def fs_read_def fs_with_file_def
      handle_store_with_file_def done_reply_def)

text \<open>
  What a guest writes it reads back: a \<open>WRITE\<close> request on a file open for reading and writing, when the host accepts its bytes, is answered with their number, and a
  \<open>READ\<close> request that follows at the same offset, for no more than was written, is answered with
  those bytes.
\<close>

theorem reads_return_what_was_written:
  assumes "read_after_write H rdwr" and "rdwr d w" and "handle_map (handles (ses_fs s)) fh = Some (FileHandle d)"
    and "length data < 2 ^ 32" and "sys_pwrite H d data off w = (Inr n, w1)" and "unat sz \<le> n"
  shows "handle_op H OpWrite u1 i (write_body fh off data) (s, w) =
       (Some (ok_reply u1 (write_out (of_nat n))), s, w1) \<and>
     (\<exists>w2. handle_op H OpRead u2 i (read_body fh off sz) (s, w1) =
       (Some (ok_reply u2 (take (unat sz) data)), s, w2))"
proof -
  obtain w2 where "sys_pread H d (unat sz) off w1 = (Inr (take (unat sz) data), w2)"
    using assms(1,2,5,6) unfolding read_after_write_def by blast
  from handle_op_read [OF assms(3) this] show ?thesis
    by (simp add: handle_op_write [OF assms(4,3,5)])
qed

lemma mem_host_read_after_write: "read_after_write mem_host (\<lambda>d w. mw_file w \<noteq> None)"
  by (auto simp: read_after_write_def mem_pwrite_def mem_pread_def split: option.splits)

theorem reads_return_what_was_written_witness:
  "\<exists>a fs1 w1 fs2 w2 w3 w4. fs_lookup mem_host 1 name_f (mem_fs, mem_world1) = (Ok (2, a), fs1, w1) \<and>
     fs_open mem_host 2 2 (fs1, w1) = (Ok 1, fs2, w2) \<and>
     handle_op mem_host OpWrite 8 2 (write_body 1 2 [33, 34]) (session_new fs2, w2) =
       (Some (ok_reply 8 (write_out 2)), session_new fs2, w3) \<and>
     handle_op mem_host OpRead 9 2 (read_body 1 2 1) (session_new fs2, w3) =
       (Some (ok_reply 9 [33]), session_new fs2, w4)"
proof -
  obtain a fs1 w1 fs2 w2 w3 d where
      run: "fs_lookup mem_host 1 name_f (mem_fs, mem_world1) = (Ok (2, a), fs1, w1)"
        "fs_open mem_host 2 2 (fs1, w1) = (Ok 1, fs2, w2)"
      and d: "handle_map (handles fs2) 1 = Some (FileHandle d)"
        "sys_pwrite mem_host d [33, 34] 2 w2 = (Inr 2, w3)" "mw_file w2 \<noteq> None"
    by (simp add: fs_lookup_def fs_open_def reopen_via_parent_def parent_fd_name_def engine_eval
        fs_insert_handle_def handle_store_insert_def handle_store_new_def mem_pwrite_def)
  from reads_return_what_was_written [OF mem_host_read_after_write d(3) _ _ d(2), of "session_new fs2" 1 1 8 2 9] d(1)
  obtain w4 where "handle_op mem_host OpWrite 8 2 (write_body 1 2 [33, 34]) (session_new fs2, w2) =
       (Some (ok_reply 8 (write_out 2)), session_new fs2, w3)"
     "handle_op mem_host OpRead 9 2 (read_body 1 2 1) (session_new fs2, w3) =
       (Some (ok_reply 9 [33]), session_new fs2, w4)"
    by (auto simp: session_new_def)
  with run show ?thesis by blast
qed

section \<open>Renames\<close>

text \<open>A hash map's iterator visits every entry, in some order (\<open>HashMap::values\<close>).\<close>

definition visits_all :: "'w host \<Rightarrow> bool" where
  "visits_all H \<longleftrightarrow> (\<forall>S. finite S \<longrightarrow> set (hash_order H S) = S)"

lemma mem_host_visits_all: "visits_all mem_host"
  by (simp add: visits_all_def)

text \<open>The only inode recorded at a location.\<close>

definition alone_at :: "inode_store \<Rightarrow> u64 \<Rightarrow> bytes \<Rightarrow> u64 \<Rightarrow> bool" where
  "alone_at s parent name i \<longleftrightarrow> at_location s parent name i \<and> (\<forall>j. at_location s parent name j \<longrightarrow> j = i)"

lemma note_rename_alone:
  assumes "visits_all H" and "alone_at s p nm i"
  shows "inode_store_note_rename H p nm np nn s =
    s\<lparr>by_id := (by_id s)(i := map_option (inode_set_location np nn) (by_id s i))\<rparr>"
proof -
  let ?order = "hash_order H (dom (by_id s))"
  have "i \<in> set ?order"
    using assms by (simp add: visits_all_def alone_at_def at_location_def domIff split: option.splits)
  moreover have "at_location s p nm i" using assms(2) by (simp add: alone_at_def)
  ultimately obtain j where j: "find (at_location s p nm) ?order = Some j"
    by (metis find_None_iff not_None_eq)
  then have "at_location s p nm j" by (metis find_Some_iff)
  with assms(2) have "j = i" by (simp add: alone_at_def)
  with j show ?thesis by (simp add: inode_store_note_rename_def)
qed

lemma fs_bind_Ok:
  "fs_bind m f \<sigma> = (Ok v, \<sigma>') \<longleftrightarrow> (\<exists>u \<sigma>1. m \<sigma> = (Ok u, \<sigma>1) \<and> f u \<sigma>1 = (Ok v, \<sigma>'))"
  by (cases "m \<sigma>"; cases "fst (m \<sigma>)") (auto simp: fs_bind_def)

lemma fs_pure_Ok:
  "fs_inode i \<sigma> = (Ok d, \<sigma>') \<longleftrightarrow> by_id (inodes (fst \<sigma>)) i = Some d \<and> \<sigma>' = \<sigma>"
  "fs_lift (to_cstring name) \<sigma> = (Ok c, \<sigma>') \<longleftrightarrow> 0 \<notin> set name \<and> c = name \<and> \<sigma>' = \<sigma>"
  by (cases \<sigma>; auto simp: fs_inode_def inode_store_get_def ok_or_def fs_lift_def to_cstring_def split: option.splits)+

lemma fs_sys_Ok: "fs_sys H call (fs, w) = (Ok v, \<sigma>') \<longleftrightarrow> (\<exists>w'. call w = (Inr v, w') \<and> \<sigma>' = (fs, w'))"
  by (auto simp: fs_sys_def split: prod.splits sum.splits)

lemma fs_rename_OkE:
  assumes "fs_rename H p nm np nn (fs, w) = (Ok (), fs', w')"
  obtains dp where "by_id (inodes fs) np = Some dp" "0 \<notin> set nn"
    "fs' = fs\<lparr>inodes := inode_store_note_rename H p nm np nn (inodes fs)\<rparr>"
  using assms by (auto simp: fs_rename_def fs_bind_Ok fs_pure_Ok fs_sys_Ok fs_note_rename_def)

text \<open>Opening an inode is opening its recorded name in its recorded parent.\<close>

lemma reopen_at:
  assumes "by_id (inodes fs) i = Some d" and "i \<noteq> ROOT_ID" and "ino_parent d = Some p"
    and "by_id (inodes fs) p = Some dp" and "0 \<notin> set (ino_name d)"
  shows "reopen_via_parent H i flags (fs, w) = fs_sys H (sys_openat H (ino_fd dp) (ino_name d) flags None) (fs, w)"
  using assms
  by (simp add: reopen_via_parent_def parent_fd_name_def fs_bind_def fs_inode_def inode_store_get_def
      fs_lift_def to_cstring_def fs_return_def)

text \<open>
  C29. A rename that succeeds moves the file's recorded location: when one inode is recorded
  under the old name, it is recorded under the new one afterwards, nothing else in the engine
  changes, and opening it opens the new name in the new parent.
\<close>

theorem rename_moves_the_file:
  assumes "visits_all H" and "fs_rename H p nm np nn (fs, w) = (Ok (), fs', w')"
    and "alone_at (inodes fs) p nm i" and "by_id (inodes fs) i = Some d" and "i \<noteq> ROOT_ID"
  shows "fs' = fs\<lparr>inodes := (inodes fs)\<lparr>by_id := (by_id (inodes fs))(i \<mapsto> d\<lparr>ino_parent := Some np, ino_name := nn\<rparr>)\<rparr>\<rparr> \<and>
    (\<exists>dp. by_id (inodes fs) np = Some dp \<and>
      reopen_via_parent H i flags (fs', w'') = fs_sys H (sys_openat H (ino_fd dp) nn flags None) (fs', w''))"
proof -
  obtain dp where dp: "by_id (inodes fs) np = Some dp" "0 \<notin> set nn"
      "fs' = fs\<lparr>inodes := inode_store_note_rename H p nm np nn (inodes fs)\<rparr>"
    using assms(2) by (rule fs_rename_OkE)
  have fs': "fs' = fs\<lparr>inodes := (inodes fs)\<lparr>by_id := (by_id (inodes fs))(i \<mapsto> d\<lparr>ino_parent := Some np, ino_name := nn\<rparr>)\<rparr>\<rparr>"
    using dp(3) assms(4) by (simp add: note_rename_alone [OF assms(1,3)] inode_set_location_def)
  obtain dp' where "by_id (inodes fs') np = Some dp'" "ino_fd dp' = ino_fd dp"
    using dp(1) assms(4) by (cases "np = i") (auto simp: fs')
  moreover have "by_id (inodes fs') i = Some (d\<lparr>ino_parent := Some np, ino_name := nn\<rparr>)"
    by (simp add: fs')
  ultimately have "reopen_via_parent H i flags (fs', w'') = fs_sys H (sys_openat H (ino_fd dp) nn flags None) (fs', w'')"
    using reopen_at [of fs' i _ np dp' H flags w''] assms(5) dp(2) by simp
  with fs' dp(1) show ?thesis by blast
qed

text \<open>A host with any number of empty files, each a file of its own.\<close>

definition many_files :: "mem_world host" where
  "many_files = mem_host\<lparr>sys_fstatat := (\<lambda>d name flags w. (Inr (mem_stat (ucast (hd name)) 0x81A4 0), w)),
     sys_openat := (\<lambda>d name flags mode. mem_new_fd), sys_renameat := (\<lambda>d name d' name' w. (Inr (), w))\<rparr>"

lemma many_files_sel [simp]:
  "sys_fstatat many_files d name flags w = (Inr (mem_stat (ucast (hd name)) 0x81A4 0), w)"
  "sys_openat many_files d name fl mode = mem_new_fd" "sys_renameat many_files d name d' name' w = (Inr (), w)"
  "hash_order many_files = sorted_list_of_set" "target many_files = Linux" "oflag many_files = mem_oflag"
  "sys_linkat many_files = sys_linkat mem_host" "sys_fstat many_files = sys_fstat mem_host"
  "sys_close many_files = sys_close mem_host"
  by (simp_all add: many_files_def)

text \<open>Two files looked up, \<open>f\<close> as inode 2 and \<open>g\<close> as inode 3.\<close>

definition fs_two :: passthrough_fs where
  "fs_two = fst (snd (fs_lookup many_files 1 [103] (snd (fs_lookup many_files 1 name_f (mem_fs, mem_world1)))))"

lemma fs_two_entries:
  "inodes fs_two =
     \<lparr>by_id = [1 \<mapsto> \<lparr>ino_id = 1, ino_fd = 3, ino_kind = Dir, ino_key = stat_key root_stat, ino_parent = None,
                ino_name = [], ino_lookups = 1\<rparr>,
        2 \<mapsto> \<lparr>ino_id = 2, ino_fd = 4, ino_kind = Regular, ino_key = \<lparr>key_dev = 1, key_ino = 102\<rparr>, ino_parent = Some 1,
                ino_name = [102], ino_lookups = 1\<rparr>,
        3 \<mapsto> \<lparr>ino_id = 3, ino_fd = 5, ino_kind = Regular, ino_key = \<lparr>key_dev = 1, key_ino = 103\<rparr>, ino_parent = Some 1,
                ino_name = [103], ino_lookups = 1\<rparr>],
      by_key = [stat_key root_stat \<mapsto> 1, \<lparr>key_dev = 1, key_ino = 102\<rparr> \<mapsto> 2, \<lparr>key_dev = 1, key_ino = 103\<rparr> \<mapsto> 3],
      ino_next_id = 4\<rparr>"
  by (simp add: fs_two_def fs_lookup_def engine_eval file_kind_from_mode_def S_IF_defs)

lemma fs_two_rename:
  "\<exists>fs'. fs_rename many_files 1 name_f 1 [103] (fs_two, mem_world1) = (Ok (), fs', mem_world1)"
  by (simp add: fs_rename_def engine_eval fs_two_entries fs_note_rename_def)

lemma fs_two_alone: "alone_at (inodes fs_two) 1 name_f 2"
  by (auto simp: alone_at_def at_location_def fs_two_entries split: option.splits if_splits)

theorem rename_moves_the_file_witness:
  "\<exists>fs'. fs_rename many_files 1 name_f 1 [103] (fs_two, mem_world1) = (Ok (), fs', mem_world1) \<and>
     map_option ino_name (by_id (inodes fs') 2) = Some [103]"
proof -
  obtain fs' where r: "fs_rename many_files 1 name_f 1 [103] (fs_two, mem_world1) = (Ok (), fs', mem_world1)"
    using fs_two_rename by blast
  have "visits_all many_files" by (simp add: visits_all_def)
  from rename_moves_the_file [OF this r fs_two_alone, of _ 0 mem_world1] r show ?thesis
    by (auto simp: fs_two_entries ROOT_ID_def)
qed

text \<open>
  C34. A rename onto a name another inode is recorded under leaves both recorded there: the
  replaced file keeps its id and its location. From then on, opening either id opens the same
  name, so the replaced file's id opens the file that replaced it, while its attributes are still
  those of its own descriptor.
\<close>

theorem rename_leaves_two_at_one_name:
  assumes "visits_all H" and "fs_rename H p nm np nn (fs, w) = (Ok (), fs', w')"
    and "alone_at (inodes fs) p nm i" and "at_location (inodes fs) np nn j"
    and "i \<noteq> j" and "i \<noteq> ROOT_ID" and "j \<noteq> ROOT_ID"
  shows "at_location (inodes fs') np nn i \<and> at_location (inodes fs') np nn j \<and>
    fs_open H j flags (fs', w'') = fs_open H i flags (fs', w'') \<and>
    by_id (inodes fs') j = by_id (inodes fs) j"
proof -
  obtain dp where dp: "by_id (inodes fs) np = Some dp" "0 \<notin> set nn"
      "fs' = fs\<lparr>inodes := inode_store_note_rename H p nm np nn (inodes fs)\<rparr>"
    using assms(2) by (rule fs_rename_OkE)
  obtain d e where d: "by_id (inodes fs) i = Some d" and e: "by_id (inodes fs) j = Some e" "ino_parent e = Some np" "ino_name e = nn"
    using assms(3,4) by (auto simp: alone_at_def at_location_def split: option.splits)
  have fs': "by_id (inodes fs') = (by_id (inodes fs))(i \<mapsto> inode_set_location np nn d)"
    by (simp add: dp(3) note_rename_alone [OF assms(1,3)] d)
  obtain dp' where "by_id (inodes fs') np = Some dp'"
    using dp(1) by (cases "np = i") (auto simp: fs')
  then have "reopen_via_parent H k flags (fs', w'') = fs_sys H (sys_openat H (ino_fd dp') nn flags None) (fs', w'')"
    if "k = i \<or> k = j" for k
    using that reopen_at [of fs' i "inode_set_location np nn d" np dp' H flags w''] reopen_at [of fs' j e np dp' H flags w'']
      assms(5,6,7) dp(2) e by (auto simp: fs' inode_set_location_def)
  then have "fs_open H j flags (fs', w'') = fs_open H i flags (fs', w'')"
    by (simp add: fs_open_def fs_bind_def)
  then show ?thesis
    using assms(5) e by (simp add: at_location_def fs' inode_set_location_def)
qed

theorem rename_leaves_two_at_one_name_witness:
  "\<exists>fs'. fs_rename many_files 1 name_f 1 [103] (fs_two, mem_world1) = (Ok (), fs', mem_world1) \<and>
     fs_open many_files 3 0 (fs', mem_world1) = fs_open many_files 2 0 (fs', mem_world1) \<and>
     by_id (inodes fs') 3 = by_id (inodes fs_two) 3"
proof -
  obtain fs' where r: "fs_rename many_files 1 name_f 1 [103] (fs_two, mem_world1) = (Ok (), fs', mem_world1)"
    using fs_two_rename by blast
  have "visits_all many_files" "at_location (inodes fs_two) 1 [103] 3"
    by (simp_all add: visits_all_def at_location_def fs_two_entries)
  with rename_leaves_two_at_one_name [OF _ r fs_two_alone, of 3 0 mem_world1] r show ?thesis
    by (simp add: ROOT_ID_def)
qed

text \<open>
  The flags of \<open>RENAME2\<close> have no effect: whatever they are, the request does what
  \<open>RENAME\<close> does with the same directory and names, so \<open>RENAME_NOREPLACE\<close> replaces and
  \<open>RENAME_EXCHANGE\<close> does not exchange.
\<close>

theorem rename_flags_are_ignored:
  assumes "0 \<notin> set a" and "0 \<notin> set b" and "rust_slice (replicate 16 0 @ a @ 0 # b @ [0])"
  shows "handle_op H OpRename2 u i (le64 d @ le32 flags @ le32 pad @ a @ 0 # b @ [0]) =
    handle_op H OpRename u i (le64 d @ a @ 0 # b @ [0])"
proof -
  have slices: "rust_slice (le64 d @ a @ 0 # b @ [0])" "rust_slice (le64 d @ le32 flags @ le32 pad @ a @ 0 # b @ [0])"
    using assms(3) by (simp_all add: rust_slice_def)
  have "two_cstrs_at 8 (le64 d @ a @ 0 # b @ [0]) = Some (a, b)"
      "two_cstrs_at 16 (le64 d @ le32 flags @ le32 pad @ a @ 0 # b @ [0]) = Some (a, b)"
    using two_cstrs_at_append [OF assms(1,2), of "le64 d" 8 "[]"]
      two_cstrs_at_append [OF assms(1,2), of "le64 d @ le32 flags @ le32 pad" 16 "[]"] by simp_all
  then have "rename_in_from_bytes_v2 (le64 d @ le32 flags @ le32 pad @ a @ 0 # b @ [0]) =
      rename_in_from_bytes (le64 d @ a @ 0 # b @ [0])"
    by (simp add: rename_in_from_bytes_eq rename_in_from_bytes_v2_eq slices)
  then show ?thesis by (simp add: handle_op_defs)
qed

theorem rename_flags_are_ignored_witness:
  "handle_op mem_host OpRename2 7 1 (le64 1 @ le32 1 @ le32 0 @ [102] @ 0 # [103] @ [0]) =
   handle_op mem_host OpRename 7 1 (le64 1 @ [102] @ 0 # [103] @ [0])"
  by (rule rename_flags_are_ignored) (simp_all add: rust_slice_def)

section \<open>Links\<close>

lemma fs_getattr_Ok:
  "fs_getattr H i (fs, w) = (Ok a, \<sigma>') \<Longrightarrow> fst \<sigma>' = fs"
  by (auto simp: fs_getattr_def fs_bind_Ok fs_pure_Ok fs_sys_Ok fs_return_def)

lemma fs_link_keeps_tables:
  assumes "fs_link H i np nn (fs, w) = (Ok a, fs', w')"
  shows "fs' = fs"
  using assms fs_getattr_Ok [of H i fs _ a "(fs', w')"]
  by (auto simp: fs_link_def fs_bind_Ok fs_pure_Ok fs_sys_Ok parent_fd_name_def fs_return_def split: if_splits)

text \<open>
  C35. The entry a \<open>LINK\<close> request is answered with is a reference the table does not count: a
  file looked up once and then linked is known to the guest through two entry replies, but the
  table still holds one reference, and a \<open>FORGET\<close> of one drops the inode.
\<close>

theorem link_entry_is_not_counted:
  assumes "link_in_from_bytes body = Ok (l, name)" and "link_oldnodeid l \<noteq> ROOT_ID"
    and "by_id (inodes (ses_fs s)) (link_oldnodeid l) = Some d" and "ino_lookups d = 1"
    and "fs_link H (link_oldnodeid l) np name (ses_fs s, w) = (Ok a, fs', w')"
  shows "handle_op H OpLink u np body (s, w) =
      (Some (ok_reply u (entry_out (link_oldnodeid l) a)), s, w') \<and>
    (\<exists>fs2 w2. fs_forget H (link_oldnodeid l) 1 (ses_fs s, w') = (Ok (), fs2, w2) \<and>
      by_id (inodes fs2) (link_oldnodeid l) = None)"
proof -
  have "fs' = ses_fs s" using fs_link_keeps_tables [OF assms(5)] .
  then show ?thesis
    using assms
    by (simp add: handle_op_defs try_parse_def try_fs_def done_reply_def fs_forget_def inode_store_forget_def)
qed

theorem link_entry_is_not_counted_witness:
  "\<exists>a w1 w2 fs3 w3.
     handle_op many_files OpLink 7 1 (le64 2 @ [104, 0]) (session_new fs_two, mem_world1) =
       (Some (ok_reply 7 (entry_out 2 a)), session_new fs_two, w1) \<and>
     fs_forget many_files 2 1 (fs_two, w1) = (Ok (), fs3, w3) \<and> by_id (inodes fs3) 2 = None"
proof -
  have parse: "link_in_from_bytes (le64 2 @ [104, 0]) = Ok (\<lparr>link_oldnodeid = 2\<rparr>, [104])"
    using cstr_at_append [of "[104]" "le64 2" 8 "[]"] by (simp add: link_in_from_bytes_eq rust_slice_def)
  obtain a w1 where link: "fs_link many_files 2 1 [104] (fs_two, mem_world1) = (Ok a, fs_two, w1)"
    by (simp add: fs_link_def fs_getattr_def engine_eval fs_two_entries)
  obtain d where d: "by_id (inodes fs_two) 2 = Some d" "ino_lookups d = 1"
    by (simp add: fs_two_entries)
  have s: "ses_fs (session_new fs_two) = fs_two" by (simp add: session_new_def)
  have "handle_op many_files OpLink 7 1 (le64 2 @ [104, 0]) (session_new fs_two, mem_world1) =
       (Some (ok_reply 7 (entry_out 2 a)), session_new fs_two, w1) \<and>
     (\<exists>fs3 w3. fs_forget many_files 2 1 (fs_two, w1) = (Ok (), fs3, w3) \<and> by_id (inodes fs3) 2 = None)"
    using link_entry_is_not_counted [OF parse, of "session_new fs_two" d many_files 1 mem_world1 a fs_two w1 7]
      link d unfolding s by (simp add: ROOT_ID_def)
  then show ?thesis by blast
qed

section \<open>Names that leave the shared directory\<close>

lemma fs_bind_not_Err:
  assumes "\<And>\<sigma>. fst (m \<sigma>) \<noteq> Err e" and "\<And>v \<sigma>. fst (f v \<sigma>) \<noteq> Err e"
  shows "fst (fs_bind m f \<sigma>) \<noteq> Err e"
  using assms(1) [of \<sigma>] assms(2) by (auto simp: fs_bind_def split: prod.splits result.splits)

lemma register_not_Err: "fst (inode_store_register H p name d st s w) \<noteq> Err e"
  by (simp add: inode_store_register_def Let_def split: option.splits)

lemma open_child_not_path_escape: "fst (open_child H d name w) \<noteq> Err PathEscape"
  by (simp add: open_child_def fs_error_from_io_def Let_def split: prod.splits sum.splits)

lemma pure_not_path_escape:
  "fst (fs_inode i \<sigma>) \<noteq> Err PathEscape" "fst (fs_lift (to_cstring name) \<sigma>) \<noteq> Err PathEscape"
  "fst (fs_return v \<sigma>) \<noteq> Err PathEscape"
  by (simp_all add: fs_inode_def inode_store_get_def ok_or_def fs_lift_def to_cstring_def fs_return_def
      split: option.splits prod.splits)

lemma fs_open_child_not_path_escape: "fst (fs_open_child H d name \<sigma>) \<noteq> Err PathEscape"
  using open_child_not_path_escape [of H d name "snd \<sigma>"]
  by (cases \<sigma>; cases "open_child H d name (snd \<sigma>)") (simp add: fs_open_child_def)

lemma fs_register_not_path_escape: "fst (fs_register H p name d st \<sigma>) \<noteq> Err PathEscape"
  using register_not_Err [of H p name d st "inodes (fst \<sigma>)" "snd \<sigma>" PathEscape]
  by (cases \<sigma>; cases "inode_store_register H p name d st (inodes (fst \<sigma>)) (snd \<sigma>)") (simp add: fs_register_def)

lemma fs_lookup_not_path_escape: "fst (fs_lookup H p name \<sigma>) \<noteq> Err PathEscape"
proof -
  have "fst ((case v of (d, st) \<Rightarrow> fs_bind (fs_register H p name d st)
      (\<lambda>data. fs_return (ino_id data, attr_from_stat st))) \<sigma>) \<noteq> Err PathEscape" for v \<sigma>
    by (cases v) (simp add: fs_bind_not_Err fs_register_not_path_escape pure_not_path_escape)
  then show ?thesis
    unfolding fs_lookup_def
    by (intro fs_bind_not_Err pure_not_path_escape fs_open_child_not_path_escape)
qed

text \<open>
  C36. A lookup passes any name without a NUL byte to the host as it is, \<open>..\<close> and names with a
  slash included: where the host finds a file, the guest gets an id for it. No lookup is refused as
  a path that escapes the shared directory.
\<close>

theorem any_name_is_looked_up:
  assumes "passthrough_ok n fs" and "by_id (inodes fs) p = Some pd" and "0 \<notin> set name"
    and "open_child H (ino_fd pd) name w = (Ok (d, st), w1)"
  shows "(\<exists>i fs' w'. fs_lookup H p name (fs, w) = (Ok (i, attr_from_stat st), fs', w') \<and>
      (\<exists>data. by_id (inodes fs') i = Some data \<and> ino_key data = stat_key st)) \<and>
    fst (fs_lookup H p name' (fs, w)) \<noteq> Err PathEscape"
proof -
  have "inode_store_ok (inodes fs)" using assms(1) by (simp add: passthrough_ok_def)
  then obtain data s' w' where "inode_store_register H p name d st (inodes fs) w1 = (Ok data, s', w')"
      "by_id s' (ino_id data) = Some data" "ino_key data = stat_key st"
    using inode_store_register_no_panic [of "inodes fs" H p name d st w1] by blast
  then have "\<exists>i fs' w'. fs_lookup H p name (fs, w) = (Ok (i, attr_from_stat st), fs', w') \<and>
      (\<exists>data. by_id (inodes fs') i = Some data \<and> ino_key data = stat_key st)"
    using assms(2-4)
    by (simp add: fs_lookup_def fs_bind_def fs_inode_def inode_store_get_def fs_lift_def to_cstring_def
        fs_open_child_def fs_register_def fs_return_def)
  with fs_lookup_not_path_escape show ?thesis by blast
qed

theorem any_name_is_looked_up_witness:
  "\<exists>a fs' w'. fs_lookup many_files 1 [46, 46] (mem_fs, mem_world1) = (Ok (2, a), fs', w') \<and> attr_ino a = 46"
proof -
  obtain w1 where o: "open_child many_files 3 [46, 46] mem_world1 = (Ok (4, mem_stat 46 0x81A4 0), w1)"
    by (simp add: open_child_def mem_new_fd_def Let_def)
  have ok: "passthrough_ok 2 mem_fs" using mem_passthrough_new by (rule passthrough_ok_new)
  obtain pd where pd: "by_id (inodes mem_fs) 1 = Some pd" "ino_fd pd = 3"
    by (simp add: mem_fs_def inode_store_new_def ROOT_ID_def)
  have "\<exists>a fs' w'. fs_lookup many_files 1 [46, 46] (mem_fs, mem_world1) = (Ok (2, a), fs', w')"
    by (simp add: fs_lookup_def engine_eval)
  with any_name_is_looked_up [OF ok pd(1), of "[46, 46]" many_files mem_world1 4 "mem_stat 46 0x81A4 0" w1 "[46, 46]"] o pd(2)
  show ?thesis by (auto simp: attr_from_stat_def mem_stat_def)
qed

section \<open>Attributes\<close>

lemma fs_setattr_none: "fs_setattr H i set_attr_default = fs_getattr H i"
  by (rule ext) (simp add: fs_setattr_def set_attr_default_def fs_getattr_def fs_bind_def fs_return_def fs_inode_def
      split: prod.split result.split)

text \<open>
  A \<open>SETATTR\<close> request that sets none of the fields the daemon knows, whatever other bits its
  mask has, is answered like a \<open>GETATTR\<close> request and changes nothing more.
\<close>

theorem empty_setattr_is_getattr:
  assumes "setattr_in_from_bytes body = Ok sa" and "getattr_in_from_bytes body' = Ok g"
    and "\<forall>f \<in> {FATTR_MODE, FATTR_UID, FATTR_GID, FATTR_SIZE, FATTR_ATIME, FATTR_MTIME, FATTR_ATIME_NOW, FATTR_MTIME_NOW}.
       sa_valid sa AND f = 0"
  shows "handle_op H OpSetattr u i body = handle_op H OpGetattr u i body'"
proof -
  have "set_attr_default\<lparr>set_atime := None, set_mtime := None\<rparr> = set_attr_default"
    by (simp add: set_attr_default_def)
  then show ?thesis
    using assms
    by (simp add: handle_op_defs handle_setattr_def try_parse_def setattr_time_def Let_def bit_set_def fs_setattr_none)
qed

theorem empty_setattr_is_getattr_witness:
  "handle_op mem_host OpSetattr 7 1 (le32 64 @ replicate 80 0) = handle_op mem_host OpGetattr 7 1 (replicate 16 0)"
proof -
  have "rust_slice (le32 64 @ replicate 80 0)" "rust_slice (replicate 16 0 :: bytes)" by (simp_all add: rust_slice_def)
  then obtain sa g where "setattr_in_from_bytes (le32 64 @ replicate 80 0) = Ok sa" "sa_valid sa = 64"
      "getattr_in_from_bytes (replicate 16 0) = Ok g"
    by (simp add: setattr_in_from_bytes_eq getattr_in_from_bytes_eq)
  with empty_setattr_is_getattr [of "le32 64 @ replicate 80 0" sa "replicate 16 0" g mem_host 7 1] show ?thesis
    by (simp add: FATTR_MODE_def FATTR_UID_def FATTR_GID_def FATTR_SIZE_def FATTR_ATIME_def FATTR_MTIME_def
        FATTR_ATIME_NOW_def FATTR_MTIME_NOW_def)
qed

end
