(* ===== verification/Readdir_Paging.thy ===== *)
theory Readdir_Paging
  imports Dispatch Mem_Host
begin

text \<open>
  Directory listings in pages. \<open>READDIR\<close> fills a reply with as many entries as fit and the
  client asks for the next page with the offset of the last entry it got. A reference decoder
  for the wire format (\<open>struct fuse_dirent\<close>) and the client's loop are defined here; the lemmas
  show that each page holds a whole number of entries and no more bytes than were asked for,
  and that the pages put together are the listing, every entry once and in order.
\<close>

section \<open>One page\<close>

definition dirent_size :: "dir_entry \<Rightarrow> nat" where
  "dirent_size e = (24 + length (dent_name e) + 7) div 8 * 8"

definition dirent_bytes :: "nat \<times> dir_entry \<Rightarrow> bytes" where
  "dirent_bytes = (\<lambda>(i, e).
     le64 (dent_ino e) @ le64 (of_nat (i + 1)) @ le32 (of_nat (length (dent_name e)))
     @ le32 (dt_type (dent_kind e)) @ dent_name e
     @ replicate (dirent_size e - (24 + length (dent_name e))) 0)"

text \<open>How many of the entries fit, one after the other, in so many bytes.\<close>

fun fitting :: "nat \<Rightarrow> dir_entry list \<Rightarrow> nat" where
  "fitting n [] = 0"
| "fitting n (e # es) = (if dirent_size e \<le> n then Suc (fitting (n - dirent_size e) es) else 0)"

lemma dirent_size_ge: "24 + length (dent_name e) \<le> dirent_size e"
  by (simp add: dirent_size_def)

lemma dirent_size_pos [simp]: "0 < dirent_size e"
  using dirent_size_ge [of e] by linarith

lemma length_dirent_bytes [simp]: "length (dirent_bytes (i, e)) = dirent_size e"
  using dirent_size_ge [of e] by (simp add: dirent_bytes_def)

lemma push_dirent_eq:
  "push_dirent out remaining (dent_ino e) (of_nat (i + 1)) (dt_type (dent_kind e)) (dent_name e) =
     (if dirent_size e \<le> remaining then (True, out @ dirent_bytes (i, e)) else (False, out))"
  by (simp add: push_dirent_def Let_def dirent_bytes_def dirent_size_def)

lemma remaining_eq:
  fixes sz :: u32
  assumes "m \<le> unat sz"
  shows "unat (ucast sz - of_nat m :: u64) = unat sz - m"
proof -
  have sz: "unat sz < 2 ^ 32"
    using unsigned_less [of sz] by simp
  then have "unat (ucast sz :: u64) = unat sz" "unat (of_nat m :: u64) = m"
    using assms by (simp_all add: unsigned_ucast_eq unsigned_of_nat take_bit_nat_eq_self)
  with assms show ?thesis by (simp add: unat_sub word_le_nat_alt)
qed

lemma readdir_fill_eq:
  assumes "length out \<le> unat sz"
  shows "readdir_fill sz xs out =
     out @ concat (map dirent_bytes (take (fitting (unat sz - length out) (map snd xs)) xs))"
  using assms
proof (induction xs arbitrary: out)
  case Nil
  then show ?case by simp
next
  case (Cons x xs)
  obtain i e where x: "x = (i, e)" by fastforce
  have rem: "unat (ucast sz - of_nat (length out) :: u64) = unat sz - length out"
    using Cons.prems by (rule remaining_eq)
  show ?case
  proof (cases "dirent_size e \<le> unat sz - length out")
    case True
    then have "length (out @ dirent_bytes (i, e)) \<le> unat sz"
      using Cons.prems by simp
    from Cons.IH [OF this] True show ?thesis
      by (simp add: x Let_def rem push_dirent_eq [simplified] del: of_nat_add)
  next
    case False
    then show ?thesis
      by (simp add: x Let_def rem push_dirent_eq [simplified])
  qed
qed

lemma readdir_page_eq:
  "readdir_page sz offset es =
     concat (map dirent_bytes (take (fitting (unat sz) (drop (unat offset) es))
       (drop (unat offset) (enumerate 0 es))))"
  by (simp add: readdir_page_def readdir_fill_eq drop_map [symmetric])

lemma fitting_bytes:
  "length (concat (map dirent_bytes (take (fitting n (map snd xs)) xs))) \<le> n"
proof (induction xs arbitrary: n)
  case (Cons x xs)
  obtain i e where "x = (i, e)" by fastforce
  then show ?case using Cons.IH [of "n - dirent_size e"] by simp arith
qed simp

section \<open>The client\<close>

text \<open>
  What the guest kernel does with a page: it reads \<open>fuse_dirent\<close> records, each the inode number,
  the offset of the next record, the length of the name and the type, then the name, padded to
  eight bytes.
\<close>

type_synonym dirent = "u64 \<times> u64 \<times> u32 \<times> bytes"

function decode_dirents :: "bytes \<Rightarrow> dirent list" where
  "decode_dirents b =
     (if length b < 24 then []
      else let n = unat (u32_at 16 b)
           in (u64_at 0 b, u64_at 8 b, u32_at 20 b, take n (drop 24 b))
              # decode_dirents (drop ((24 + n + 7) div 8 * 8) b))"
  by pat_completeness auto
termination
  by (relation "measure length") auto

declare decode_dirents.simps [simp del]

text \<open>The client asks for the page after the last entry it has, until a page is empty.\<close>

fun client_listing :: "nat \<Rightarrow> u32 \<Rightarrow> u64 \<Rightarrow> dir_entry list \<Rightarrow> dirent list option" where
  "client_listing 0 sz offset es = None"
| "client_listing (Suc fuel) sz offset es =
     (let ds = decode_dirents (readdir_page sz offset es) in
      if ds = [] then Some []
      else map_option (append ds) (client_listing fuel sz (fst (snd (last ds))) es))"

definition dirent_of :: "nat \<times> dir_entry \<Rightarrow> dirent" where
  "dirent_of = (\<lambda>(i, e). (dent_ino e, of_nat (i + 1), dt_type (dent_kind e), dent_name e))"

lemma decode_dirents_Nil [simp]: "decode_dirents [] = []"
  by (simp add: decode_dirents.simps)

lemma decode_dirents_Cons:
  assumes "length (dent_name e) < 2 ^ 32"
  shows "decode_dirents (dirent_bytes (i, e) @ rest) = dirent_of (i, e) # decode_dirents rest"
proof -
  let ?b = "dirent_bytes (i, e) @ rest"
  have n: "unat (of_nat (length (dent_name e)) :: u32) = length (dent_name e)"
    using assms by (simp add: unsigned_of_nat take_bit_nat_eq_self)
  have sz: "(31 + length (dent_name e)) div 8 * 8 = dirent_size e"
    by (simp add: dirent_size_def add.commute)
  have "u64_at 0 ?b = dent_ino e" "u64_at 8 ?b = of_nat (i + 1)"
      "u32_at 16 ?b = of_nat (length (dent_name e))" "u32_at 20 ?b = dt_type (dent_kind e)"
      "take (length (dent_name e)) (drop 24 ?b) = dent_name e" "drop (dirent_size e) ?b = rest"
    using length_dirent_bytes [of i e]
    by (simp_all add: dirent_bytes_def word_at_append_right del: length_dirent_bytes)
  moreover have "\<not> length ?b < 24"
    using dirent_size_ge [of e] by simp
  ultimately show ?thesis
    by (subst decode_dirents.simps) (simp add: Let_def n sz dirent_of_def)
qed

lemma decode_dirents_concat:
  assumes "\<forall>x \<in> set xs. length (dent_name (snd x)) < 2 ^ 32"
  shows "decode_dirents (concat (map dirent_bytes xs)) = map dirent_of xs"
  using assms
proof (induction xs)
  case (Cons x xs)
  obtain i e where "x = (i, e)" by fastforce
  with Cons show ?case by (simp add: decode_dirents_Cons)
qed simp

lemma decode_page:
  assumes "\<forall>e \<in> set es. length (dent_name e) < 2 ^ 32"
  shows "decode_dirents (readdir_page sz offset es) =
     map dirent_of (take (fitting (unat sz) (drop (unat offset) es)) (drop (unat offset) (enumerate 0 es)))"
  unfolding readdir_page_eq
  by (rule decode_dirents_concat)
    (use assms in \<open>auto dest!: in_set_takeD in_set_dropD simp: in_set_enumerate_eq\<close>)

lemma fitting_le: "fitting n es \<le> length es"
  by (induction n es rule: fitting.induct) auto

lemma client_listing_from:
  assumes "\<forall>e \<in> set es. length (dent_name e) < 2 ^ 32 \<and> dirent_size e \<le> unat sz"
    and "length es < 2 ^ 64" and "m \<le> length es" and "length es - m < fuel"
  shows "client_listing fuel sz (of_nat m) es = Some (map dirent_of (drop m (enumerate 0 es)))"
  using assms(3,4)
proof (induction fuel arbitrary: m)
  case (Suc fuel)
  have m: "unat (of_nat m :: u64) = m"
    using Suc.prems(1) assms(2) by (simp add: unsigned_of_nat take_bit_nat_eq_self)
  define k where "k = fitting (unat sz) (drop m es)"
  have page: "decode_dirents (readdir_page sz (of_nat m) es) =
      map dirent_of (take k (drop m (enumerate 0 es)))"
    using assms(1) by (simp add: decode_page m k_def)
  show ?case
  proof (cases "m = length es")
    case True
    with page show ?thesis by simp
  next
    case False
    then obtain e rest where e: "drop m es = e # rest"
      using Suc.prems(1) by (cases "drop m es") auto
    then have "e \<in> set es" by (metis in_set_dropD list.set_intros(1))
    then have "0 < k"
      using assms(1) by (simp add: k_def e)
    moreover have "m + k \<le> length es"
      using fitting_le [of "unat sz" "drop m es"] Suc.prems(1) by (simp add: k_def)
    ultimately have k: "0 < k" "m + k \<le> length es" .
    let ?ds = "map dirent_of (take k (drop m (enumerate 0 es)))"
    have len: "length ?ds = k" using k by simp
    then have "?ds \<noteq> []" using k(1) by auto
    then have "last ?ds = dirent_of (enumerate 0 es ! (m + (k - 1)))"
      using k len by (simp add: last_conv_nth)
    then have "fst (snd (last ?ds)) = of_nat (m + k)"
      using k by (simp add: dirent_of_def nth_enumerate_eq)
    then have "client_listing (Suc fuel) sz (of_nat m) es =
        map_option (append ?ds) (client_listing fuel sz (of_nat (m + k)) es)"
      using \<open>?ds \<noteq> []\<close> by (simp only: client_listing.simps page Let_def if_False)
    also have "\<dots> = Some (?ds @ map dirent_of (drop (m + k) (enumerate 0 es)))"
      using Suc.IH [of "m + k"] k Suc.prems(2) by (simp del: of_nat_add)
    also have "?ds @ map dirent_of (drop (m + k) (enumerate 0 es)) = map dirent_of (drop m (enumerate 0 es))"
      by (simp only: map_append [symmetric] add.commute [of m k] drop_drop [symmetric]
          append_take_drop_id)
    finally show ?thesis .
  qed
qed simp

text \<open>
  C19. The pages of a listing put together are the listing: a client that asks page by page, with
  a page size no entry exceeds, gets every entry of the directory once and in order, with its
  inode number, type and name, and then an empty page; no page is longer than was asked for. The
  client's loop ends after at most one page per entry and the empty one.
\<close>

theorem readdir_pages_are_the_listing:
  assumes "\<forall>e \<in> set es. length (dent_name e) < 2 ^ 32 \<and> dirent_size e \<le> unat sz"
    and "length es < 2 ^ 64"
  shows "client_listing (length es + 1) sz 0 es = Some (map dirent_of (enumerate 0 es)) \<and>
     (\<forall>offset. length (readdir_page sz offset es) \<le> unat sz)"
proof -
  have "length (readdir_page sz offset es) \<le> unat sz" for offset
    using fitting_bytes [of "unat sz" "drop (unat offset) (enumerate 0 es)"]
    by (simp add: readdir_page_eq drop_map [symmetric])
  with client_listing_from [OF assms, of 0 "length es + 1"] show ?thesis by simp
qed

theorem readdir_pages_are_the_listing_witness:
  "client_listing 3 40 0
     [\<lparr>dent_name = [97], dent_ino = 11, dent_kind = Regular, dent_next_offset = 0\<rparr>,
      \<lparr>dent_name = [98, 99], dent_ino = 12, dent_kind = Dir, dent_next_offset = 0\<rparr>] =
   Some [(11, 1, 8, [97]), (12, 2, 4, [98, 99])]"
  using readdir_pages_are_the_listing [of
      "[\<lparr>dent_name = [97], dent_ino = 11, dent_kind = Regular, dent_next_offset = 0\<rparr>,
        \<lparr>dent_name = [98, 99], dent_ino = 12, dent_kind = Dir, dent_next_offset = 0\<rparr>]" 40]
  by (simp add: dirent_size_def dirent_of_def DT_REG_def DT_DIR_def numeral_3_eq_3)

text \<open>A page that is not the first is cut from the cached listing, with no system call.\<close>

lemma readdir_cached_page:
  assumes "read_in_from_bytes body = Ok r" and "read_offset r \<noteq> 0"
    and "readdir_cache s (read_fh r) = Some es"
  shows "handle_readdir H unique body (s, w) =
     (Some (ok_reply unique (readdir_page (read_size r) (read_offset r) es)), s, w)"
  using assms by (simp add: handle_readdir_def try_parse_def Let_def done_reply_def)

end
