(* ===== verification/Memory_Safety.thy ===== *)
theory Memory_Safety
  imports Server
begin

text \<open>
  Which host memory the server touches. Every access goes through the translation of a guest
  address, so a request reads and writes only the bytes of the mapped regions: the lemmas show,
  bottom up, that each operation leaves all other memory as it is, and that nothing it returns
  depends on it.
\<close>

section \<open>Confined computations\<close>

definition agree :: "host_ptr set \<Rightarrow> heap \<Rightarrow> heap \<Rightarrow> bool" where
  "agree S h1 h2 \<longleftrightarrow> (\<forall>p \<in> S. h1 p = h2 p)"

text \<open>
  A computation on the memory is confined to a set of addresses when it changes no other
  address, and when memories that agree there give the same result and agree there afterwards.
\<close>

definition confined :: "host_ptr set \<Rightarrow> (heap \<Rightarrow> 'r \<times> heap) \<Rightarrow> bool" where
  "confined S f \<longleftrightarrow>
     (\<forall>h p. p \<notin> S \<longrightarrow> snd (f h) p = h p) \<and>
     (\<forall>h1 h2. agree S h1 h2 \<longrightarrow> fst (f h1) = fst (f h2) \<and> agree S (snd (f h1)) (snd (f h2)))"

named_theorems confinement \<open>confined computations\<close>

lemma agree_refl [simp]: "agree S h h"
  by (simp add: agree_def)

lemma agree_subset: "agree T h1 h2 \<Longrightarrow> S \<subseteq> T \<Longrightarrow> agree S h1 h2"
  by (auto simp: agree_def)

lemma confinedD:
  assumes "confined S f"
  shows "p \<notin> S \<Longrightarrow> snd (f h) p = h p"
    and "agree S h1 h2 \<Longrightarrow> fst (f h1) = fst (f h2)"
    and "agree S h1 h2 \<Longrightarrow> agree S (snd (f h1)) (snd (f h2))"
  using assms unfolding confined_def by blast+

lemma confined_mono:
  assumes "confined S f" and "S \<subseteq> T"
  shows "confined T f"
  unfolding confined_def
proof (intro conjI allI impI)
  fix h1 h2
  assume T: "agree T h1 h2"
  then have S: "agree S h1 h2" using assms(2) by (rule agree_subset)
  show "fst (f h1) = fst (f h2)" using confinedD(2) [OF assms(1) S] .
  show "agree T (snd (f h1)) (snd (f h2))"
    unfolding agree_def
  proof
    fix p assume "p \<in> T"
    then show "snd (f h1) p = snd (f h2) p"
      using T confinedD(1,3) [OF assms(1)] S by (cases "p \<in> S") (auto simp: agree_def)
  qed
qed (use assms confinedD(1) [OF assms(1)] in blast)

lemma confined_read [confinement]:
  assumes "\<And>h1 h2. agree S h1 h2 \<Longrightarrow> g h1 = g h2"
  shows "confined S (\<lambda>h. (g h, h))"
  using assms by (auto simp: confined_def)

lemma confined_bind_reached:
  assumes f: "confined S f" and k: "\<And>r h h'. f h = (r, h') \<Longrightarrow> confined S (k r)"
  shows "confined S (\<lambda>h. case f h of (r, h') \<Rightarrow> k r h')"
  unfolding confined_def
proof (intro conjI allI impI)
  have k': "confined S (k (fst (f h)))" for h
    using k [of h] by (metis prod.collapse)
  fix h p assume "p \<notin> S"
  then show "snd (case f h of (r, h') \<Rightarrow> k r h') p = h p"
    using confinedD(1) [OF f] confinedD(1) [OF k'] by (metis prod.case_eq_if)
next
  have k': "confined S (k (fst (f h)))" for h
    using k [of h] by (metis prod.collapse)
  fix h1 h2 assume "agree S h1 h2"
  then have "fst (f h1) = fst (f h2)" "agree S (snd (f h1)) (snd (f h2))"
    using confinedD(2,3) [OF f] by auto
  then show "fst (case f h1 of (r, h') \<Rightarrow> k r h') = fst (case f h2 of (r, h') \<Rightarrow> k r h')"
      "agree S (snd (case f h1 of (r, h') \<Rightarrow> k r h')) (snd (case f h2 of (r, h') \<Rightarrow> k r h'))"
    using confinedD(2,3) [OF k' [of h2]] by (auto simp: prod.case_eq_if)
qed

lemma confined_bind:
  assumes f: "confined S f" and k: "\<And>r. confined S (k r)"
  shows "confined S (\<lambda>h. case f h of (r, h') \<Rightarrow> k r h')"
  by (rule confined_bind_reached [OF f k])

text \<open>A value that is read before the rest, and does not depend on other memory.\<close>

lemma confined_look:
  assumes "\<And>h1 h2. agree S h1 h2 \<Longrightarrow> g h1 = g h2" and "\<And>v. confined S (f v)"
  shows "confined S (\<lambda>h. f (g h) h)"
  using confined_bind [OF confined_read [of S g] assms(2)] assms(1) by simp

section \<open>Slices and regions\<close>

definition slice_bytes :: "host_ptr \<times> nat \<Rightarrow> host_ptr set" where
  "slice_bytes s = {p. fst p = fst (fst s) \<and> snd (fst s) \<le> snd p \<and> snd p < snd (fst s) + snd s}"

definition region_bytes :: "guest_memory \<Rightarrow> host_ptr set" where
  "region_bytes mem = (\<Union>r \<in> set mem. slice_bytes (rg_ptr r, unat (rg_len r)))"

lemma get_slice_bytes:
  assumes "get_slice mem sp addr len = Some s"
  shows "slice_bytes s \<subseteq> region_bytes mem"
proof -
  obtain p n where s: "s = (p, n)" by fastforce
  with assms obtain r where r: "r \<in> set mem" "in_region sp addr len r" "n = unat len"
      "p = ptr_add (rg_ptr r) (unat addr - unat (base_for sp r))"
    by (auto elim: get_slice_Some)
  then have "slice_bytes s \<subseteq> slice_bytes (rg_ptr r, unat (rg_len r))"
    by (auto simp: s slice_bytes_def ptr_add_def in_region_iff)
  with r(1) show ?thesis by (auto simp: region_bytes_def)
qed

lemma load_agree: "slice_bytes s \<subseteq> S \<Longrightarrow> agree S h1 h2 \<Longrightarrow> load h1 s = load h2 s"
  by (auto simp: load_def agree_def slice_bytes_def ptr_add_def subset_iff)

lemma confined_store [confinement]:
  assumes "slice_bytes (p, length d) \<subseteq> S"
  shows "confined S (\<lambda>h. (r, store p d h))"
  using assms by (auto simp: confined_def store_def agree_def slice_bytes_def subset_iff)

lemma slice_bytes_prefix: "n \<le> m \<Longrightarrow> slice_bytes (p, n) \<subseteq> slice_bytes (p, m)"
  by (auto simp: slice_bytes_def)

lemma confined_store_then:
  assumes "slice_bytes (p, length d) \<subseteq> S" and "confined S k"
  shows "confined S (\<lambda>h. k (store p d h))"
  using confined_bind [OF confined_store [OF assms(1), of "()"], of "\<lambda>_. k"] assms(2) by simp

section \<open>The queue\<close>

text \<open>What is read through the translation depends on the regions only.\<close>

lemma mem_read_agree:
  assumes "agree (region_bytes mem) h1 h2"
  shows "mem_read_u16 mem h1 sp a = mem_read_u16 mem h2 sp a"
    and "mem_read_u32 mem h1 sp a = mem_read_u32 mem h2 sp a"
    and "mem_read_u64 mem h1 sp a = mem_read_u64 mem h2 sp a"
  using load_agree [OF get_slice_bytes assms]
  by (auto simp: mem_read_u16_def mem_read_u32_def mem_read_u64_def map_option_case
      split: option.splits)

lemma pop_avail_agree:
  assumes "agree (region_bytes mem) h1 h2"
  shows "pop_avail mem h1 vq = pop_avail mem h2 vq"
  unfolding pop_avail_def mem_read_agree [OF assms] ..

lemma read_desc_agree:
  assumes "agree (region_bytes mem) h1 h2"
  shows "read_desc mem h1 vq idx = read_desc mem h2 vq idx"
  unfolding read_desc_def mem_read_agree [OF assms] ..

lemma read_chain_agree:
  assumes "agree (region_bytes mem) h1 h2"
  shows "read_chain mem h1 vq head = read_chain mem h2 vq head"
proof -
  have "chain_loop mem h1 vq n idx c = chain_loop mem h2 vq n idx c" for n idx c
  proof (induction n arbitrary: idx c)
    case (Suc n)
    show ?case
      unfolding chain_loop.simps Let_def read_desc_agree [OF assms] Suc.IH ..
  qed simp
  then show ?thesis by (simp add: read_chain_def)
qed

lemma gather_agree:
  assumes "agree (region_bytes mem) h1 h2"
  shows "gather_readable mem h1 chain = gather_readable mem h2 chain"
    and "gather_readable_prefix mem h1 chain n = gather_readable_prefix mem h2 chain n"
proof -
  note load = load_agree [OF get_slice_bytes assms]
  have "gather_loop mem h1 segs buf = gather_loop mem h2 segs buf" for segs buf
    by (induction segs arbitrary: buf) (auto intro!: bind_cong simp: load)
  then show "gather_readable mem h1 chain = gather_readable mem h2 chain"
    by (simp add: gather_readable_def)
  have "prefix_loop mem h1 n segs buf = prefix_loop mem h2 n segs buf" for segs buf
    by (induction segs arbitrary: buf) (auto intro!: bind_cong simp: load Let_def)
  then show "gather_readable_prefix mem h1 chain n = gather_readable_prefix mem h2 chain n"
    by (simp add: gather_readable_prefix_def)
qed

text \<open>What is written goes through the translation too.\<close>

lemma confined_const [confinement]: "confined S (\<lambda>h. (v, h))"
  by (rule confined_read) simp

lemma confined_if [confinement]:
  "confined S f \<Longrightarrow> confined S g \<Longrightarrow> confined S (\<lambda>h. if b then f h else g h)"
  by (cases b) simp_all

lemma confined_read_u16 [confinement]:
  assumes "\<And>v. confined (region_bytes mem) (k v)"
  shows "confined (region_bytes mem) (\<lambda>h. case mem_read_u16 mem h sp a of None \<Rightarrow> (e, h) | Some v \<Rightarrow> k v h)"
proof -
  have "confined (region_bytes mem) (\<lambda>h. case x of None \<Rightarrow> (e, h) | Some v \<Rightarrow> k v h)" for x
    using assms by (cases x) (simp_all add: confined_const)
  from confined_look [OF mem_read_agree(1) this] show ?thesis .
qed

lemma confined_slice_store:
  assumes "confined (region_bytes mem) k" and "length d = unat len"
  shows "confined (region_bytes mem) (\<lambda>h. case map_option (\<lambda>s. store (fst s) d h) (get_slice mem sp a len) of
      None \<Rightarrow> (e, h) | Some h1 \<Rightarrow> k h1)"
proof (cases "get_slice mem sp a len")
  case None
  then show ?thesis by (simp add: confined_const)
next
  case (Some s)
  then have "slice_bytes (fst s, length d) \<subseteq> region_bytes mem"
    using get_slice_bytes [OF Some] assms(2) by (cases s) (auto elim: get_slice_Some)
  from confined_store_then [OF this assms(1)] Some show ?thesis by simp
qed

lemma confined_write [confinement]:
  assumes "confined (region_bytes mem) k"
  shows "confined (region_bytes mem) (\<lambda>h. case mem_write_u16 mem sp a v h of
      None \<Rightarrow> (e, h) | Some h1 \<Rightarrow> k h1)"
    and "confined (region_bytes mem) (\<lambda>h. case mem_write_u32 mem sp a v' h of
      None \<Rightarrow> (e, h) | Some h1 \<Rightarrow> k h1)"
  unfolding mem_write_u16_def mem_write_u32_def get_slice_mut_eq
  by (rule confined_slice_store [OF assms]; simp)+

lemma confined_push_used: "confined (region_bytes mem) (push_used mem vq head wl)"
  unfolding push_used_def [abs_def] Let_def
  by (intro confined_read_u16 confined_if confined_write confined_const)

lemma confined_scatter_loop:
  "confined (region_bytes mem) (scatter_loop mem segs remaining written)"
proof (induction segs arbitrary: remaining written)
  case Nil
  have "scatter_loop mem [] remaining written = (\<lambda>h. (Ok written, h))"
    by (simp add: fun_eq_iff)
  then show ?case by (simp add: confined_const)
next
  case (Cons seg segs)
  obtain addr len where seg: "seg = (addr, len)" by fastforce
  define n where "n = min (length remaining) (unat len)"
  have "unat len < 2 ^ LENGTH(64)" by (rule unsigned_less)
  then have "n < 2 ^ 64" by (simp add: n_def)
  then have n: "unat (of_nat n :: u64) = n"
    by (simp add: unsigned_of_nat take_bit_nat_eq_self)
  have step: "scatter_loop mem (seg # segs) remaining written = (\<lambda>h.
      if remaining = [] then (Ok written, h)
      else case map_option (\<lambda>s. store (fst s) (take n remaining) h) (get_slice mem Gpa addr (of_nat n)) of
             None \<Rightarrow> (Err OutOfBounds, h)
           | Some h1 \<Rightarrow> scatter_loop mem segs (drop n remaining) (written + of_nat n) h1)"
    by (auto simp: fun_eq_iff seg Let_def get_slice_mut_eq n_def split: option.split)
  show ?case
    unfolding step
    by (intro confined_if confined_const confined_slice_store Cons.IH, unfold n) (simp add: n_def)
qed

lemma confined_scatter [confinement]:
  "confined (region_bytes mem) (scatter_writable mem chain d)"
  unfolding scatter_writable_def [abs_def] by (rule confined_scatter_loop)

section \<open>Requests\<close>

text \<open>
  The documented behaviour of the vectored calls, as far as memory goes: \<open>pwritev\<close> reads only
  the buffers it is given and \<open>preadv\<close> writes only the buffers it is given, and neither looks at
  anything else.
\<close>

definition iov_bytes :: "iovec list \<Rightarrow> host_ptr set" where
  "iov_bytes iov = (\<Union>v \<in> set iov. slice_bytes v)"

definition buffers_only :: "'w host \<Rightarrow> bool" where
  "buffers_only H \<longleftrightarrow>
     (\<forall>d iov off w h1 h2. agree (iov_bytes iov) h1 h2 \<longrightarrow>
        sys_pwritev H d iov off h1 w = sys_pwritev H d iov off h2 w) \<and>
     (\<forall>d iov off w. confined (iov_bytes iov) (\<lambda>h.
        case sys_preadv H d iov off h w of ((r, h'), w') \<Rightarrow> ((r, w'), h')))"

lemma scatter_store_confined: "confined (iov_bytes iov) (\<lambda>h. (r, scatter_store iov b h))"
proof (induction iov arbitrary: b)
  case Nil
  show ?case by (simp add: confined_def)
next
  case (Cons v iov)
  obtain p n where v: "v = (p, n)" by (cases v)
  have "slice_bytes (p, length (take n b)) \<subseteq> iov_bytes (v # iov)"
    by (auto simp: v iov_bytes_def slice_bytes_def)
  moreover have "confined (iov_bytes (v # iov)) (\<lambda>h. (r, scatter_store iov (drop n b) h))"
    by (rule confined_mono [OF Cons.IH]) (auto simp: iov_bytes_def)
  ultimately show ?case
    using confined_store_then [of p "take n b" _ "\<lambda>h. (r, scatter_store iov (drop n b) h)"] by (simp add: v)
qed

text \<open>The full description of the vectored calls implies this part of it.\<close>

lemma vectored_io_buffers_only:
  assumes "vectored_io H"
  shows "buffers_only H"
proof -
  have "load_all h1 iov = load_all h2 iov" if "agree (iov_bytes iov) h1 h2" for iov h1 h2
  proof -
    have "load h1 v = load h2 v" if "v \<in> set iov" for v
      by (rule load_agree [OF _ \<open>agree (iov_bytes iov) h1 h2\<close>]) (use that in \<open>auto simp: iov_bytes_def\<close>)
    then show ?thesis by (simp add: load_all_def cong: map_cong)
  qed
  moreover have "confined (iov_bytes iov) (\<lambda>h. case sys_preadv H d iov off h w of ((r, h'), w') \<Rightarrow> ((r, w'), h'))"
    for d iov off w
  proof (cases "sys_pread H d (slices_len iov) off w")
    case (Pair x w')
    have pv: "sys_preadv H d iov off h w = (case x of Inl e \<Rightarrow> ((Inl e, h), w')
        | Inr b \<Rightarrow> ((Inr (length b), scatter_store iov b h), w'))" for h
      using assms Pair by (simp add: vectored_io_def split: sum.split)
    show ?thesis
    proof (cases x)
      case (Inl e)
      then show ?thesis by (simp add: pv confined_def)
    next
      case (Inr b)
      then show ?thesis using scatter_store_confined by (simp add: pv)
    qed
  qed
  ultimately show ?thesis
    using assms unfolding buffers_only_def vectored_io_def by metis
qed

lemma iovecs_bytes:
  assumes "iovecs_from mem segs skip mx mut = Ok iov"
  shows "iov_bytes iov \<subseteq> region_bytes mem"
proof -
  have "iov_bytes iov \<subseteq> region_bytes mem"
    if "iovecs_loop mem segs skip remaining mut acc = Ok iov" "iov_bytes acc \<subseteq> region_bytes mem"
    for remaining acc
    using that
  proof (induction segs arbitrary: skip remaining acc)
    case (Cons seg segs)
    obtain addr len where seg: "seg = (addr, len)" by fastforce
    show ?case
    proof (cases "remaining = 0 \<or> len \<le> skip")
      case True
      with Cons show ?thesis by (auto simp: seg split: if_splits)
    next
      case False
      let ?l = "min (len - skip) remaining"
      obtain p n where s: "get_slice mem Gpa (addr + skip) ?l = Some (p, n)"
          "iovecs_loop mem segs 0 (remaining - ?l) mut (acc @ [(p, unat ?l)]) = Ok iov"
        using Cons.prems(1) False by (auto simp: seg Let_def get_slice_mut_eq split: if_splits)
      have "n = unat ?l" using s(1) by (auto elim: get_slice_Some)
      then have "iov_bytes (acc @ [(p, unat ?l)]) \<subseteq> region_bytes mem"
        using get_slice_bytes [OF s(1)] Cons.prems(2) by (auto simp: iov_bytes_def)
      with Cons.IH [OF s(2)] show ?thesis .
    qed
  qed simp
  with assms show ?thesis by (simp add: iovecs_from_def iov_bytes_def)
qed

definition req_confined :: "host_ptr set \<Rightarrow> ('w req_state \<Rightarrow> 'r \<times> 'w req_state) \<Rightarrow> bool" where
  "req_confined S f \<longleftrightarrow>
     (\<forall>s w. confined S (\<lambda>h. case f (s, h, w) of (r, s', h', w') \<Rightarrow> ((r, s', w'), h')))"

lemma req_confinedI:
  assumes "\<And>s w. confined S (\<lambda>h. case f (s, h, w) of (r, s', h', w') \<Rightarrow> ((r, s', w'), h'))"
  shows "req_confined S f"
  using assms by (simp add: req_confined_def)

lemma req_confinedD:
  "req_confined S f \<Longrightarrow> confined S (\<lambda>h. case f (s, h, w) of (r, s', h', w') \<Rightarrow> ((r, s', w'), h'))"
  by (simp add: req_confined_def)

lemma req_confined_keep:
  "req_confined S (\<lambda>(s, h, w). (r, s, h, w))" "req_confined S (Pair r)"
  by (rule req_confinedI, simp add: confined_const)+

lemma req_confined_scatter_reply: "req_confined (region_bytes mem) (scatter_reply mem chain b)"
proof (rule req_confinedI)
  fix s :: session and w :: 'a
  show "confined (region_bytes mem) (\<lambda>h. case scatter_reply mem chain b (s, h, w) of
      (r, s', h', w') \<Rightarrow> ((r, s', w'), h'))"
    using confined_bind [OF confined_scatter [of mem chain b], of "\<lambda>r h. ((vq_lift r, s, w), h)"]
    by (simp add: scatter_reply_def confined_const prod.case_distrib)
qed

lemma req_confined_generic: "req_confined (region_bytes mem) (dispatch_generic H mem chain)"
proof (rule req_confinedI)
  fix s w
  have "confined (region_bytes mem) (\<lambda>h. case (case v of
       Err e \<Rightarrow> (Err (Virtqueue e), s, h, w)
     | Panic \<Rightarrow> (Panic, s, h, w)
     | Ok req \<Rightarrow>
         (case session_handle H req (s, w) of
            (None, s', w') \<Rightarrow> (Panic, s', h, w')
          | (Some (ReplyBytes b), s', w') \<Rightarrow> scatter_reply mem chain b (s', h, w')
          | (Some ReplyNone, s', w') \<Rightarrow> (Ok 0, s', h, w'))) of (r, s', h', w') \<Rightarrow> ((r, s', w'), h'))" for v
  proof (cases v)
    case (Ok req)
    obtain x s' w' where sh: "session_handle H req (s, w) = (x, s', w')" by (metis surj_pair)
    show ?thesis
    proof (cases x)
      case (Some rep)
      then show ?thesis
        by (cases rep) (simp_all add: Ok sh confined_const req_confinedD [OF req_confined_scatter_reply])
    qed (simp add: Ok sh confined_const)
  qed (simp_all add: confined_const)
  from confined_look [OF gather_agree(1) this]
  show "confined (region_bytes mem) (\<lambda>h. case dispatch_generic H mem chain (s, h, w) of
      (r, s', h', w') \<Rightarrow> ((r, s', w'), h'))"
    by (simp add: dispatch_generic_def)
qed

text \<open>
  The zero-copy paths. Whether they apply depends on the header only; once they do, they read or
  write the buffers the translation gave.
\<close>

lemma fs_write_vectored_agree:
  assumes "buffers_only H" and "agree (iov_bytes iov) h1 h2"
  shows "fs_write_vectored H fh off iov h1 = fs_write_vectored H fh off iov h2"
proof -
  have "(\<lambda>d. sys_pwritev H d iov off h1) = (\<lambda>d. sys_pwritev H d iov off h2)"
    using assms unfolding buffers_only_def by blast
  then show ?thesis by (simp add: fs_write_vectored_def)
qed

lemma write_tail_confined:
  "confined (region_bytes mem) (\<lambda>h. case (case x of
       (Panic, fs', w') \<Rightarrow> (Panic, s\<lparr>ses_fs := fs'\<rparr>, h, w')
     | (Ok written, fs', w') \<Rightarrow> scatter_reply mem chain (ok written) (s\<lparr>ses_fs := fs'\<rparr>, h, w')
     | (Err e, fs', w') \<Rightarrow> scatter_reply mem chain (err e) (s\<lparr>ses_fs := fs'\<rparr>, h, w')) of
     (r, s', h', w') \<Rightarrow> ((r, s', w'), h'))"
proof -
  obtain r fs' w' where x: "x = (r, fs', w')" by (metis surj_pair)
  show ?thesis
    by (cases r) (simp_all add: x confined_const req_confinedD [OF req_confined_scatter_reply])
qed

lemma try_write_confined:
  assumes "buffers_only H"
  shows "try_write_zero_copy H mem chain hp = (\<lambda>\<sigma>. None) \<or>
     (\<exists>F. try_write_zero_copy H mem chain hp = (\<lambda>\<sigma>. Some (F \<sigma>)) \<and> req_confined (region_bytes mem) F)"
proof (cases "in_header_from_bytes hp")
  case (Ok hdr)
  show ?thesis
  proof (cases "write_in_from_bytes (in_header_body hp)")
    case w: (Ok x)
    obtain wr rest where x: "x = (wr, rest)" by fastforce
    show ?thesis
    proof (cases "iovecs_from mem (dc_readable chain) (of_nat REQUEST_HEADER_LEN) (ucast (write_size wr)) False")
      case iov: (Ok iov)
      let ?F = "\<lambda>(s, h, w). case fs_write_vectored H (write_fh wr) (write_offset wr) iov h (ses_fs s, w) of
          (Panic, fs', w') \<Rightarrow> (Panic, s\<lparr>ses_fs := fs'\<rparr>, h, w')
        | (Ok written, fs', w') \<Rightarrow>
            scatter_reply mem chain (out_header_reply (ih_unique hdr) 0 (write_out (of_nat written)))
              (s\<lparr>ses_fs := fs'\<rparr>, h, w')
        | (Err e, fs', w') \<Rightarrow>
            scatter_reply mem chain (out_header_error_for (errno_of H) (ih_unique hdr)
              (fs_error_errno (errno_of H) e)) (s\<lparr>ses_fs := fs'\<rparr>, h, w')"
      have "agree (region_bytes mem) h1 h2 \<Longrightarrow>
          fs_write_vectored H (write_fh wr) (write_offset wr) iov h1 \<sigma> =
          fs_write_vectored H (write_fh wr) (write_offset wr) iov h2 \<sigma>" for h1 h2 \<sigma>
        using fs_write_vectored_agree [OF assms] agree_subset iovecs_bytes [OF iov] by metis
      from confined_look [OF this write_tail_confined]
      have "req_confined (region_bytes mem) ?F"
        by (intro req_confinedI) simp
      moreover have "try_write_zero_copy H mem chain hp = (\<lambda>\<sigma>. Some (?F \<sigma>))"
        by (simp add: try_write_zero_copy_def Ok w x iov fun_eq_iff)
      ultimately show ?thesis by blast
    qed (auto simp: try_write_zero_copy_def Ok w x fun_eq_iff req_confined_keep)
  qed (auto simp: try_write_zero_copy_def Ok fun_eq_iff req_confined_keep)
qed (auto simp: try_write_zero_copy_def fun_eq_iff req_confined_keep)

lemma confined_map: "confined S f \<Longrightarrow> confined S (\<lambda>h. (g (fst (f h)), snd (f h)))"
  by (simp add: confined_def)

lemma fs_read_vectored_confined:
  assumes "buffers_only H" and "iov_bytes iov \<subseteq> S"
  shows "confined S (\<lambda>h. case fs_read_vectored H fh off iov fs (h, w) of (r, h', w') \<Rightarrow> ((r, w'), h'))"
proof (cases "handle_map (handles fs) fh")
  case None
  then show ?thesis by (simp add: fs_read_vectored_def handle_store_with_file_def confined_const)
next
  case (Some hd)
  show ?thesis
  proof (cases hd)
    case (FileHandle d)
    let ?f = "\<lambda>h. case sys_preadv H d iov off h w of ((r, h'), w') \<Rightarrow> ((r, w'), h')"
    let ?g = "\<lambda>(r, w'). (case r of Inl e \<Rightarrow> Err (fs_error_from_io (errno_of H) (Some e)) | Inr n \<Rightarrow> Ok n, w')"
    have "confined S ?f"
      using assms confined_mono unfolding buffers_only_def by blast
    then have "confined S (\<lambda>h. (?g (fst (?f h)), snd (?f h)))"
      by (rule confined_map)
    moreover have "(\<lambda>h. case fs_read_vectored H fh off iov fs (h, w) of (r, h', w') \<Rightarrow> ((r, w'), h')) =
        (\<lambda>h. (?g (fst (?f h)), snd (?f h)))"
      by (rule ext) (simp add: fs_read_vectored_def handle_store_with_file_def Some FileHandle
          split: prod.split sum.split)
    ultimately show ?thesis by (simp only:)
  qed (simp add: fs_read_vectored_def handle_store_with_file_def Some confined_const)
qed

lemma read_tail_confined:
  "confined (region_bytes mem) (\<lambda>h. case (case r of
       Panic \<Rightarrow> (Panic, s, h, w)
     | Ok n \<Rightarrow>
         (case scatter_reply mem chain (hdr n) (s, h, w) of
            (Ok header_written, \<sigma>) \<Rightarrow> (Ok (header_written + of_nat n), \<sigma>)
          | (Err e, \<sigma>) \<Rightarrow> (Err e, \<sigma>)
          | (Panic, \<sigma>) \<Rightarrow> (Panic, \<sigma>))
     | Err e \<Rightarrow> scatter_reply mem chain (err e) (s, h, w)) of (r, s', h', w') \<Rightarrow> ((r, s', w'), h'))"
proof (cases r)
  case (Ok n)
  let ?f = "\<lambda>h. case scatter_reply mem chain (hdr n) (s, h, w) of (r, s', h', w') \<Rightarrow> ((r, s', w'), h')"
  let ?g = "\<lambda>(r, s', w'). (case r of Ok hw \<Rightarrow> Ok (hw + of_nat n) | Err e \<Rightarrow> Err e | Panic \<Rightarrow> Panic, s', w')"
  have "confined (region_bytes mem) (\<lambda>h. (?g (fst (?f h)), snd (?f h)))"
    by (rule confined_map) (rule req_confinedD [OF req_confined_scatter_reply])
  moreover have "(\<lambda>h. case (case scatter_reply mem chain (hdr n) (s, h, w) of
            (Ok header_written, \<sigma>) \<Rightarrow> (Ok (header_written + of_nat n), \<sigma>)
          | (Err e, \<sigma>) \<Rightarrow> (Err e, \<sigma>)
          | (Panic, \<sigma>) \<Rightarrow> (Panic, \<sigma>)) of (r, s', h', w') \<Rightarrow> ((r, s', w'), h')) =
      (\<lambda>h. (?g (fst (?f h)), snd (?f h)))"
    by (rule ext) (simp split: prod.split result.split)
  ultimately show ?thesis by (simp only: Ok result.case)
qed (simp_all add: confined_const req_confinedD [OF req_confined_scatter_reply])

lemma req_confined_then:
  assumes f: "\<And>s w. confined S (\<lambda>h. case f s h w of (r, h', w') \<Rightarrow> ((r, w'), h'))"
    and k: "\<And>r. req_confined S (k r)"
  shows "req_confined S (\<lambda>(s, h, w). case f s h w of (r, h', w') \<Rightarrow> k r (s, h', w'))"
proof (rule req_confinedI)
  fix s w
  let ?k = "\<lambda>v h. case k (fst v) (s, h, snd v) of (r, s', h', w') \<Rightarrow> ((r, s', w'), h')"
  have "confined S (\<lambda>h. case (case f s h w of (r, h', w') \<Rightarrow> ((r, w'), h')) of (v, h') \<Rightarrow> ?k v h')"
    by (rule confined_bind [OF f]) (rule req_confinedD [OF k])
  moreover have "(\<lambda>h. case (case f s h w of (r, h', w') \<Rightarrow> ((r, w'), h')) of (v, h') \<Rightarrow> ?k v h') =
      (\<lambda>h. case (case (s, h, w) of (s, h, w) \<Rightarrow> case f s h w of (r, h', w') \<Rightarrow> k r (s, h', w')) of
         (r, s', h', w') \<Rightarrow> ((r, s', w'), h'))"
    by (rule ext) (simp split: prod.split)
  ultimately show "confined S (\<lambda>h. case (case (s, h, w) of (s, h, w) \<Rightarrow>
      case f s h w of (r, h', w') \<Rightarrow> k r (s, h', w')) of (r, s', h', w') \<Rightarrow> ((r, s', w'), h'))"
    by (simp only:)
qed

lemma try_read_confined:
  assumes "buffers_only H"
  shows "try_read_zero_copy H mem chain hp = (\<lambda>\<sigma>. None) \<or>
     (\<exists>F. try_read_zero_copy H mem chain hp = (\<lambda>\<sigma>. Some (F \<sigma>)) \<and> req_confined (region_bytes mem) F)"
proof (cases "in_header_from_bytes hp")
  case (Ok hdr)
  show ?thesis
  proof (cases "read_in_from_bytes (in_header_body hp)")
    case r: (Ok r)
    define want where "want = min (ucast (read_size r)) (sum_list (map snd (dc_writable chain)) -
        min (sum_list (map snd (dc_writable chain))) (of_nat OUT_HEADER_LEN) :: u64)"
    show ?thesis
    proof (cases "iovecs_from mem (dc_writable chain) (of_nat OUT_HEADER_LEN) want True")
      case iov: (Ok iov)
      define tail where "tail = (\<lambda>rr (s, h, w :: 'a). case rr of
          Panic \<Rightarrow> (Panic, s, h, w)
        | Ok n \<Rightarrow>
            (case scatter_reply mem chain
                    (out_header_success_header_only (ih_unique hdr) (of_nat (OUT_HEADER_LEN + n))) (s, h, w) of
               (Ok header_written, \<sigma>) \<Rightarrow> (Ok (header_written + of_nat n), \<sigma>)
             | (Err e, \<sigma>) \<Rightarrow> (Err e, \<sigma>)
             | (Panic, \<sigma>) \<Rightarrow> (Panic, \<sigma>))
        | Err e \<Rightarrow> scatter_reply mem chain (out_header_error_for (errno_of H) (ih_unique hdr)
            (fs_error_errno (errno_of H) e)) (s, h, w))"
      let ?F = "\<lambda>(s, h, w). case fs_read_vectored H (read_fh r) (read_offset r) iov (ses_fs s) (h, w) of
          (rr, h', w') \<Rightarrow> tail rr (s, h', w')"
      have "req_confined (region_bytes mem) (tail rr)" for rr
        by (rule req_confinedI) (simp only: tail_def case_prod_conv read_tail_confined)
      then have "req_confined (region_bytes mem) ?F"
        by (rule req_confined_then [OF fs_read_vectored_confined [OF assms iovecs_bytes [OF iov]]])
      moreover have "try_read_zero_copy H mem chain hp = (\<lambda>\<sigma>. Some (?F \<sigma>))"
        by (rule ext) (simp add: try_read_zero_copy_def Ok r iov Let_def want_def [symmetric] tail_def
            split: prod.split result.split)
      ultimately show ?thesis by blast
    qed (auto simp: try_read_zero_copy_def Ok r fun_eq_iff req_confined_keep Let_def want_def [symmetric])
  qed (auto simp: try_read_zero_copy_def Ok fun_eq_iff req_confined_keep)
qed (auto simp: try_read_zero_copy_def fun_eq_iff req_confined_keep)

lemma req_confined_request:
  assumes "buffers_only H"
  shows "req_confined (region_bytes mem) (dispatch_request H mem chain hp)"
proof -
  note tw = try_write_confined [OF assms, of mem chain hp]
  note tr = try_read_confined [OF assms, of mem chain hp]
  show ?thesis
  proof (cases "peek_opcode hp")
    case OpWrite
    from tw show ?thesis
    proof
      assume "try_write_zero_copy H mem chain hp = (\<lambda>\<sigma>. None)"
      then have "dispatch_request H mem chain hp = dispatch_generic H mem chain"
        by (simp add: fun_eq_iff dispatch_request_def OpWrite)
      then show ?thesis by (simp add: req_confined_generic)
    next
      assume "\<exists>F. try_write_zero_copy H mem chain hp = (\<lambda>\<sigma>. Some (F \<sigma>)) \<and> req_confined (region_bytes mem) F"
      then obtain F where F: "try_write_zero_copy H mem chain hp = (\<lambda>\<sigma>. Some (F \<sigma>))"
          "req_confined (region_bytes mem) F" by blast
      then have "dispatch_request H mem chain hp = F"
        by (simp add: fun_eq_iff dispatch_request_def OpWrite)
      with F(2) show ?thesis by simp
    qed
  next
    case OpRead
    from tr show ?thesis
    proof
      assume "try_read_zero_copy H mem chain hp = (\<lambda>\<sigma>. None)"
      then have "dispatch_request H mem chain hp = dispatch_generic H mem chain"
        by (simp add: fun_eq_iff dispatch_request_def OpRead)
      then show ?thesis by (simp add: req_confined_generic)
    next
      assume "\<exists>F. try_read_zero_copy H mem chain hp = (\<lambda>\<sigma>. Some (F \<sigma>)) \<and> req_confined (region_bytes mem) F"
      then obtain F where F: "try_read_zero_copy H mem chain hp = (\<lambda>\<sigma>. Some (F \<sigma>))"
          "req_confined (region_bytes mem) F" by blast
      then have "dispatch_request H mem chain hp = F"
        by (simp add: fun_eq_iff dispatch_request_def OpRead)
      with F(2) show ?thesis by simp
    qed
  qed (simp_all add: dispatch_request_def [abs_def] req_confined_generic)
qed

section \<open>The vring loop\<close>

lemma req_confined_look:
  assumes "\<And>h1 h2. agree S h1 h2 \<Longrightarrow> g h1 = g h2" and "\<And>v. req_confined S (f v)"
  shows "req_confined S (\<lambda>(s, h, w). f (g h) (s, h, w))"
proof (rule req_confinedI)
  fix s w
  show "confined S (\<lambda>h. case (case (s, h, w) of (s, h, w) \<Rightarrow> f (g h) (s, h, w)) of
      (r, s', h', w') \<Rightarrow> ((r, s', w'), h'))"
    using confined_look [OF assms(1) req_confinedD [OF assms(2)]] by simp
qed

lemma req_confined_bind:
  assumes f: "req_confined S f" and k: "\<And>r. req_confined S (k r)"
  shows "req_confined S (\<lambda>\<sigma>. case f \<sigma> of (r, \<sigma>') \<Rightarrow> k r \<sigma>')"
proof (rule req_confinedI)
  fix s w
  let ?k = "\<lambda>(r, s', w') h. case k r (s', h, w') of (r, s', h', w') \<Rightarrow> ((r, s', w'), h')"
  have "confined S (\<lambda>h. case (case f (s, h, w) of (r, s', h', w') \<Rightarrow> ((r, s', w'), h')) of (v, h') \<Rightarrow> ?k v h')"
    by (rule confined_bind [OF req_confinedD [OF f]]) (use req_confinedD [OF k] in \<open>auto split: prod.split\<close>)
  moreover have "(\<lambda>h. case (case f (s, h, w) of (r, s', h', w') \<Rightarrow> ((r, s', w'), h')) of (v, h') \<Rightarrow> ?k v h') =
      (\<lambda>h. case (case f (s, h, w) of (r, \<sigma>') \<Rightarrow> k r \<sigma>') of (r, s', h', w') \<Rightarrow> ((r, s', w'), h'))"
    by (rule ext) (simp split: prod.split)
  ultimately show "confined S (\<lambda>h. case (case f (s, h, w) of (r, \<sigma>') \<Rightarrow> k r \<sigma>') of
      (r, s', h', w') \<Rightarrow> ((r, s', w'), h'))"
    by (simp only:)
qed

lemma req_confined_push_used:
  "req_confined (region_bytes mem) (\<lambda>(s, h, w). case push_used mem vq head wl h of
     (r, h') \<Rightarrow> (vq_lift r, s, h', w))"
proof (rule req_confinedI)
  fix s w
  show "confined (region_bytes mem) (\<lambda>h. case (case (s, h, w) of (s, h, w) \<Rightarrow>
      case push_used mem vq head wl h of (r, h') \<Rightarrow> (vq_lift r, s, h', w)) of
      (r, s', h', w') \<Rightarrow> ((r, s', w'), h'))"
    using confined_bind [OF confined_push_used [of mem vq head wl], of "\<lambda>r h. ((vq_lift r, s, w), h)"]
    by (simp add: confined_const prod.case_distrib)
qed

lemma req_confined_result:
  assumes "\<And>v. req_confined S (f v)"
  shows "req_confined S (case r of Ok v \<Rightarrow> f v | Err e \<Rightarrow> Pair (g e) | Panic \<Rightarrow> Pair p)"
  using assms by (cases r) (simp_all add: req_confined_keep)

lemma req_confined_chain:
  assumes "buffers_only H"
  shows "req_confined (region_bytes mem) (process_chain H mem vq head)"
proof -
  define push where "push = (\<lambda>written (s :: session, h, w :: 'a).
      case push_used mem vq head written h of (r, h') \<Rightarrow> (vq_lift r, s, h', w))"
  define disp where "disp = (\<lambda>chain hp \<sigma>. case dispatch_request H mem chain hp \<sigma> of
      (r, \<sigma>') \<Rightarrow> (case r of Ok written \<Rightarrow> push written | Err e \<Rightarrow> Pair (Err e) | Panic \<Rightarrow> Pair Panic) \<sigma>')"
  define pre where "pre = (\<lambda>chain (s, h, w). (case gather_readable_prefix mem h chain REQUEST_HEADER_LEN of
      Ok hp \<Rightarrow> disp chain hp | Err e \<Rightarrow> Pair (Err (Virtqueue e)) | Panic \<Rightarrow> Pair Panic) (s, h, w))"
  have "req_confined (region_bytes mem) (push written)" for written
    unfolding push_def by (rule req_confined_push_used)
  then have "req_confined (region_bytes mem) (disp chain hp)" for chain hp
    unfolding disp_def by (intro req_confined_bind req_confined_request assms req_confined_result)
  then have "req_confined (region_bytes mem) (pre chain)" for chain
    unfolding pre_def by (intro req_confined_look [OF gather_agree(2)] req_confined_result)
  then have "req_confined (region_bytes mem) (\<lambda>(s, h, w). (case read_chain mem h vq head of
      Ok chain \<Rightarrow> pre chain | Err e \<Rightarrow> Pair (Err (Virtqueue e)) | Panic \<Rightarrow> Pair Panic) (s, h, w))"
    by (intro req_confined_look [OF read_chain_agree] req_confined_result)
  moreover have "process_chain H mem vq head = (\<lambda>(s, h, w). (case read_chain mem h vq head of
      Ok chain \<Rightarrow> pre chain | Err e \<Rightarrow> Pair (Err (Virtqueue e)) | Panic \<Rightarrow> Pair Panic) (s, h, w))"
    by (rule ext) (simp add: process_chain_def pre_def disp_def push_def split: prod.split result.split)
  ultimately show ?thesis by (simp only:)
qed

text \<open>The loops return an option; running out of fuel leaves the memory out of the result.\<close>

definition loop_out ::
  "('r \<times> virtqueue \<times> 'w req_state) option \<Rightarrow> heap \<Rightarrow> ('r \<times> virtqueue \<times> session \<times> 'w) option \<times> heap" where
  "loop_out x h = (case x of
     None \<Rightarrow> (None, h) | Some (r, vq, s, h', w) \<Rightarrow> (Some (r, vq, s, w), h'))"

lemma loop_out_simps [simp]:
  "loop_out None h = (None, h)"
  "loop_out (Some (r, vq, s, h', w)) h = (Some (r, vq, s, w), h')"
  by (simp_all add: loop_out_def)

lemma confined_none:
  "confined S f \<Longrightarrow> confined S (\<lambda>h. if fst (f h) = None then (None, h) else f h)"
  by (simp add: confined_def)

lemma fst_loop_out: "fst (loop_out x h) = None \<longleftrightarrow> x = None"
  by (cases x) auto

lemma confined_loop:
  assumes "buffers_only H"
  shows "confined (region_bytes mem) (\<lambda>h. loop_out (process_loop fuel H mem vq n (s, h, w)) h)"
proof (induction fuel arbitrary: vq n s w)
  case 0
  then show ?case by (simp add: confined_const)
next
  case (Suc fuel)
  let ?rest = "\<lambda>vq' (r, s', w') h. case r of
      Err e \<Rightarrow> (Some (Err e, vq', s', w'), h)
    | Panic \<Rightarrow> (Some (Panic, vq', s', w'), h)
    | Ok _ \<Rightarrow> loop_out (process_loop fuel H mem vq' (Suc n) (s', h, w')) h"
  let ?chain = "\<lambda>vq' head h. case process_chain H mem vq' head (s, h, w) of
      (r, s', h', w') \<Rightarrow> ((r, s', w'), h')"
  let ?step = "\<lambda>v h. case v of
      (Err e, vq') \<Rightarrow> (Some (Err (Virtqueue e), vq', s, w), h)
    | (Panic, vq') \<Rightarrow> (Some (Panic, vq', s, w), h)
    | (Ok None, vq') \<Rightarrow> (Some (Ok n, vq', s, w), h)
    | (Ok (Some head), vq') \<Rightarrow> (case ?chain vq' head h of (x, h') \<Rightarrow> ?rest vq' x h')"
  have "confined (region_bytes mem) (?rest vq' x)" for vq' x
    using Suc.IH by (cases x; cases "fst x") (auto simp: confined_const)
  then have chain: "confined (region_bytes mem) (\<lambda>h. case ?chain vq' head h of (x, h') \<Rightarrow> ?rest vq' x h')"
    for vq' head
    by (rule confined_bind [OF req_confinedD [OF req_confined_chain [OF assms]]])
  have "confined (region_bytes mem) (?step v)" for v
  proof -
    obtain r vq' where v: "v = (r, vq')" by fastforce
    show ?thesis
    proof (cases r)
      case (Ok x)
      then show ?thesis using chain [of vq'] by (cases x) (simp_all only: v Ok option.case result.case prod.case confined_const)
    qed (simp_all add: v confined_const)
  qed
  from confined_none [OF confined_look [OF pop_avail_agree this]]
  have "confined (region_bytes mem) (\<lambda>h. if fst (?step (pop_avail mem h vq) h) = None then (None, h)
      else ?step (pop_avail mem h vq) h)" .
  moreover have "(\<lambda>h. loop_out (process_loop (Suc fuel) H mem vq n (s, h, w)) h) =
      (\<lambda>h. if fst (?step (pop_avail mem h vq) h) = None then (None, h) else ?step (pop_avail mem h vq) h)"
    by (rule ext) (auto simp: loop_out_def split: prod.split result.split option.split)
  ultimately show ?case by (simp only:)
qed

section \<open>The event loop\<close>

text \<open>The bytes of guest memory the server has mapped.\<close>

definition guest_bytes :: "server \<Rightarrow> host_ptr set" where
  "guest_bytes srv = (case srv_mem srv of None \<Rightarrow> {} | Some mem \<Rightarrow> region_bytes mem)"

definition srv_out ::
  "('r \<times> 'w srv_state) option \<Rightarrow> heap \<Rightarrow> ('r \<times> server \<times> 'w) option \<times> heap" where
  "srv_out x h = (case x of None \<Rightarrow> (None, h) | Some (r, srv, h', w) \<Rightarrow> (Some (r, srv, w), h'))"

lemma srv_out_simps [simp]:
  "srv_out None h = (None, h)"
  "srv_out (Some (r, srv, h', w)) h = (Some (r, srv, w), h')"
  by (simp_all add: srv_out_def)

lemma process_vring_mem:
  "process_vring fuel H V idx (srv, h, w) = Some (r, srv', h', w') \<Longrightarrow> srv_mem srv' = srv_mem srv"
  by (auto simp: process_vring_def Let_def split: option.splits if_splits prod.splits result.splits)

lemma process_vring_confined:
  assumes "buffers_only H"
  shows "confined (guest_bytes srv) (\<lambda>h. srv_out (process_vring fuel H V idx (srv, h, w)) h)"
proof (cases "srv_mem srv")
  case None
  then show ?thesis by (simp add: process_vring_def confined_const)
next
  case mem: (Some mem)
  show ?thesis
  proof (cases "length (srv_vrings srv) \<le> idx \<or> slot_vq (srv_vrings srv ! idx) = None")
    case True
    then show ?thesis
      by (cases "length (srv_vrings srv) \<le> idx")
        (simp_all add: process_vring_def mem Let_def confined_const)
  next
    case False
    then obtain vq where vq: "slot_vq (srv_vrings srv ! idx) = Some vq" by auto
    let ?slot = "srv_vrings srv ! idx"
    let ?f = "\<lambda>h. loop_out (process_loop fuel H mem vq 0 (srv_session srv, h, w)) h"
    let ?g = "map_option (\<lambda>(r, vq', s', w').
        let srv' = srv\<lparr>srv_session := s',
                       srv_vrings := (srv_vrings srv)[idx := ?slot\<lparr>slot_vq := Some vq'\<rparr>]\<rparr>
        in case r of
             Err e \<Rightarrow> (Err e, srv', w')
           | Panic \<Rightarrow> (Panic, srv', w')
           | Ok processed \<Rightarrow> (Ok (), srv', case slot_call_fd ?slot of
                 Some d \<Rightarrow> if 0 < processed then notify V d w' else w' | None \<Rightarrow> w'))"
    have "confined (guest_bytes srv) (\<lambda>h. (?g (fst (?f h)), snd (?f h)))"
      unfolding guest_bytes_def mem option.case by (rule confined_map) (rule confined_loop [OF assms])
    moreover have "(\<lambda>h. srv_out (process_vring fuel H V idx (srv, h, w)) h) =
        (\<lambda>h. (?g (fst (?f h)), snd (?f h)))"
      using False by (intro ext) (auto simp: process_vring_def mem vq Let_def
          split: option.split prod.split result.split)
    ultimately show ?thesis by (simp only:)
  qed
qed

lemma process_kicks_mem:
  assumes "process_kicks fuel H V ks (srv, h, w) = Some (r, srv', h', w')"
  shows "srv_mem srv' = srv_mem srv"
  using assms
proof (induction ks arbitrary: srv h w)
  case (Cons k ks)
  obtain i d e where k: "k = ((i, d), e)" by (metis surj_pair)
  show ?case
  proof (cases "e AND POLLIN \<noteq> 0")
    case True
    obtain w1 where d: "drain_fd fuel V d w = Some w1"
      using Cons.prems True by (cases "drain_fd fuel V d w") (simp_all add: k)
    obtain r1 srv1 h1 w2 where pv: "process_vring fuel H V i (srv, h, w1) = Some (r1, srv1, h1, w2)"
      using Cons.prems True d by (cases "process_vring fuel H V i (srv, h, w1)") (auto simp: k)
    have "srv' = srv1 \<or> process_kicks fuel H V ks (srv1, h1, w2) = Some (r, srv', h', w')"
      using Cons.prems True d pv by (cases r1) (simp_all add: k)
    with Cons.IH process_vring_mem [OF pv] show ?thesis by auto
  next
    case False
    with Cons show ?thesis by (simp add: k)
  qed
qed simp

lemma process_kicks_confined:
  assumes "buffers_only H"
  shows "confined (guest_bytes srv) (\<lambda>h. srv_out (process_kicks fuel H V ks (srv, h, w)) h)"
proof (induction ks arbitrary: srv w)
  case Nil
  then show ?case by (simp add: confined_const)
next
  case (Cons k ks)
  obtain i d e where k: "k = ((i, d), e)" by (metis surj_pair)
  show ?case
  proof (cases "e AND POLLIN = 0 \<or> drain_fd fuel V d w = None")
    case True
    then show ?thesis
      using Cons.IH [of srv w] by (cases "e AND POLLIN = 0") (simp_all add: k confined_const)
  next
    case False
    then obtain w1 where w1: "drain_fd fuel V d w = Some w1" by auto
    let ?f = "\<lambda>h. srv_out (process_vring fuel H V i (srv, h, w1)) h"
    let ?k = "\<lambda>x h. case x of
        None \<Rightarrow> (None, h)
      | Some (r, srv', w') \<Rightarrow> (case r of
            Ok _ \<Rightarrow> srv_out (process_kicks fuel H V ks (srv', h, w')) h
          | Err e \<Rightarrow> (Some (Err e, srv', w'), h)
          | Panic \<Rightarrow> (Some (Panic, srv', w'), h))"
    have "confined (guest_bytes srv) (\<lambda>h. case ?f h of (x, h') \<Rightarrow> ?k x h')"
    proof (rule confined_bind_reached [OF process_vring_confined [OF assms]])
      fix x h h'
      assume f: "?f h = (x, h')"
      show "confined (guest_bytes srv) (?k x)"
      proof (cases x)
        case (Some y)
        obtain r srv' w' where y: "y = (r, srv', w')" by (metis surj_pair)
        obtain h1 where "process_vring fuel H V i (srv, h, w1) = Some (r, srv', h1, w')"
          using f by (cases "process_vring fuel H V i (srv, h, w1)") (auto simp: Some y)
        then have "guest_bytes srv' = guest_bytes srv"
          by (simp add: guest_bytes_def process_vring_mem)
        with Cons.IH [of srv' w'] show ?thesis
          by (cases r) (simp_all add: Some y confined_const)
      qed (simp add: confined_const)
    qed
    from confined_none [OF this]
    have "confined (guest_bytes srv) (\<lambda>h. if fst (case ?f h of (x, h') \<Rightarrow> ?k x h') = None then (None, h)
        else case ?f h of (x, h') \<Rightarrow> ?k x h')" .
    moreover have "(\<lambda>h. srv_out (process_kicks fuel H V (k # ks) (srv, h, w)) h) =
        (\<lambda>h. if fst (case ?f h of (x, h') \<Rightarrow> ?k x h') = None then (None, h)
           else case ?f h of (x, h') \<Rightarrow> ?k x h')"
      using False by (intro ext) (auto simp: k w1 srv_out_def split: option.split prod.split result.split)
    ultimately show ?thesis by (simp only:)
  qed
qed

text \<open>
  A turn either leaves memory alone or ends with the kicks, on a server it got to without
  looking at memory: the one it started with, or what a control message made of it.
\<close>

definition turn_server :: "'w host \<Rightarrow> 'w vmm \<Rightarrow> server \<Rightarrow> server \<Rightarrow> bool" where
  "turn_server H V srv srv1 \<longleftrightarrow>
     srv1 = srv \<or> (\<exists>w. srv1 = fst (snd (handle_one_message H V (srv, w))))"

lemma server_turn_shape:
  obtains (quiet) t srv1 w1 where "turn_server H V srv srv1"
      "\<And>g. server_turn fuel H V (srv, g, w) = Some (t, srv1, g, w1)"
  | (kicks) ks srv1 w1 where "turn_server H V srv srv1"
      "\<And>g. server_turn fuel H V (srv, g, w) = turn_kicks fuel H V ks (srv1, g, w1)"
proof -
  obtain p w1 where poll: "sys_poll V (srv_conn srv # map snd (kick_slots (srv_vrings srv))) w = (p, w1)"
    by fastforce
  obtain r srv1 w2 where m: "handle_one_message H V (srv, w1) = (r, srv1, w2)" by (metis surj_pair)
  have served: "turn_server H V srv srv" "turn_server H V srv srv1"
    using m by (auto simp: turn_server_def) (metis fst_conv snd_conv)
  have polled: thesis if "turn_server H V srv srv1"
      "\<And>g. server_turn fuel H V (srv, g, w) = turn_polled fuel H V e ks (srv1, g, w1)"
    for e ks srv1 w1
    using that quiet kicks by (cases "e AND (POLLHUP OR POLLERR) \<noteq> 0") (simp_all add: turn_polled_def)
  show thesis
  proof (cases p)
    case (Inl e)
    then show thesis using poll by (intro quiet [OF served(1)]) (simp add: server_turn_def Let_def)
  next
    case (Inr rv)
    show thesis
    proof (cases "hd rv AND POLLIN \<noteq> 0")
      case True
      show thesis
      proof (cases r)
        case (Ok u)
        show thesis
          by (rule polled [OF served(2)]) (simp add: server_turn_def Let_def poll Inr True m Ok)
      next
        case (Err e)
        show thesis by (rule quiet [OF served(2)]) (simp add: server_turn_def Let_def poll Inr True m Err)
      next
        case Panic
        show thesis by (rule quiet [OF served(2)]) (simp add: server_turn_def Let_def poll Inr True m Panic)
      qed
    next
      case False
      show thesis by (rule polled [OF served(1)]) (use False in \<open>simp add: server_turn_def Let_def poll Inr\<close>)
    qed
  qed
qed

lemma server_turn_confined:
  assumes "buffers_only H" and turn: "server_turn fuel H V (srv, h, w) = Some (t, srv', h', w')"
  shows "p \<notin> guest_bytes srv' \<Longrightarrow> h' p = h p"
    and "agree (guest_bytes srv') h h2 \<Longrightarrow>
      \<exists>h2'. server_turn fuel H V (srv, h2, w) = Some (t, srv', h2', w') \<and> agree (guest_bytes srv') h' h2'"
proof -
  have "(p \<notin> guest_bytes srv' \<longrightarrow> h' p = h p) \<and> (agree (guest_bytes srv') h h2 \<longrightarrow>
      (\<exists>h2'. server_turn fuel H V (srv, h2, w) = Some (t, srv', h2', w') \<and> agree (guest_bytes srv') h' h2'))"
  proof (cases rule: server_turn_shape [of H V srv fuel w])
    case (quiet t' srv1 w1)
    with turn show ?thesis by auto
  next
    case (kicks ks srv1 w1)
    let ?f = "\<lambda>g. srv_out (process_kicks fuel H V ks (srv1, g, w1)) g"
    have conf: "confined (guest_bytes srv1) ?f"
      by (rule process_kicks_confined [OF assms(1)])
    obtain r where r: "process_kicks fuel H V ks (srv1, h, w1) = Some (r, srv', h', w')"
        "t = (if r = Ok () then Continue else Stop r)"
      using turn kicks(2) [of h] by (auto simp: turn_kicks_def split: option.splits)
    have same: "guest_bytes srv1 = guest_bytes srv'"
      using process_kicks_mem [OF r(1)] by (simp add: guest_bytes_def)
    have "h' p = h p" if "p \<notin> guest_bytes srv'"
      using confinedD(1) [OF conf, of p h] that r(1) same by simp
    moreover have "\<exists>h2'. server_turn fuel H V (srv, h2, w) = Some (t, srv', h2', w') \<and>
        agree (guest_bytes srv') h' h2'" if "agree (guest_bytes srv') h h2"
    proof -
      have "fst (?f h2) = Some (r, srv', w')" "agree (guest_bytes srv') h' (snd (?f h2))"
        using confinedD(2,3) [OF conf, of h h2] that r(1) same by simp_all
      then show ?thesis
        using kicks(2) [of h2] r(2)
        by (cases "process_kicks fuel H V ks (srv1, h2, w1)") (auto simp: turn_kicks_def)
    qed
    ultimately show ?thesis by blast
  qed
  then show "p \<notin> guest_bytes srv' \<Longrightarrow> h' p = h p"
    and "agree (guest_bytes srv') h h2 \<Longrightarrow>
      \<exists>h2'. server_turn fuel H V (srv, h2, w) = Some (t, srv', h2', w') \<and> agree (guest_bytes srv') h' h2'"
    by blast+
qed

section \<open>Mapped memory\<close>

text \<open>The bytes of the mappings the server holds, and that its regions lie inside them.\<close>

definition mapped_bytes :: "server \<Rightarrow> host_ptr set" where
  "mapped_bytes srv = (case srv_mem srv of None \<Rightarrow> {}
     | Some mem \<Rightarrow> \<Union>r \<in> set mem. slice_bytes (rg_mmap_base r, unat (rg_mmap_len r)))"

definition regions_mapped :: "server \<Rightarrow> bool" where
  "regions_mapped srv \<longleftrightarrow>
     (case srv_mem srv of None \<Rightarrow> True | Some mem \<Rightarrow> \<forall>r \<in> set mem. region_mapped r)"

lemma regions_mapped_new: "regions_mapped (server_new conn s)"
  by (simp add: regions_mapped_def server_new_def)

lemma guest_bytes_mapped: "regions_mapped srv \<Longrightarrow> guest_bytes srv \<subseteq> mapped_bytes srv"
  by (force simp: regions_mapped_def guest_bytes_def mapped_bytes_def region_bytes_def slice_bytes_def
      region_mapped_def split: option.splits)

text \<open>
  A front-end none of whose memory tables has a region so long that its size and the slack for
  the alignment of its offset add up to more than a \<open>u64\<close> holds.
\<close>

definition fair_table :: "'w vmm \<Rightarrow> bytes \<Rightarrow> bool" where
  "fair_table V payload \<longleftrightarrow> (\<forall>regions. memory_regions_from_bytes payload = Ok regions \<longrightarrow>
     (\<forall>rg \<in> set regions. unat (memory_size rg) + unat (mmap_offset rg mod page_size V) < 2 ^ 64))"

definition fair_front_end :: "'w vmm \<Rightarrow> bool" where
  "fair_front_end V \<longleftrightarrow>
     (\<forall>w header payload fds w'. connection_recv V w = (Ok (header, payload, fds), w') \<longrightarrow>
        msg_header_request header = Ok SetMemTable \<longrightarrow> fair_table V payload)"

definition keeps_mapped :: "'w control \<Rightarrow> bool" where
  "keeps_mapped c \<longleftrightarrow>
     (\<forall>srv w. regions_mapped srv \<longrightarrow> regions_mapped (fst (snd (c (srv, w)))))"

named_theorems keeps_mapped \<open>control handlers that keep every region inside its mapping\<close>

lemma keeps_mapped_done [keeps_mapped]: "keeps_mapped ctl_done"
  by (simp add: keeps_mapped_def ctl_done_def)

lemma keeps_mapped_try [keeps_mapped]:
  "(\<And>v. r = Ok v \<Longrightarrow> keeps_mapped (k v)) \<Longrightarrow> keeps_mapped (ctl_try r k)"
  by (cases r) (auto simp: keeps_mapped_def ctl_try_def)

lemma keeps_mapped_reply [keeps_mapped]: "keeps_mapped (ctl_reply V r body)"
  by (auto simp: keeps_mapped_def ctl_reply_def split: prod.splits)

lemma update_slot_mem [simp]: "srv_mem (update_slot i f srv) = srv_mem srv"
  by (simp add: update_slot_def)

lemma keeps_mapped_slot [keeps_mapped]: "keeps_mapped (ctl_slot i f)"
  by (auto simp: keeps_mapped_def ctl_slot_def regions_mapped_def)

lemma keeps_mapped_fds [keeps_mapped]:
  "keeps_mapped (ctl_set_kick H payload fds)" "keeps_mapped (ctl_set_call H payload fds)"
  unfolding ctl_set_kick_def ctl_set_call_def
  by (intro keeps_mapped_try; simp add: keeps_mapped_def regions_mapped_def split: option.split)+

lemma keeps_mapped_get_vring_base [keeps_mapped]: "keeps_mapped (ctl_get_vring_base V payload)"
  unfolding ctl_get_vring_base_def
  by (intro keeps_mapped_try) (auto simp: keeps_mapped_def ctl_reply_def Let_def split: prod.splits)

lemma map_regions_mapped:
  assumes "map_regions V regions fds w = (Ok mem, w')"
    and "\<forall>rg \<in> set regions. unat (memory_size rg) + unat (mmap_offset rg mod page_size V) < 2 ^ 64"
  shows "\<forall>r \<in> set mem. region_mapped r"
  using assms map_loop_mapped [of V "zip regions fds" "[]" w mem w']
  by (auto simp: map_regions_def dest!: set_zip_leftD split: if_splits)

lemma keeps_mapped_set_mem_table [keeps_mapped]:
  assumes "fair_table V payload"
  shows "keeps_mapped (ctl_set_mem_table V payload fds)"
  unfolding ctl_set_mem_table_def
proof (rule keeps_mapped_try)
  fix regions
  assume "memory_regions_from_bytes payload = Ok regions"
  with assms have "\<forall>r \<in> set mem. region_mapped r" if "map_regions V regions fds w = (Ok mem, w')" for mem w w'
    using that map_regions_mapped by (metis fair_table_def)
  then show "keeps_mapped (\<lambda>(srv, w). if length regions \<noteq> length fds then (Err Truncated, srv, w)
     else case map_regions V regions fds w of
            (Err e, w') \<Rightarrow> (Err e, srv, w')
          | (Panic, w') \<Rightarrow> (Panic, srv, w')
          | (Ok mem, w') \<Rightarrow>
              (Ok (), srv\<lparr>srv_mem := Some mem\<rparr>,
               case srv_mem srv of None \<Rightarrow> w' | Some old \<Rightarrow> fold (drop_region V) old w'))"
    by (auto simp: keeps_mapped_def regions_mapped_def split: prod.splits result.splits)
qed

lemma keeps_mapped_request:
  assumes "r = SetMemTable \<Longrightarrow> fair_table V payload"
  shows "keeps_mapped (handle_request H V r payload fds)"
proof -
  have "keeps_mapped (\<lambda>(srv, w). (Ok (), srv, close_opt H d w))" for d
    by (simp add: keeps_mapped_def)
  with assms show ?thesis
    by (cases r) (simp_all add: handle_request_def keeps_mapped)
qed

lemma keeps_mapped_message:
  assumes "fair_front_end V"
  shows "keeps_mapped (handle_one_message H V)"
proof -
  have "keeps_mapped (handle_request H V r payload fds)"
    if "connection_recv V w = (Ok (header, payload, fds), w')" "msg_header_request header = Ok r"
    for w header payload fds w' r
    using keeps_mapped_request assms that by (metis fair_front_end_def)
  then show ?thesis
    by (auto simp: keeps_mapped_def handle_one_message_def split: prod.splits result.splits)
qed

lemma server_turn_mapped:
  assumes "fair_front_end V" and "regions_mapped srv"
    and turn: "server_turn fuel H V (srv, h, w) = Some (t, srv', h', w')"
  shows "regions_mapped srv'"
proof -
  have served: "regions_mapped srv1" if "turn_server H V srv srv1" for srv1
    using that assms(2) keeps_mapped_message [OF assms(1), of H]
    by (auto simp: turn_server_def keeps_mapped_def)
  show ?thesis
  proof (cases rule: server_turn_shape [of H V srv fuel w])
    case (quiet t1 srv1 w1)
    with turn served show ?thesis by simp
  next
    case (kicks ks srv1 w1)
    then obtain r where "process_kicks fuel H V ks (srv1, h, w1) = Some (r, srv', h', w')"
      using turn by (auto simp: turn_kicks_def split: option.splits)
    with process_kicks_mem [OF this] served kicks(1) show ?thesis
      by (simp add: regions_mapped_def)
  qed
qed

end
