(* ===== verification/Queue_Service.thy ===== *)
theory Queue_Service
  imports Mem_Host
begin

text \<open>
  What the loop over a vring amounts to, for a driver that keeps to the protocol: its rings and
  its descriptor table are mapped, and what it publishes does not overlap what the device writes.
  The requests are then answered in the order of the available ring, as the session answers them
  one after the other, each reply is in the buffers of its request, and the used ring has one
  entry for each. The loop ends after one round per request and a last one.
\<close>

section \<open>Reading does not depend on what is written\<close>

text \<open>A part of a slice reads the same if the whole slice does.\<close>

lemma load_part:
  assumes "load h' (p, n) = load h (p, n)" and "k + m \<le> n"
  shows "load h' (ptr_add p k, m) = load h (ptr_add p k, m)"
  using assms by (simp add: load_sub)

lemma desc_offset:
  fixes idx :: u16
  assumes "d < 2 ^ 16"
  shows "unat (ucast idx * DESC_LEN + of_nat d) = 16 * unat idx + d"
proof -
  have "unat idx < 2 ^ 16" "unat (ucast idx :: u64) = unat idx"
    using slot_offset(1) [of idx] by (simp_all add: unsigned_ucast_eq take_bit_nat_eq_self)
  with assms show ?thesis
    by (simp add: DESC_LEN_def unat_word_ariths unat_of_nat)
qed

lemma read_desc_stable:
  assumes dis: "regions_disjoint User mem" and table: "ring_at mem (vq_desc_addr vq) (16 * n) p"
    and idx: "unat idx < n" and same: "load h' (p, 16 * n) = load h (p, 16 * n)"
  shows "read_desc mem h' vq idx = read_desc mem h vq idx"
proof -
  have field: "load h' s = load h s"
    if "get_slice mem User (vq_desc_addr vq + (ucast idx * DESC_LEN + of_nat d)) m = Some s"
      "d + unat m \<le> 16" "0 < unat m" for d m s
  proof -
    have fits: "16 * unat idx + d + unat m \<le> 16 * n" using idx that(2) by simp
    have "s = (ptr_add p (16 * unat idx + d), unat m)"
      using ring_field [OF dis table desc_offset fits that(3)] that by simp
    with fits show ?thesis using load_part [OF same] by simp
  qed
  have "mem_read_u64 mem h' User (vq_desc_addr vq + ucast idx * DESC_LEN) =
      mem_read_u64 mem h User (vq_desc_addr vq + ucast idx * DESC_LEN)"
    using field [of 0 8] by (auto simp: mem_read_u64_def intro!: option.map_cong)
  moreover have "mem_read_u32 mem h' User (vq_desc_addr vq + ucast idx * DESC_LEN + 8) =
      mem_read_u32 mem h User (vq_desc_addr vq + ucast idx * DESC_LEN + 8)"
    using field [of 8 4] by (auto simp: mem_read_u32_def add.assoc intro!: option.map_cong)
  moreover have "mem_read_u16 mem h' User (vq_desc_addr vq + ucast idx * DESC_LEN + 12) =
      mem_read_u16 mem h User (vq_desc_addr vq + ucast idx * DESC_LEN + 12)"
    using field [of 12 2] by (auto simp: mem_read_u16_def add.assoc intro!: option.map_cong)
  moreover have "mem_read_u16 mem h' User (vq_desc_addr vq + ucast idx * DESC_LEN + 14) =
      mem_read_u16 mem h User (vq_desc_addr vq + ucast idx * DESC_LEN + 14)"
    using field [of 14 2] by (auto simp: mem_read_u16_def add.assoc intro!: option.map_cong)
  ultimately show ?thesis by (simp add: read_desc_def Let_def)
qed

text \<open>A path that stays inside the first \<open>n\<close> descriptors of the table.\<close>

fun path_within :: "nat \<Rightarrow> u16 \<Rightarrow> descriptor list \<Rightarrow> bool" where
  "path_within n idx [] \<longleftrightarrow> True"
| "path_within n idx (d # ds) \<longleftrightarrow> unat idx < n \<and> path_within n (d_next d) ds"

lemma desc_path_stable:
  assumes "regions_disjoint User mem" and "ring_at mem (vq_desc_addr vq) (16 * n) p"
    and "load h' (p, 16 * n) = load h (p, 16 * n)"
  shows "desc_path mem h vq idx ds \<Longrightarrow> path_within n idx ds \<Longrightarrow> desc_path mem h' vq idx ds"
proof (induction ds arbitrary: idx)
  case (Cons d ds)
  with read_desc_stable [OF assms(1,2) _ assms(3), of idx] show ?case
    by (auto split: if_splits)
qed simp

section \<open>Jobs\<close>

text \<open>
  A published request: the head of its chain, the descriptors of the chain, and the host memory
  of its readable and writable segments.
\<close>

record job =
  job_head :: u16
  job_descs :: "descriptor list"
  job_in :: slices
  job_out :: slices

definition job_chain :: "job \<Rightarrow> desc_chain" where
  "job_chain j = \<lparr>dc_head = job_head j,
     dc_readable = segments_of (\<lambda>d. \<not> flag_on VIRTQ_DESC_F_WRITE d) (job_descs j),
     dc_writable = segments_of (flag_on VIRTQ_DESC_F_WRITE) (job_descs j)\<rparr>"

definition job_request :: "heap \<Rightarrow> job \<Rightarrow> bytes" where
  "job_request h j = load_all h (job_in j)"

definition job_laid_out :: "guest_memory \<Rightarrow> heap \<Rightarrow> virtqueue \<Rightarrow> job \<Rightarrow> bool" where
  "job_laid_out mem h vq j \<longleftrightarrow>
     desc_path mem h vq (job_head j) (job_descs j) \<and>
     path_within (unat (vq_queue_size vq)) (job_head j) (job_descs j) \<and>
     length (job_descs j) \<le> MAX_CHAIN_LEN \<and>
     slices_of mem (dc_readable (job_chain j)) = Some (job_in j) \<and>
     slices_of mem (dc_writable (job_chain j)) = Some (job_out j)"

text \<open>A request a byte slice can hold and, for a \<open>READ\<close>, room for all it asks for.\<close>

definition job_fits :: "heap \<Rightarrow> job \<Rightarrow> bool" where
  "job_fits h j \<longleftrightarrow> rust_slice (job_request h j) \<and>
     (opcode_from (u32_at 4 (job_request h j)) = OpRead \<and> 60 \<le> length (job_request h j) \<longrightarrow>
        OUT_HEADER_LEN + unat (u32_at 56 (job_request h j)) \<le> slices_len (job_out j) \<and>
        slices_len (job_out j) < 2 ^ 64)"

lemma read_chain_job:
  "job_laid_out mem h vq j \<Longrightarrow> read_chain mem h vq (job_head j) = Ok (job_chain j)"
  by (auto simp: read_chain_def chain_loop_Ok fold_add_segment job_chain_def job_laid_out_def)

text \<open>The bytes of a reply; no reply is no bytes.\<close>

primrec reply_bytes :: "reply \<Rightarrow> bytes" where
  "reply_bytes (ReplyBytes b) = b"
| "reply_bytes ReplyNone = []"

text \<open>What answering a job does to memory: the reply is scattered, then the job is published as used.\<close>

definition serve :: "host_ptr \<Rightarrow> u16 \<Rightarrow> job \<Rightarrow> reply \<Rightarrow> heap \<Rightarrow> heap" where
  "serve pu q j r h =
     (let h1 = scatter_store (job_out j) (reply_bytes r) h in
      push_used_stores pu (unat (ring_idx h1 pu mod q)) (ring_idx h1 pu) (job_head j)
        (of_nat (min (length (reply_bytes r)) (slices_len (job_out j)))) h1)"

text \<open>The three areas of a queue, mapped, in regions that do not overlap.\<close>

definition vring_mapped ::
  "guest_memory \<Rightarrow> virtqueue \<Rightarrow> host_ptr \<Rightarrow> host_ptr \<Rightarrow> host_ptr \<Rightarrow> bool" where
  "vring_mapped mem vq pd pa pu \<longleftrightarrow>
     regions_disjoint Gpa mem \<and> regions_disjoint User mem \<and> vq_queue_size vq \<noteq> 0 \<and>
     ring_at mem (vq_desc_addr vq) (16 * unat (vq_queue_size vq)) pd \<and>
     ring_at mem (vq_avail_addr vq) (4 + 2 * unat (vq_queue_size vq)) pa \<and>
     ring_at mem (vq_used_addr vq) (4 + 8 * unat (vq_queue_size vq)) pu"

lemma process_chain_serves:
  assumes ring: "vring_mapped mem vq pd pa pu" and io: "vectored_io H"
    and job: "job_laid_out mem h vq j" "job_fits h j" "all_apart (job_out j)"
    and handle: "session_handle H (job_request h j) (s, w) = (Some r, s', w')"
  shows "process_chain H mem vq (job_head j) (s, h, w) = (Ok (), s', serve pu (vq_queue_size vq) j r h, w')"
proof -
  have dis: "regions_disjoint Gpa mem" "regions_disjoint User mem"
    and used: "vq_queue_size vq \<noteq> 0" "ring_at mem (vq_used_addr vq) (4 + 8 * unat (vq_queue_size vq)) pu"
    using ring by (simp_all add: vring_mapped_def)
  have segs: "slices_of mem (dc_readable (job_chain j)) = Some (job_in j)"
      "slices_of mem (dc_writable (job_chain j)) = Some (job_out j)"
    using job(1) by (simp_all add: job_laid_out_def)
  have gather: "gather_readable mem h (job_chain j) = Ok (job_request h j)"
    by (simp add: gather_readable_eq segs job_request_def)
  have "dispatch_request H mem (job_chain j) (take REQUEST_HEADER_LEN (job_request h j)) (s, h, w) =
      dispatch_generic H mem (job_chain j) (s, h, w)"
    using job(2,3) by (intro dispatch_request_eq [OF dis(1) gather _ io])
      (auto simp: job_fits_def read_has_room_def segs)
  moreover have "dispatch_generic H mem (job_chain j) (s, h, w) =
      (Ok (of_nat (min (length (reply_bytes r)) (slices_len (job_out j)))), s',
       scatter_store (job_out j) (reply_bytes r) h, w')"
    by (cases r) (simp_all add: dispatch_generic_def gather handle scatter_reply_def vq_lift_def
        scatter_writable_eq [OF dis(1) segs(2)])
  ultimately show ?thesis
    by (simp add: process_chain_def read_chain_job [OF job(1)] gather_readable_prefix_eq [OF dis(1) gather]
        push_used_ring [OF dis(2) used(2,1)] serve_def vq_lift_def Let_def)
qed

section \<open>The loop\<close>

text \<open>Everything outside the used ring and the buffers of the job reads as before.\<close>

lemma load_push_used:
  assumes "slices_apart s (pu, 4 + 8 * n)" and "slot < n"
  shows "load (push_used_stores pu slot idx head wl h) s = load h s"
proof -
  have "slices_apart s (ptr_add pu k, m)" if "k + m \<le> 4 + 8 * n" for k m
    using assms(1) that by (rule slices_apart_part)
  with assms(2) show ?thesis
    by (simp add: push_used_stores_def load_store_apart)
qed

lemma load_serve:
  assumes "q \<noteq> 0" and "slices_apart s (pu, 4 + 8 * unat q)" and "\<forall>t \<in> set (job_out j). slices_apart s t"
  shows "load (serve pu q j r h) s = load h s"
  unfolding serve_def Let_def
  by (simp add: load_push_used [OF assms(2) unat_mod_less [OF assms(1)]] load_scatter_apart [OF assms(3)])

text \<open>
  The heads from position \<open>i\<close> of the available ring on, up to its index, are those of the
  jobs.
\<close>

fun published :: "heap \<Rightarrow> host_ptr \<Rightarrow> u16 \<Rightarrow> u16 \<Rightarrow> job list \<Rightarrow> bool" where
  "published h pa q i [] \<longleftrightarrow> ring_idx h pa = i"
| "published h pa q i (j # js) \<longleftrightarrow>
     ring_idx h pa \<noteq> i \<and> avail_entry h pa (unat (i mod q)) = job_head j \<and> published h pa q (i + 1) js"

lemma published_stable:
  assumes "load h' (pa, 4 + 2 * unat q) = load h (pa, 4 + 2 * unat q)" and "q \<noteq> 0"
  shows "published h pa q i js \<Longrightarrow> published h' pa q i js"
proof (induction js arbitrary: i)
  case Nil
  have "ring_idx h' pa = ring_idx h pa"
    using load_part [OF assms(1), of 2 2] assms(2) unat_gt_0 [of q] by (simp add: ring_idx_def)
  with Nil show ?case by simp
next
  case (Cons j js)
  have "ring_idx h' pa = ring_idx h pa"
    using load_part [OF assms(1), of 2 2] assms(2) unat_gt_0 [of q] by (simp add: ring_idx_def)
  moreover have "avail_entry h' pa (unat (i mod q)) = avail_entry h pa (unat (i mod q))"
    using load_part [OF assms(1), of "4 + 2 * unat (i mod q)" 2] unat_mod_less [OF assms(2), of i]
    by (simp add: avail_entry_def)
  ultimately show ?case using Cons by simp
qed

text \<open>
  What the driver writes for the device, and what the device writes. No part of the first
  overlaps any part of the second, and no two parts of the second overlap.
\<close>

definition driver_area :: "u16 \<Rightarrow> host_ptr \<Rightarrow> host_ptr \<Rightarrow> job list \<Rightarrow> slices" where
  "driver_area q pd pa js = (pd, 16 * unat q) # (pa, 4 + 2 * unat q) # concat (map job_in js)"

definition device_area :: "u16 \<Rightarrow> host_ptr \<Rightarrow> job list \<Rightarrow> slices" where
  "device_area q pu js = (pu, 4 + 8 * unat q) # concat (map job_out js)"

definition areas_apart :: "u16 \<Rightarrow> host_ptr \<Rightarrow> host_ptr \<Rightarrow> host_ptr \<Rightarrow> job list \<Rightarrow> bool" where
  "areas_apart q pd pa pu js \<longleftrightarrow>
     (\<forall>s \<in> set (driver_area q pd pa js). \<forall>t \<in> set (device_area q pu js). slices_apart s t) \<and>
     all_apart (device_area q pu js)"

lemma all_apart_append:
  "all_apart (xs @ ys) \<longleftrightarrow> all_apart xs \<and> all_apart ys \<and> (\<forall>s \<in> set xs. \<forall>t \<in> set ys. slices_apart s t)"
  by (auto simp: all_apart_def sorted_wrt_append)

lemma device_area_Cons:
  assumes "all_apart (device_area q pu (j # js))"
  shows "all_apart ((pu, 4 + 8 * unat q) # job_out j)" and "all_apart (device_area q pu js)"
    and "t \<in> set (job_out j) \<Longrightarrow> \<forall>u \<in> set (device_area q pu js). slices_apart t u"
proof -
  have device: "device_area q pu (j # js) = (pu, 4 + 8 * unat q) # job_out j @ concat (map job_out js)"
    and rest: "device_area q pu js = (pu, 4 + 8 * unat q) # concat (map job_out js)"
    by (simp_all add: device_area_def)
  show "all_apart ((pu, 4 + 8 * unat q) # job_out j)" "all_apart (device_area q pu js)"
    using assms unfolding device rest by (simp_all add: all_apart_append)
  show "\<forall>u \<in> set (device_area q pu js). slices_apart t u" if "t \<in> set (job_out j)"
    using assms that unfolding device rest
    by (auto simp only: set_simps all_apart_Cons all_apart_append set_append slices_apart_sym)
qed

lemma areas_apart_Cons:
  assumes "areas_apart q pd pa pu (j # js)"
  shows "areas_apart q pd pa pu js" and "all_apart (job_out j)"
    and "s \<in> set (driver_area q pd pa js) \<Longrightarrow> slices_apart s (pu, 4 + 8 * unat q)"
    and "s \<in> set (driver_area q pd pa js) \<Longrightarrow> \<forall>t \<in> set (job_out j). slices_apart s t"
proof -
  have driver: "set (driver_area q pd pa js) \<subseteq> set (driver_area q pd pa (j # js))"
    and device: "set (device_area q pu js) \<subseteq> set (device_area q pu (j # js))"
      "insert (pu, 4 + 8 * unat q) (set (job_out j)) \<subseteq> set (device_area q pu (j # js))"
    by (auto simp: driver_area_def device_area_def)
  have apart: "slices_apart s t"
    if "s \<in> set (driver_area q pd pa js)" "t \<in> set (device_area q pu (j # js))" for s t
    using assms driver that unfolding areas_apart_def by blast
  have all: "all_apart (device_area q pu (j # js))"
    using assms by (simp add: areas_apart_def)
  show "areas_apart q pd pa pu js"
    using apart device(1) device_area_Cons(2) [OF all] unfolding areas_apart_def by blast
  show "all_apart (job_out j)"
    using device_area_Cons(1) [OF all] by simp
  show "slices_apart s (pu, 4 + 8 * unat q)" "\<forall>t \<in> set (job_out j). slices_apart s t"
    if "s \<in> set (driver_area q pd pa js)"
    using apart that device(2) by blast+
qed

definition serve_all :: "host_ptr \<Rightarrow> u16 \<Rightarrow> job list \<Rightarrow> reply list \<Rightarrow> heap \<Rightarrow> heap" where
  "serve_all pu q js rs h = fold (\<lambda>(j, r). serve pu q j r) (zip js rs) h"

lemma driver_area_stable:
  assumes "areas_apart q pd pa pu (j # js)" and "q \<noteq> 0" and "s \<in> set (driver_area q pd pa js)"
  shows "load (serve pu q j r h) s = load h s"
  using areas_apart_Cons(3,4) [OF assms(1,3)] assms(2) by (intro load_serve)

lemma job_stable:
  assumes ring: "vring_mapped mem vq pd pa pu" and apart: "areas_apart (vq_queue_size vq) pd pa pu (j # js)"
    and j': "j' \<in> set js"
  shows "job_laid_out mem h vq j' \<Longrightarrow> job_laid_out mem (serve pu (vq_queue_size vq) j r h) vq j'"
    and "job_request (serve pu (vq_queue_size vq) j r h) j' = job_request h j'"
    and "job_fits (serve pu (vq_queue_size vq) j r h) j' = job_fits h j'"
proof -
  let ?h = "serve pu (vq_queue_size vq) j r h"
  have load: "load ?h s = load h s" if "s \<in> set (driver_area (vq_queue_size vq) pd pa js)" for s
    using that ring by (intro driver_area_stable [OF apart]) (simp_all add: vring_mapped_def)
  have "load ?h (pd, 16 * unat (vq_queue_size vq)) = load h (pd, 16 * unat (vq_queue_size vq))"
    by (rule load) (simp add: driver_area_def)
  then show "job_laid_out mem h vq j' \<Longrightarrow> job_laid_out mem ?h vq j'"
    using ring desc_path_stable [of mem vq "unat (vq_queue_size vq)" pd ?h h]
    by (simp add: job_laid_out_def vring_mapped_def)
  have "load ?h s = load h s" if "s \<in> set (job_in j')" for s
    using that j' by (intro load) (auto simp: driver_area_def)
  then show req: "job_request ?h j' = job_request h j'"
    by (simp add: job_request_def load_all_def cong: map_cong)
  then show "job_fits ?h j' = job_fits h j'"
    by (simp add: job_fits_def)
qed

text \<open>
  The loop does what the session does with the requests, in order, and leaves memory as serving
  each with its reply does. One unit of fuel per job and one for the empty ring are enough.
\<close>

lemma job_laid_out_vq [simp]:
  "job_laid_out mem h (vq\<lparr>vq_last_avail_idx := i\<rparr>) j = job_laid_out mem h vq j"
proof -
  have "read_desc mem h (vq\<lparr>vq_last_avail_idx := i\<rparr>) = read_desc mem h vq"
    by (simp add: read_desc_def fun_eq_iff)
  then have "desc_path mem h (vq\<lparr>vq_last_avail_idx := i\<rparr>) idx ds = desc_path mem h vq idx ds" for idx ds
    by (induction ds arbitrary: idx) simp_all
  then show ?thesis by (simp add: job_laid_out_def)
qed

lemma process_loop_serves:
  assumes "vring_mapped mem vq pd pa pu" and io: "vectored_io H"
    and "areas_apart (vq_queue_size vq) pd pa pu js"
    and "\<forall>j \<in> set js. job_laid_out mem h vq j \<and> job_fits h j"
    and "published h pa (vq_queue_size vq) (vq_last_avail_idx vq) js"
    and "session_run H (map (job_request h) js) (s, w) = (Some rs, s', w')"
    and "length js < fuel"
  shows "process_loop fuel H mem vq k (s, h, w) =
     Some (Ok (k + length js), vq\<lparr>vq_last_avail_idx := vq_last_avail_idx vq + of_nat (length js)\<rparr>,
       s', serve_all pu (vq_queue_size vq) js rs h, w')"
  using assms(1,3-)
proof (induction js arbitrary: fuel vq k s h w rs)
  case Nil
  obtain f where f: "fuel = Suc f" using Nil.prems(6) by (cases fuel) auto
  have "pop_avail mem h vq = (Ok None, vq)"
    using Nil.prems(1,4) by (subst pop_avail_ring [of mem vq pa]) (auto simp: vring_mapped_def)
  with Nil.prems(5) f show ?case by (simp add: serve_all_def)
next
  case (Cons j js)
  let ?q = "vq_queue_size vq" and ?vq = "vq\<lparr>vq_last_avail_idx := vq_last_avail_idx vq + 1\<rparr>"
  obtain f where f: "fuel = Suc f" using Cons.prems(6) by (cases fuel) auto
  have ring': "vring_mapped mem ?vq pd pa pu" and q: "?q \<noteq> 0"
    using Cons.prems(1) by (simp_all add: vring_mapped_def)
  have pop: "pop_avail mem h vq = (Ok (Some (job_head j)), ?vq)"
    using Cons.prems(1,4) by (subst pop_avail_ring [of mem vq pa]) (auto simp: vring_mapped_def)
  obtain r s1 w1 where r: "session_handle H (job_request h j) (s, w) = (Some r, s1, w1)"
    using Cons.prems(5) by (auto split: prod.splits option.splits)
  then obtain rs1 where rs1: "session_run H (map (job_request h) js) (s1, w1) = (Some rs1, s', w')"
      "rs = r # rs1"
    using Cons.prems(5) by (auto split: prod.splits)
  let ?h = "serve pu ?q j r h"
  note apart = areas_apart_Cons [OF Cons.prems(2)]
  have step: "process_chain H mem ?vq (job_head j) (s, h, w) = (Ok (), s1, ?h, w1)"
    using process_chain_serves [OF ring' io _ _ apart(2) r] Cons.prems(3) by simp
  note stable = job_stable [where h = h and r = r, OF Cons.prems(1,2)]
  have "map (job_request ?h) js = map (job_request h) js"
    using stable(2) by simp
  then have "session_run H (map (job_request ?h) js) (s1, w1) = (Some rs1, s', w')"
    using rs1(1) by (simp only:)
  moreover have "published ?h pa ?q (vq_last_avail_idx vq + 1) js"
    using Cons.prems(4) driver_area_stable [OF Cons.prems(2) q, of "(pa, 4 + 2 * unat ?q)" r h]
    by (intro published_stable [OF _ q, of ?h pa h]) (simp_all add: driver_area_def)
  ultimately have "process_loop f H mem ?vq (Suc k) (s1, ?h, w1) =
     Some (Ok (Suc k + length js), ?vq\<lparr>vq_last_avail_idx := vq_last_avail_idx vq + 1 + of_nat (length js)\<rparr>,
       s', serve_all pu ?q js rs1 ?h, w')"
    using Cons.IH [OF ring', of ?h s1 w1 rs1 f "Suc k"] apart(1) Cons.prems(3,6) stable(1,3) f by simp
  with f pop step rs1(2) show ?case
    by (simp add: serve_all_def ac_simps)
qed

section \<open>What the driver finds\<close>

text \<open>
  The used ring and the buffers after the jobs were served: from position \<open>i\<close> on one entry
  for each job, in order, with the head of its chain and the number of bytes written, the index
  past the last of them, and the reply, as far as there was room for it, in the job's buffers.
\<close>

definition job_done :: "heap \<Rightarrow> host_ptr \<Rightarrow> nat \<Rightarrow> job \<Rightarrow> reply \<Rightarrow> bool" where
  "job_done h pu slot j r \<longleftrightarrow>
     (let n = min (length (reply_bytes r)) (slices_len (job_out j)) in
      used_entry h pu slot = (ucast (job_head j), of_nat n) \<and>
      take n (load_all h (job_out j)) = take n (reply_bytes r))"

fun completed :: "heap \<Rightarrow> host_ptr \<Rightarrow> u16 \<Rightarrow> u16 \<Rightarrow> job list \<Rightarrow> reply list \<Rightarrow> bool" where
  "completed h pu q i [] [] \<longleftrightarrow> ring_idx h pu = i"
| "completed h pu q i (j # js) (r # rs) \<longleftrightarrow>
     job_done h pu (unat (i mod q)) j r \<and> completed h pu q (i + 1) js rs"
| "completed h pu q i _ _ \<longleftrightarrow> False"

text \<open>
  The slots of a ring whose size divides \<open>2 ^ 16\<close> follow one another even when the index
  wraps around, so a ring of size \<open>q\<close> holds \<open>q\<close> entries.
\<close>

lemma slot_of_index:
  fixes i q :: u16
  assumes "unat q dvd 2 ^ 16"
  shows "unat ((i + of_nat k) mod q) = (unat i + k) mod unat q"
proof -
  have "unat ((i + of_nat k) mod q) = (unat i + k) mod 2 ^ 16 mod unat q"
    by (simp add: unat_mod unat_word_ariths unat_of_nat mod_simps)
  also have "\<dots> = (unat i + k) mod unat q"
    using assms by (rule mod_mod_cancel)
  finally show ?thesis .
qed

lemma slots_distinct:
  assumes "0 < k" and "k < n"
  shows "(i + k) mod n \<noteq> i mod (n :: nat)"
proof
  assume "(i + k) mod n = i mod n"
  then have "n dvd k" by (metis add_diff_cancel_left' le_add1 mod_eq_dvd_iff_nat)
  with assms show False by (auto dest: dvd_imp_le)
qed

text \<open>One job.\<close>

lemma used_entry_stable:
  assumes "load h' (pu, 4 + 8 * n) = load h (pu, 4 + 8 * n)" and "0 < n"
  shows "ring_idx h' pu = ring_idx h pu" and "slot < n \<Longrightarrow> used_entry h' pu slot = used_entry h pu slot"
  using load_part [OF assms(1), of 2 2] load_part [OF assms(1), of "4 + 8 * slot" 4]
    load_part [OF assms(1), of "8 + 8 * slot" 4] assms(2)
  by (auto simp: ring_idx_def used_entry_def)

lemma serve_ring:
  assumes "q \<noteq> 0" and "all_apart ((pu, 4 + 8 * unat q) # job_out j)"
  shows "ring_idx (serve pu q j r h) pu = ring_idx h pu + 1"
    and "job_done (serve pu q j r h) pu (unat (ring_idx h pu mod q)) j r"
    and "slot < unat q \<Longrightarrow> slot \<noteq> unat (ring_idx h pu mod q) \<Longrightarrow>
      used_entry (serve pu q j r h) pu slot = used_entry h pu slot"
proof -
  let ?b = "reply_bytes r" and ?i = "ring_idx h pu" and ?U = "(pu, 4 + 8 * unat q)"
  let ?n = "min (length ?b) (slices_len (job_out j))"
  define h1 where "h1 = scatter_store (job_out j) ?b h"
  have "load h1 ?U = load h ?U"
    unfolding h1_def using assms(2) by (intro load_scatter_apart) simp
  note same = used_entry_stable [OF this]
  have q: "0 < unat q" using assms(1) by (simp add: unat_gt_0)
  have serve: "serve pu q j r h = push_used_stores pu (unat (?i mod q)) ?i (job_head j) (of_nat ?n) h1"
    using same(1) q by (simp add: serve_def h1_def Let_def)
  have "load_all (serve pu q j r h) (job_out j) = load_all h1 (job_out j)"
  proof -
    have "load (serve pu q j r h) t = load h1 t" if "t \<in> set (job_out j)" for t
      using assms(2) that slices_apart_sym unat_mod_less [OF assms(1)]
      by (auto simp: serve intro!: load_push_used [of _ _ "unat q"])
    then show ?thesis by (simp add: load_all_def cong: map_cong)
  qed
  then have "take ?n (load_all (serve pu q j r h) (job_out j)) = take ?n ?b"
    using assms(2) by (simp add: h1_def load_scatter min_def)
  then show "job_done (serve pu q j r h) pu (unat (?i mod q)) j r"
    by (simp add: job_done_def serve push_used_stores_ring Let_def)
  show "ring_idx (serve pu q j r h) pu = ?i + 1"
    by (simp add: serve push_used_stores_ring)
  show "used_entry (serve pu q j r h) pu slot = used_entry h pu slot"
    if "slot < unat q" "slot \<noteq> unat (?i mod q)"
    using that same(2) q by (simp add: serve push_used_stores_ring)
qed

lemma serve_all_Cons: "serve_all pu q (j # js) (r # rs) h = serve_all pu q js rs (serve pu q j r h)"
  by (simp add: serve_all_def)

text \<open>The rest of the jobs leaves alone what they do not own.\<close>

lemma serve_all_frame:
  assumes "q \<noteq> 0" and "\<forall>u \<in> set (device_area q pu js). slices_apart s u"
  shows "load (serve_all pu q js rs h) s = load h s"
  using assms(2)
proof (induction js arbitrary: rs h)
  case (Cons j js)
  have "load (serve pu q j r h) s = load h s" for r h
    using Cons.prems by (intro load_serve [OF assms(1)]) (simp_all add: device_area_def)
  moreover have "\<forall>u \<in> set (device_area q pu js). slices_apart s u"
    using Cons.prems by (simp add: device_area_def)
  ultimately show ?case
    using Cons.IH by (cases rs) (simp_all add: serve_all_Cons, simp add: serve_all_def)
qed (simp add: serve_all_def)

lemma serve_all_slot:
  assumes "q \<noteq> 0" and "unat q dvd 2 ^ 16" and "all_apart (device_area q pu js)"
    and "slot < unat q" and "\<forall>k < length js. slot \<noteq> (unat (ring_idx h pu) + k) mod unat q"
  shows "used_entry (serve_all pu q js rs h) pu slot = used_entry h pu slot"
  using assms(3,5)
proof (induction js arbitrary: rs h)
  case (Cons j js)
  note dev = device_area_Cons(1,2) [OF Cons.prems(1)]
  have step: "used_entry (serve pu q j r h) pu slot = used_entry h pu slot" for r
    using Cons.prems(2) slot_of_index [OF assms(2), of "ring_idx h pu" 0]
    by (intro serve_ring(3) [OF assms(1) dev(1) assms(4)]) auto
  have "slot \<noteq> (unat (ring_idx (serve pu q j r h) pu) + k) mod unat q" if "k < length js" for k r
  proof -
    have "(unat (ring_idx h pu + 1) + k) mod unat q = (unat (ring_idx h pu) + Suc k) mod unat q"
      using slot_of_index [OF assms(2), of "ring_idx h pu + 1" k]
        slot_of_index [OF assms(2), of "ring_idx h pu" "Suc k"] by (simp add: ac_simps)
    moreover have "slot \<noteq> (unat (ring_idx h pu) + Suc k) mod unat q"
      using Cons.prems(2) that by (metis Suc_less_eq length_Cons)
    ultimately show ?thesis by (simp add: serve_ring(1) [OF assms(1) dev(1)])
  qed
  with Cons.IH [OF dev(2)] step show ?case
    by (cases rs) (simp_all add: serve_all_Cons, simp add: serve_all_def)
qed (simp add: serve_all_def)

lemma serve_all_completed:
  assumes "q \<noteq> 0" and "unat q dvd 2 ^ 16" and "all_apart (device_area q pu js)"
    and "length js \<le> unat q" and "length rs = length js"
  shows "completed (serve_all pu q js rs h) pu q (ring_idx h pu) js rs"
  using assms(3-)
proof (induction js arbitrary: rs h)
  case Nil
  then show ?case by (simp add: serve_all_def)
next
  case (Cons j js)
  obtain r rs' where rs: "rs = r # rs'" using Cons.prems(3) by (cases rs) auto
  let ?h = "serve pu q j r h" and ?slot = "unat (ring_idx h pu mod q)"
  let ?g = "serve_all pu q js rs' ?h"
  note dev = device_area_Cons [OF Cons.prems(1)]
  note ring = serve_ring [where r = r and h = h, OF assms(1) dev(1)]
  have "used_entry ?g pu ?slot = used_entry ?h pu ?slot"
  proof (rule serve_all_slot [OF assms(1,2) dev(2) unat_mod_less [OF assms(1)]], intro allI impI)
    fix k assume "k < length js"
    then show "?slot \<noteq> (unat (ring_idx ?h pu) + k) mod unat q"
      using slots_distinct [of "Suc k" "unat q" "unat (ring_idx h pu)"] Cons.prems(2)
        slot_of_index [OF assms(2), of "ring_idx h pu + 1" k]
        slot_of_index [OF assms(2), of "ring_idx h pu" "Suc k"] slot_of_index [OF assms(2), of "ring_idx h pu" 0]
      by (simp add: ring(1) ac_simps)
  qed
  moreover have "load ?g t = load ?h t" if "t \<in> set (job_out j)" for t
    using serve_all_frame [OF assms(1) dev(3) [OF that]] by simp
  then have "load_all ?g (job_out j) = load_all ?h (job_out j)"
    by (simp add: load_all_def cong: map_cong)
  ultimately have "job_done ?g pu ?slot j r"
    using ring(2) by (simp add: job_done_def)
  moreover have "completed ?g pu q (ring_idx h pu + 1) js rs'"
    using Cons.IH [OF dev(2), of rs' ?h] Cons.prems rs ring(1) by simp
  ultimately show ?case by (simp add: rs serve_all_Cons)
qed

section \<open>A vring is served\<close>

lemma session_run_length:
  "session_run H bs \<sigma> = (Some rs, \<sigma>') \<Longrightarrow> length rs = length bs"
  by (induction bs arbitrary: \<sigma> rs) (auto split: prod.splits option.splits)

text \<open>
  C3. A vring of a driver that keeps to the protocol is served completely and in order. With fuel
  for one round per published request and one more, processing the vring returns: the session
  has answered the requests the chains hold, one after the other, in the order of the available
  ring; the used ring has exactly one new entry for each, in the same order, with the chain's head
  and the number of bytes written; each reply is in its request's own buffers, as far as they go;
  and the driver is notified if there was anything to do. The driver's part: the rings are mapped,
  their size divides \<open>2 ^ 16\<close> and they are not overfull, chains stay in the descriptor
  table, and what the device writes overlaps neither itself nor what the driver wrote.
\<close>

theorem vring_is_served:
  assumes "srv_mem srv = Some mem" and "idx < length (srv_vrings srv)"
    and "slot_vq (srv_vrings srv ! idx) = Some vq"
    and ring: "vring_mapped mem vq pd pa pu" and size: "unat (vq_queue_size vq) dvd 2 ^ 16"
    and apart: "areas_apart (vq_queue_size vq) pd pa pu js"
    and jobs: "\<forall>j \<in> set js. job_laid_out mem h vq j \<and> job_fits h j"
    and pub: "published h pa (vq_queue_size vq) (vq_last_avail_idx vq) js"
    and len: "length js \<le> unat (vq_queue_size vq)" "length js < fuel"
    and io: "vectored_io H"
    and ok: "passthrough_ok n (ses_fs (srv_session srv))" "n + 2 * length js < 2 ^ 64 - 1"
  shows "\<exists>rs s' h' w'.
     session_run H (map (job_request h) js) (srv_session srv, w) = (Some rs, s', w') \<and>
     list_all2 answers (map (job_request h) js) rs \<and>
     process_vring fuel H V idx (srv, h, w) = Some (Ok (),
       srv\<lparr>srv_session := s', srv_vrings := (srv_vrings srv)[idx := (srv_vrings srv ! idx)\<lparr>slot_vq :=
         Some (vq\<lparr>vq_last_avail_idx := vq_last_avail_idx vq + of_nat (length js)\<rparr>)\<rparr>]\<rparr>,
       h', (case slot_call_fd (srv_vrings srv ! idx) of
              Some d \<Rightarrow> if js \<noteq> [] then notify V d w' else w' | None \<Rightarrow> w')) \<and>
     completed h' pu (vq_queue_size vq) (ring_idx h pu) js rs"
proof -
  have "\<forall>b \<in> set (map (job_request h) js). rust_slice b"
    using jobs by (auto simp: job_fits_def)
  with session_run_safe [OF ok(1), of "map (job_request h) js" H w] ok(2)
  obtain rs s' w' where run: "session_run H (map (job_request h) js) (srv_session srv, w) = (Some rs, s', w')"
      "list_all2 answers (map (job_request h) js) rs"
    by auto
  have "all_apart (device_area (vq_queue_size vq) pu js)" "vq_queue_size vq \<noteq> 0"
    using apart ring by (simp_all add: areas_apart_def vring_mapped_def)
  then have "completed (serve_all pu (vq_queue_size vq) js rs h) pu (vq_queue_size vq) (ring_idx h pu) js rs"
    using session_run_length [OF run(1)] len(1) by (intro serve_all_completed [OF _ size]) simp_all
  moreover note process_loop_serves [OF ring io apart jobs pub run(1) len(2), of 0]
  ultimately show ?thesis
    using run assms(1-3)
    by (intro exI [of _ rs] exI [of _ s'] exI [of _ "serve_all pu (vq_queue_size vq) js rs h"] exI [of _ w'])
      (simp add: process_vring_def Let_def split: option.split)
qed

section \<open>An example\<close>

text \<open>
  A queue of two entries in one mapped page, with one request on it: \<open>STATFS\<close> on the root,
  in one readable and one writable segment.
\<close>

definition page :: guest_memory where
  "page = [\<lparr>rg_gpa = 0, rg_user_addr = 0, rg_len = 4096, rg_ptr = (1, 0),
     rg_mmap_base = (1, 0), rg_mmap_len = 4096\<rparr>]"

definition page_vq :: virtqueue where
  "page_vq = virtqueue_new 2 0 64 128"

definition page_request :: bytes where
  "page_request = le32 40 @ le32 17 @ le64 7 @ le64 1 @ replicate 16 0"

definition page_heap :: heap where
  "page_heap =
     store (1, 0) (le64 256 @ le32 40 @ le16 1 @ le16 1 @ le64 512 @ le32 96 @ le16 2 @ le16 0)
      (store (1, 64) (le16 0 @ le16 1 @ le16 0 @ le16 0)
        (store (1, 256) page_request (\<lambda>_. 0)))"

definition page_job :: job where
  "page_job = \<lparr>job_head = 0,
     job_descs = [\<lparr>d_addr = 256, d_len = 40, d_flags = 1, d_next = 1\<rparr>,
                  \<lparr>d_addr = 512, d_len = 96, d_flags = 2, d_next = 0\<rparr>],
     job_in = [((1, 256), 40)], job_out = [((1, 512), 96)]\<rparr>"

definition page_server :: server where
  "page_server = (server_new 9 (session_new mem_fs))\<lparr>srv_mem := Some page,
     srv_vrings := [vring_slot_default\<lparr>slot_vq := Some page_vq, slot_call_fd := Some 8\<rparr>]\<rparr>"

lemma page_slice [simp]:
  "unat a + unat n \<le> 4096 \<Longrightarrow> get_slice page sp a n = Some ((1, unat a), unat n)"
  by (cases sp) (simp_all add: get_slice_def find_region_def in_region_iff page_def ptr_add_def)

lemma page_load:
  "b \<le> c \<Longrightarrow> c + m \<le> b + length d \<Longrightarrow> load (store (a, b) d h) ((a, c), m) = take m (drop (c - b) d)"
  "c + m \<le> b \<or> b + length d \<le> c \<Longrightarrow> load (store (a, b) d h) ((a, c), m) = load h ((a, c), m)"
proof -
  show "load (store (a, b) d h) ((a, c), m) = take m (drop (c - b) d)" if "b \<le> c" "c + m \<le> b + length d"
  proof -
    have "load (store (a, b) d h) (ptr_add (a, b) (c - b), m) =
        take m (drop (c - b) (load (store (a, b) d h) ((a, b), length d)))"
      using that by (intro load_sub) auto
    with that show ?thesis by (simp add: ptr_add_def)
  qed
  show "load (store (a, b) d h) ((a, c), m) = load h ((a, c), m)" if "c + m \<le> b \<or> b + length d \<le> c"
    using that by (intro load_store_apart) (auto simp: slices_apart_def)
qed

lemma page_vring: "vring_mapped page page_vq (1, 0) (1, 64) (1, 128)"
  by (simp add: vring_mapped_def ring_at_def page_vq_def virtqueue_new_def)
    (simp add: regions_disjoint_def page_def)

lemma page_job_laid_out: "job_laid_out page page_heap page_vq page_job"
proof -
  have "read_desc page page_heap page_vq 0 = Ok \<lparr>d_addr = 256, d_len = 40, d_flags = 1, d_next = 1\<rparr>"
    "read_desc page page_heap page_vq 1 = Ok \<lparr>d_addr = 512, d_len = 96, d_flags = 2, d_next = 0\<rparr>"
    by (simp_all add: read_desc_def page_vq_def virtqueue_new_def DESC_LEN_def Let_def
        mem_read_u64_def mem_read_u32_def mem_read_u16_def page_heap_def page_load)
  then show ?thesis
    by (simp add: job_laid_out_def page_job_def job_chain_def segments_of_def flag_on_def
        VIRTQ_DESC_F_INDIRECT_def VIRTQ_DESC_F_NEXT_def VIRTQ_DESC_F_WRITE_def MAX_CHAIN_LEN_def
        page_vq_def virtqueue_new_def)
qed

lemma page_job_request: "job_request page_heap page_job = page_request"
proof -
  have "length page_request = 40" by (simp add: page_request_def)
  then show ?thesis
    by (simp add: job_request_def page_job_def page_heap_def page_load)
qed

lemma page_published: "published page_heap (1, 64) 2 0 [page_job]"
  by (simp add: ring_idx_def avail_entry_def ptr_add_def page_heap_def page_load page_job_def)

lemma page_job_fits: "job_fits page_heap page_job"
  by (simp add: job_fits_def page_job_request page_request_def rust_slice_def)

theorem vring_is_served_witness:
  "\<exists>r s' h' w'. process_vring 2 mem_host mem_vmm 0 (page_server, page_heap, mem_world1) =
     Some (Ok (), s', h', w') \<and> answers page_request r \<and>
     completed h' (1, 128) 2 (ring_idx page_heap (1, 128)) [page_job] [r]"
proof -
  have vq: "vq_queue_size page_vq = 2" "vq_last_avail_idx page_vq = 0"
    by (simp_all add: page_vq_def virtqueue_new_def)
  have srv: "srv_mem page_server = Some page" "0 < length (srv_vrings page_server)"
      "slot_vq (srv_vrings page_server ! 0) = Some page_vq" "ses_fs (srv_session page_server) = mem_fs"
    by (simp_all add: page_server_def server_new_def session_new_def)
  have size: "unat (vq_queue_size page_vq) dvd 2 ^ 16"
    and len: "length [page_job] \<le> unat (vq_queue_size page_vq)" "length [page_job] < 2"
    and room: "2 + 2 * length [page_job] < 2 ^ 64 - 1"
    by (simp_all add: vq)
  have apart: "areas_apart (vq_queue_size page_vq) (1, 0) (1, 64) (1, 128) [page_job]"
    by (simp add: vq areas_apart_def driver_area_def device_area_def page_job_def slices_apart_def all_apart_def)
  have jobs: "\<forall>j \<in> set [page_job]. job_laid_out page page_heap page_vq j \<and> job_fits page_heap j"
    using page_job_laid_out page_job_fits by simp
  have pub: "published page_heap (1, 64) (vq_queue_size page_vq) (vq_last_avail_idx page_vq) [page_job]"
    using page_published by (simp only: vq)
  have ok: "passthrough_ok 2 (ses_fs (srv_session page_server))"
    using passthrough_ok_new [OF mem_passthrough_new] by (simp add: srv(4))
  obtain rs \<sigma> h' w' where "process_vring 2 mem_host mem_vmm 0 (page_server, page_heap, mem_world1) = Some (Ok (), \<sigma>, h', w')"
      "list_all2 answers (map (job_request page_heap) [page_job]) rs"
      "completed h' (1, 128) (vq_queue_size page_vq) (ring_idx page_heap (1, 128)) [page_job] rs"
    using vring_is_served [OF srv(1-3) page_vring size apart jobs pub len mem_host_vectored_io ok room,
      of mem_world1 mem_vmm] by blast
  then show ?thesis
    by (auto simp: list_all2_Cons1 page_job_request vq simp del: completed.simps)
qed

end
