(* ===== verification/Fd_Balance.thy ===== *)
theory Fd_Balance
  imports Dispatch Mem_Host "HOL-Library.Multiset"
begin

text \<open>
  The balance of descriptors. The engine owns the descriptors of its two tables and nothing
  else: whatever an operation opens is in a table when it returns or has been closed again, and
  whatever leaves a table is closed. The one exception is \<open>create\<close>, which loses the new
  descriptor when the lookup that follows fails.

  Which descriptors are open is a multiset read off the world; the law says what each system
  call does to it.
\<close>

section \<open>Descriptors of a table\<close>

definition map_fds :: "('d \<Rightarrow> fd) \<Rightarrow> ('k \<rightharpoonup> 'd) \<Rightarrow> fd multiset" where
  "map_fds f m = image_mset (\<lambda>k. f (the (m k))) (mset_set (dom m))"

lemma map_fds_remove:
  assumes "finite (dom m)" and "m k = Some d"
  shows "map_fds f m = add_mset (f d) (map_fds f (m(k := None)))"
proof -
  have "mset_set (dom m) = add_mset k (mset_set (dom m - {k}))"
    using assms mset_set.remove [of "dom m" k] by auto
  moreover have "image_mset (\<lambda>i. f (the ((m(k := None)) i))) (mset_set (dom m - {k})) =
      image_mset (\<lambda>i. f (the (m i))) (mset_set (dom m - {k}))"
    using assms(1) by (intro image_mset_cong) auto
  ultimately show ?thesis
    using assms(2) by (simp add: map_fds_def del: fun_upd_apply)
qed

lemma map_fds_absent: "m k = None \<Longrightarrow> map_fds f (m(k := None)) = map_fds f m"
  by (simp add: fun_upd_idem)

lemma map_fds_update:
  "finite (dom m) \<Longrightarrow> map_fds f (m(k \<mapsto> d)) = add_mset (f d) (map_fds f (m(k := None)))"
  using map_fds_remove [of "m(k \<mapsto> d)" k d] by simp

text \<open>An entry that keeps its descriptor.\<close>

lemma map_fds_same:
  assumes "finite (dom m)" and "m k = Some d" and "f d' = f d"
  shows "map_fds f (m(k \<mapsto> d')) = map_fds f m"
  using assms by (simp add: map_fds_update map_fds_remove)

definition held :: "passthrough_fs \<Rightarrow> fd multiset" where
  "held fs = map_fds ino_fd (by_id (inodes fs)) + map_fds handle_fd (handle_map (handles fs))"

definition tables_finite :: "passthrough_fs \<Rightarrow> bool" where
  "tables_finite fs \<longleftrightarrow> finite (dom (by_id (inodes fs))) \<and> finite (dom (handle_map (handles fs)))"

section \<open>The law\<close>

text \<open>
  What the system calls do to the open descriptors, by their documentation. \<open>fdopendir\<close> is
  called through \<open>nix\<close>, which closes the descriptor when the call fails.
\<close>

definition opens :: "('w \<Rightarrow> fd multiset) \<Rightarrow> ('w \<Rightarrow> fd sysret \<times> 'w) \<Rightarrow> bool" where
  "opens live call \<longleftrightarrow> (\<forall>w. case call w of
     (Inl e, w') \<Rightarrow> live w' = live w
   | (Inr d, w') \<Rightarrow> live w' = add_mset d (live w))"

definition leaves :: "('w \<Rightarrow> fd multiset) \<Rightarrow> ('w \<Rightarrow> 'a \<times> 'w) \<Rightarrow> bool" where
  "leaves live call \<longleftrightarrow> (\<forall>w. live (snd (call w)) = live w)"

definition fd_accounting :: "'w host \<Rightarrow> ('w \<Rightarrow> fd multiset) \<Rightarrow> bool" where
  "fd_accounting H live \<longleftrightarrow>
     (\<forall>path fl. opens live (sys_open H path fl)) \<and>
     (\<forall>d name fl mode. opens live (sys_openat H d name fl mode)) \<and>
     (\<forall>d. opens live (sys_dupfd H d)) \<and>
     (\<forall>d w. live (sys_close H d w) = live w - {#d#}) \<and>
     (\<forall>d w. case sys_fdopendir H d w of
        (Inl e, w') \<Rightarrow> live w' = live w - {#d#} | (Inr _, w') \<Rightarrow> live w' = live w) \<and>
     (\<forall>d. leaves live (sys_fstat H d)) \<and>
     (\<forall>d name fl. leaves live (sys_fstatat H d name fl)) \<and>
     (\<forall>d n. leaves live (sys_ftruncate H d n)) \<and>
     (\<forall>d name mode fl. leaves live (sys_fchmodat H d name mode fl)) \<and>
     (\<forall>d name uid gid fl. leaves live (sys_fchownat H d name uid gid fl)) \<and>
     (\<forall>d name ts fl. leaves live (sys_utimensat H d name ts fl)) \<and>
     (\<forall>d name mode. leaves live (sys_mkdirat H d name mode)) \<and>
     (\<forall>d name fl. leaves live (sys_unlinkat H d name fl)) \<and>
     (\<forall>d name d' name'. leaves live (sys_renameat H d name d' name')) \<and>
     (\<forall>path d name. leaves live (sys_symlinkat H path d name)) \<and>
     (\<forall>d name n. leaves live (sys_readlinkat H d name n)) \<and>
     (\<forall>d name d' name' fl. leaves live (sys_linkat H d name d' name' fl)) \<and>
     (\<forall>d n off. leaves live (sys_pread H d n off)) \<and>
     (\<forall>d b off. leaves live (sys_pwrite H d b off)) \<and>
     (\<forall>d. leaves live (sys_fsync H d)) \<and>
     (\<forall>d. leaves live (sys_readdir H d)) \<and>
     (\<forall>d. leaves live (sys_fstatvfs H d)) \<and>
     leaves live (sys_now H)"

lemma accounting_opens:
  assumes "fd_accounting H live"
  shows "opens live (sys_open H path fl)" "opens live (sys_openat H d name fl mode)"
    "opens live (sys_dupfd H d)"
  using assms by (simp_all add: fd_accounting_def)

lemma accounting_closes:
  assumes "fd_accounting H live"
  shows "live (sys_close H d w) = live w - {#d#}"
    and "sys_fdopendir H d w = (x, w') \<Longrightarrow> live w' = (case x of Inl e \<Rightarrow> live w - {#d#} | Inr _ \<Rightarrow> live w)"
proof -
  have "case sys_fdopendir H d w of (Inl e, w') \<Rightarrow> live w' = live w - {#d#} | (Inr _, w') \<Rightarrow> live w' = live w"
    using assms by (simp add: fd_accounting_def del: split_paired_All)
  then show "live w' = (case x of Inl e \<Rightarrow> live w - {#d#} | Inr _ \<Rightarrow> live w)" if "sys_fdopendir H d w = (x, w')"
    using that by (cases x) simp_all
  show "live (sys_close H d w) = live w - {#d#}"
    using assms by (simp add: fd_accounting_def)
qed

lemma accounting_leaves:
  assumes "fd_accounting H live"
  shows "leaves live (sys_fstat H d)" "leaves live (sys_fstatat H d name fl)"
    "leaves live (sys_ftruncate H d sz)" "leaves live (sys_fchmodat H d name mode fl)"
    "leaves live (sys_fchownat H d name uid gid fl)" "leaves live (sys_utimensat H d name ts fl)"
    "leaves live (sys_mkdirat H d name mode)" "leaves live (sys_unlinkat H d name fl)"
    "leaves live (sys_renameat H d name d' name')" "leaves live (sys_symlinkat H path d name)"
    "leaves live (sys_readlinkat H d name n)" "leaves live (sys_linkat H d name d' name' fl)"
    "leaves live (sys_pread H d n off)" "leaves live (sys_pwrite H d b off)"
    "leaves live (sys_fsync H d)" "leaves live (sys_readdir H d)" "leaves live (sys_fstatvfs H d)"
    "leaves live (sys_now H)"
  using assms by (simp_all add: fd_accounting_def del: split_paired_All)

section \<open>Ownership\<close>

text \<open>
  An operation that is given the descriptors \<open>own\<close> and, when it succeeds, gives those of its
  result back: at the end the tables and the result own what is open, beside what was open
  before and is not the engine's. When it fails it has given back or closed everything.
\<close>

definition owns ::
  "('w \<Rightarrow> fd multiset) \<Rightarrow> fd multiset \<Rightarrow> ('w, 'a) fs_op \<Rightarrow> ('a \<Rightarrow> fd multiset) \<Rightarrow> bool" where
  "owns live own m res \<longleftrightarrow>
     (\<forall>fs w rest r fs' w'. tables_finite fs \<longrightarrow> live w = held fs + own + rest \<longrightarrow>
        m (fs, w) = (r, fs', w') \<longrightarrow> r \<noteq> Panic \<longrightarrow>
        tables_finite fs' \<and>
        live w' = held fs' + (case r of Ok v \<Rightarrow> res v | _ \<Rightarrow> {#}) + rest)"

abbreviation balanced :: "('w \<Rightarrow> fd multiset) \<Rightarrow> ('w, 'a) fs_op \<Rightarrow> bool" where
  "balanced live m \<equiv> owns live {#} m (\<lambda>_. {#})"

named_theorems owned \<open>operations that keep the balance of descriptors\<close>

lemma ownsI:
  assumes "\<And>fs w rest r fs' w'. tables_finite fs \<Longrightarrow> live w = held fs + own + rest \<Longrightarrow>
      m (fs, w) = (r, fs', w') \<Longrightarrow> r \<noteq> Panic \<Longrightarrow>
      tables_finite fs' \<and> live w' = held fs' + (case r of Ok v \<Rightarrow> res v | _ \<Rightarrow> {#}) + rest"
  shows "owns live own m res"
  using assms unfolding owns_def by blast

lemma ownsD:
  assumes "owns live own m res" "tables_finite fs" "live w = held fs + own + rest"
    "m (fs, w) = (r, fs', w')" "r \<noteq> Panic"
  shows "tables_finite fs'" and "live w' = held fs' + (case r of Ok v \<Rightarrow> res v | _ \<Rightarrow> {#}) + rest"
  using assms unfolding owns_def by blast+

lemma owns_bind [owned]:
  assumes m: "owns live own m mid" and f: "\<And>v. owns live (mid v) (f v) res"
  shows "owns live own (fs_bind m f) res"
proof (rule ownsI)
  fix fs w rest r fs' w'
  assume fin: "tables_finite fs" and live: "live w = held fs + own + rest"
    and run: "fs_bind m f (fs, w) = (r, fs', w')" and np: "r \<noteq> Panic"
  obtain r1 fs1 w1 where m1: "m (fs, w) = (r1, fs1, w1)" by (metis surj_pair)
  show "tables_finite fs' \<and> live w' = held fs' + (case r of Ok v \<Rightarrow> res v | _ \<Rightarrow> {#}) + rest"
  proof (cases r1)
    case (Ok v)
    with ownsD [OF m fin live m1] have "tables_finite fs1" "live w1 = held fs1 + mid v + rest" by simp_all
    moreover have "f v (fs1, w1) = (r, fs', w')"
      using run m1 Ok by (simp add: fs_bind_def)
    ultimately show ?thesis using ownsD [OF f] np by blast
  next
    case (Err e)
    with run m1 ownsD [OF m fin live m1] show ?thesis by (auto simp: fs_bind_def)
  qed (use run m1 np in \<open>simp add: fs_bind_def\<close>)
qed

lemma owns_return [owned]: "owns live (res v) (fs_return v) res"
  by (rule ownsI) (auto simp: fs_return_def)

lemma balanced_pure [owned]: "balanced live (fs_lift r)" "balanced live (fs_inode i)"
  by (rule ownsI; auto simp: fs_lift_def fs_inode_def split: result.split)+

lemma owns_prod [owned]: "(\<And>a b. owns live own (f a b) res) \<Longrightarrow> owns live own (case v of (a, b) \<Rightarrow> f a b) res"
  by (cases v) simp

lemma owns_if [owned]:
  "owns live own m res \<Longrightarrow> owns live own m' res \<Longrightarrow> owns live own (if b then m else m') res"
  by simp

lemma owns_option [owned]:
  "owns live own m res \<Longrightarrow> (\<And>v. owns live own (f v) res) \<Longrightarrow>
   owns live own (case x of None \<Rightarrow> m | Some v \<Rightarrow> f v) res"
  by (cases x) simp_all

text \<open>System calls.\<close>

lemma leavesD: "leaves live call \<Longrightarrow> call w = (r, w') \<Longrightarrow> live w' = live w"
  unfolding leaves_def by (metis snd_conv)

lemma opensD: "opens live call \<Longrightarrow> call w = (r, w') \<Longrightarrow>
   live w' = (case r of Inl e \<Rightarrow> live w | Inr d \<Rightarrow> add_mset d (live w))"
  unfolding opens_def by (auto split: sum.splits prod.splits dest: spec [of _ w])

lemma balanced_sys: "leaves live call \<Longrightarrow> balanced live (fs_sys H call)"
  by (rule ownsI) (auto simp: fs_sys_def dest: leavesD split: prod.splits sum.splits)

lemma owns_open: "opens live call \<Longrightarrow> owns live {#} (fs_sys H call) (\<lambda>d. {#d#})"
  by (rule ownsI) (auto simp: fs_sys_def dest: opensD split: prod.splits sum.splits)

lemma balanced_with_file: "(\<And>d. leaves live (call d)) \<Longrightarrow> balanced live (fs_with_file H h call)"
  by (rule ownsI) (auto simp: fs_with_file_def handle_store_with_file_def dest!: leavesD [rotated]
      split: prod.splits sum.splits option.splits handle_data.splits)

text \<open>The tables.\<close>

lemma owns_register:
  assumes "fd_accounting H live"
  shows "owns live {#d#} (fs_register H parent name d st) (\<lambda>_. {#})"
proof (rule ownsI)
  fix fs w rest r fs' w'
  assume fin: "tables_finite fs" and live: "live w = held fs + {#d#} + rest"
    and run: "fs_register H parent name d st (fs, w) = (r, fs', w')" and np: "r \<noteq> Panic"
  note close = accounting_closes(1) [OF assms]
  let ?s = "inodes fs"
  have f: "finite (dom (by_id ?s))" using fin by (simp add: tables_finite_def)
  show "tables_finite fs' \<and> live w' = held fs' + (case r of Ok v \<Rightarrow> {#} | _ \<Rightarrow> {#}) + rest"
  proof (cases "by_key ?s (stat_key st)")
    case (Some i)
    then obtain e where e: "by_id ?s i = Some e"
      using run np by (cases "by_id ?s i") (auto simp: fs_register_def inode_store_register_def Let_def)
    let ?e = "inode_set_location parent name (e\<lparr>ino_lookups := ino_lookups e + 1\<rparr>)"
    have "map_fds ino_fd ((by_id ?s)(i \<mapsto> ?e)) = map_fds ino_fd (by_id ?s)"
      using f e by (intro map_fds_same) (simp_all add: inode_set_location_def)
    then show ?thesis
      using run Some e live fin close
      by (auto simp: fs_register_def inode_store_register_def Let_def held_def tables_finite_def)
  next
    case None
    show ?thesis
      using run None live fin close f
      by (cases "by_id ?s (ino_next_id ?s)")
        (auto simp: fs_register_def inode_store_register_def Let_def held_def tables_finite_def
          map_fds_update map_fds_absent map_fds_remove)
  qed
qed

lemma owns_insert_handle:
  assumes "fd_accounting H live"
  shows "owns live {#handle_fd data#} (fs_insert_handle H data) (\<lambda>_. {#})"
proof (rule ownsI)
  fix fs w rest r fs' w'
  assume fin: "tables_finite fs" and live: "live w = held fs + {#handle_fd data#} + rest"
    and run: "fs_insert_handle H data (fs, w) = (r, fs', w')"
  from accounting_closes(1) [OF assms] show "tables_finite fs' \<and> live w' = held fs' + (case r of Ok v \<Rightarrow> {#} | _ \<Rightarrow> {#}) + rest"
    using run live fin
    by (cases "handle_map (handles fs) (handle_next_id (handles fs))")
      (auto simp: fs_insert_handle_def handle_store_insert_def Let_def held_def tables_finite_def
        map_fds_update map_fds_absent map_fds_remove)
qed

lemma balanced_drop_handle:
  assumes "fd_accounting H live"
  shows "balanced live (fs_drop_handle H h)"
proof (rule ownsI)
  fix fs w rest r fs' w'
  assume fin: "tables_finite fs" and live: "live w = held fs + {#} + rest"
    and run: "fs_drop_handle H h (fs, w) = (r, fs', w')"
  from accounting_closes(1) [OF assms] show "tables_finite fs' \<and> live w' = held fs' + (case r of Ok v \<Rightarrow> {#} | _ \<Rightarrow> {#}) + rest"
    using run live fin
    by (cases "handle_map (handles fs) h")
      (auto simp: fs_drop_handle_def handle_store_remove_def held_def tables_finite_def
        map_fds_absent map_fds_remove)
qed

lemma balanced_forget:
  assumes "fd_accounting H live"
  shows "balanced live (fs_forget H i n)"
proof (rule ownsI)
  fix fs w rest r fs' w'
  assume fin: "tables_finite fs" and live: "live w = held fs + {#} + rest"
    and run: "fs_forget H i n (fs, w) = (r, fs', w')"
  from accounting_closes(1) [OF assms] show "tables_finite fs' \<and> live w' = held fs' + (case r of Ok v \<Rightarrow> {#} | _ \<Rightarrow> {#}) + rest"
    using run live fin
    by (cases "by_id (inodes fs) i")
      (auto simp: fs_forget_def inode_store_forget_def Let_def held_def tables_finite_def
        map_fds_same map_fds_remove split: if_splits)
qed

lemma balanced_note_rename: "balanced live (fs_note_rename H p nm np nn)"
proof (rule ownsI)
  fix fs w rest r fs' w'
  assume fin: "tables_finite fs" and live: "live w = held fs + {#} + rest"
    and run: "fs_note_rename H p nm np nn (fs, w) = (r, fs', w')"
  let ?m = "by_id (inodes fs)"
  have fds: "map_fds ino_fd (?m(i := map_option (inode_set_location np nn) (?m i))) = map_fds ino_fd ?m"
    and dom: "dom (?m(i := map_option (inode_set_location np nn) (?m i))) = dom ?m" for i
    using fin by (cases "?m i"; auto simp: tables_finite_def inode_set_location_def
        intro!: map_fds_same map_fds_absent)+
  have fs': "fs' = fs\<lparr>inodes := inode_store_note_rename H p nm np nn (inodes fs)\<rparr>" "r = Ok ()" "w' = w"
    using run by (simp_all add: fs_note_rename_def)
  show "tables_finite fs' \<and> live w' = held fs' + (case r of Ok v \<Rightarrow> {#} | _ \<Rightarrow> {#}) + rest"
    using live fin fds dom
    by (simp add: fs' inode_store_note_rename_def held_def tables_finite_def split: option.split)
qed

lemma owns_open_child:
  assumes "fd_accounting H live"
  shows "owns live {#} (fs_open_child H d name) (\<lambda>(c, st). {#c#})"
proof (rule ownsI)
  fix fs w rest r fs' w'
  assume fin: "tables_finite fs" and live: "live w = held fs + {#} + rest"
    and run: "fs_open_child H d name (fs, w) = (r, fs', w')"
  obtain x w1 where stat: "sys_fstatat H d name (at_symlink_nofollow H) w = (x, w1)" by fastforce
  then have w1: "live w1 = live w"
    by (rule leavesD [OF accounting_leaves(2) [OF assms]])
  show "tables_finite fs' \<and> live w' = held fs' + (case r of Ok v \<Rightarrow> case v of (c, st) \<Rightarrow> {#c#} | _ \<Rightarrow> {#}) + rest"
  proof (cases x)
    case (Inl e)
    with run stat w1 live fin show ?thesis by (auto simp: fs_open_child_def open_child_def)
  next
    case (Inr st)
    let ?k = "file_kind_from_mode (st_mode st)"
    obtain y w2 where opn: "sys_openat H d name (reference_open_flags H (?k = Dir) (?k = Symlink)) None w1 = (y, w2)"
      by fastforce
    from opensD [OF accounting_opens(2) [OF assms] opn] show ?thesis
      using run stat w1 live fin Inr opn
      by (auto simp: fs_open_child_def open_child_def Let_def split: sum.splits)
  qed
qed

text \<open>The truncation closes the descriptor it opened, and \<open>fdopendir\<close> keeps or closes it.\<close>

lemma owns_truncate:
  assumes "fd_accounting H live"
  shows "owns live {#d#} (fs_sys H (\<lambda>w. case sys_ftruncate H d sz w of (r, w') \<Rightarrow> (r, sys_close H d w')))
     (\<lambda>_. {#})"
proof (rule ownsI)
  fix fs w rest r fs' w'
  assume fin: "tables_finite fs" and live: "live w = held fs + {#d#} + rest"
    and run: "fs_sys H (\<lambda>w. case sys_ftruncate H d sz w of (r, w') \<Rightarrow> (r, sys_close H d w')) (fs, w) = (r, fs', w')"
  obtain x w1 where tr: "sys_ftruncate H d sz w = (x, w1)" by fastforce
  have "live w1 = live w"
    using tr by (rule leavesD [OF accounting_leaves(3) [OF assms]])
  with accounting_closes(1) [OF assms] run tr live fin
  show "tables_finite fs' \<and> live w' = held fs' + (case r of Ok v \<Rightarrow> {#} | _ \<Rightarrow> {#}) + rest"
    by (cases x) (auto simp: fs_sys_def)
qed

lemma owns_fdopendir:
  assumes "fd_accounting H live"
  shows "owns live {#d#} (\<lambda>(fs, w). case sys_fdopendir H d w of
     (Inl e, w') \<Rightarrow> (Err (fs_error_from_nix e), fs, w') | (Inr _, w') \<Rightarrow> (Ok (), fs, w')) (\<lambda>_. {#d#})"
proof (rule ownsI)
  fix fs w rest r fs' w'
  assume fin: "tables_finite fs" and live: "live w = held fs + {#d#} + rest"
    and run: "(\<lambda>(fs, w). case sys_fdopendir H d w of
     (Inl e, w') \<Rightarrow> (Err (fs_error_from_nix e), fs, w') | (Inr _, w') \<Rightarrow> (Ok (), fs, w')) (fs, w) = (r, fs', w')"
  obtain x w1 where x: "sys_fdopendir H d w = (x, w1)" by fastforce
  with accounting_closes(2) [OF assms x] show "tables_finite fs' \<and> live w' = held fs' + (case r of Ok v \<Rightarrow> {#d#} | _ \<Rightarrow> {#}) + rest"
    using run live fin by (cases x) auto
qed

section \<open>The operations\<close>

lemma balanced_lookup:
  assumes "fd_accounting H live"
  shows "balanced live (fs_lookup H parent name)"
proof -
  have tail: "owns live (case v of (c, st) \<Rightarrow> {#c#}) (case v of (d, st) \<Rightarrow>
      fs_bind (fs_register H parent name d st) (\<lambda>data. fs_return (ino_id data, attr_from_stat st))) (\<lambda>_. {#})" for v
    by (cases v) (simp, rule owns_bind [OF owns_register [OF assms]], rule owns_return)
  show ?thesis
    unfolding fs_lookup_def
    by (rule owns_bind [OF balanced_pure(2)] owns_bind [OF balanced_pure(1)]
        owns_bind [OF owns_open_child [OF assms]] tail)+
qed

lemma balanced_getattr: "fd_accounting H live \<Longrightarrow> balanced live (fs_getattr H i)"
  unfolding fs_getattr_def
  by (rule owns_bind owned balanced_sys accounting_leaves | assumption)+

lemma balanced_parent_fd_name: "balanced live (parent_fd_name data)"
  unfolding parent_fd_name_def by (rule owned)+

lemma owns_reopen:
  assumes "fd_accounting H live"
  shows "owns live {#} (reopen_via_parent H i flags) (\<lambda>d. {#d#})"
  unfolding reopen_via_parent_def
  by (rule owns_bind [OF balanced_pure(2)] owns_bind [OF balanced_parent_fd_name] owns_if owns_prod
      owns_open accounting_opens assms)+

lemma balanced_setattr:
  assumes "fd_accounting H live"
  shows "balanced live (fs_setattr H i a)"
proof -
  have sz: "balanced live (fs_setattr_size H i sz)" for sz
    unfolding fs_setattr_size_def by (rule owns_bind [OF owns_reopen [OF assms] owns_truncate [OF assms]])
  have named: "balanced live (fs_setattr_named H data a)" for data
    unfolding fs_setattr_named_def
    by (rule owns_bind [OF balanced_parent_fd_name] owned balanced_sys accounting_leaves assms)+
  show ?thesis
    unfolding fs_setattr_def
    by (rule sz named balanced_getattr owned assms)+
qed

lemma balanced_names:
  assumes "fd_accounting H live"
  shows "balanced live (fs_mkdir H parent name mode)" and "balanced live (fs_unlink H parent name)"
    and "balanced live (fs_rmdir H parent name)" and "balanced live (fs_rename H parent name np nn)"
    and "balanced live (fs_symlink H parent name tp)" and "balanced live (fs_readlink H i)"
    and "balanced live (fs_link H i np nn)"
  unfolding fs_mkdir_def fs_unlink_def fs_rmdir_def fs_rename_def fs_symlink_def fs_readlink_def fs_link_def
  by (rule balanced_lookup balanced_getattr balanced_note_rename balanced_parent_fd_name balanced_sys
      accounting_leaves assms owned)+

lemma balanced_readdir:
  assumes "fd_accounting H live"
  shows "balanced live (fs_readdir H h)"
  using leavesD [OF accounting_leaves(16) [OF assms]]
  by (intro ownsI) (auto simp: fs_readdir_def handle_store_with_dir_def
      split: prod.splits option.splits handle_data.splits result.split)

lemma balanced_files:
  assumes "fd_accounting H live"
  shows "balanced live (fs_open H i flags)" and "balanced live (fs_opendir H i)"
    and "balanced live (fs_read H h off n)" and "balanced live (fs_write H h off b)"
    and "balanced live (fs_fsync H h)" and "balanced live (fs_release H h)"
    and "balanced live (fs_releasedir H h)" and "balanced live (fs_statfs H i)"
proof -
  note handle = owns_insert_handle [OF assms, of "FileHandle d" for d] owns_insert_handle [OF assms, of "DirHandle d" for d]
  show "balanced live (fs_open H i flags)" "balanced live (fs_opendir H i)"
    unfolding fs_open_def fs_opendir_def
    by (rule owns_bind [OF owns_reopen [OF assms]] owns_bind [OF owns_fdopendir [OF assms]]
        handle [simplified handle_fd.simps])+
  show "balanced live (fs_read H h off n)" "balanced live (fs_write H h off b)" "balanced live (fs_fsync H h)"
    "balanced live (fs_release H h)" "balanced live (fs_releasedir H h)" "balanced live (fs_statfs H i)"
    unfolding fs_read_def fs_write_def fs_fsync_def fs_release_def fs_releasedir_def fs_statfs_def
    by (rule balanced_with_file balanced_drop_handle accounting_leaves balanced_sys assms owned)+
qed

text \<open>
  \<open>create\<close> keeps the balance when it succeeds. When the lookup fails, the descriptor it
  opened is neither closed nor in a table.
\<close>

definition create_opened ::
  "'w host \<Rightarrow> u64 \<Rightarrow> bytes \<Rightarrow> fd \<Rightarrow> ('w, u64 \<times> u64 \<times> attr) fs_op" where
  "create_opened H parent name d =
     fs_bind (fs_lookup H parent name) (\<lambda>(i, a).
     fs_bind (fs_insert_handle H (FileHandle d)) (\<lambda>h. fs_return (i, h, a)))"

lemma fs_bind_assoc: "fs_bind (fs_bind m f) g = fs_bind m (\<lambda>v. fs_bind (f v) g)"
  by (rule ext) (simp add: fs_bind_def split: prod.split result.split)

lemma create_tail:
  assumes "fd_accounting H live"
  shows "owns live {#d#} (fs_bind (fs_insert_handle H (FileHandle d)) (\<lambda>h. fs_return (i, h, a))) (\<lambda>_. {#})"
  using owns_insert_handle [OF assms, of "FileHandle d"] by (intro owns_bind [OF _ owns_return]) simp

lemma create_opened_fds:
  assumes acc: "fd_accounting H live" and fin: "tables_finite fs" and live: "live w = held fs + {#d#} + rest"
    and run: "create_opened H parent name d (fs, w) = (r, fs', w')" and np: "r \<noteq> Panic"
  shows "tables_finite fs' \<and> live w' = held fs' + (case r of Ok _ \<Rightarrow> {#} | _ \<Rightarrow> {#d#}) + rest"
proof -
  obtain r2 fs2 w2 where l: "fs_lookup H parent name (fs, w) = (r2, fs2, w2)" by (metis surj_pair)
  have "live w = held fs + {#} + ({#d#} + rest)" using live by simp
  note two = ownsD [OF balanced_lookup [OF acc] fin this l]
  show ?thesis
  proof (cases r2)
    case (Ok v)
    obtain i a where v: "v = (i, a)" by (cases v)
    have ins: "fs_bind (fs_insert_handle H (FileHandle d)) (\<lambda>h. fs_return (i, h, a)) (fs2, w2) = (r, fs', w')"
      using run l Ok v by (simp add: create_opened_def fs_bind_def)
    then obtain u where u: "r = Ok u"
      by (auto simp: fs_bind_def fs_insert_handle_def fs_return_def split: prod.splits)
    have "tables_finite fs2" "live w2 = held fs2 + {#d#} + rest"
      using two Ok by simp_all
    from ownsD [OF create_tail [OF acc] this ins] u show ?thesis by simp
  next
    case (Err e)
    with run l have "r = Err e" "fs' = fs2" "w' = w2" by (simp_all add: create_opened_def fs_bind_def)
    with two Err show ?thesis by simp
  next
    case Panic
    with run l np show ?thesis by (simp add: create_opened_def fs_bind_def)
  qed
qed

section \<open>Requests\<close>

definition handler_balanced :: "('w \<Rightarrow> fd multiset) \<Rightarrow> 'w handler \<Rightarrow> bool" where
  "handler_balanced live f \<longleftrightarrow>
     (\<forall>s w rest r s' w'. tables_finite (ses_fs s) \<longrightarrow> live w = held (ses_fs s) + rest \<longrightarrow>
        f (s, w) = (Some r, s', w') \<longrightarrow>
        tables_finite (ses_fs s') \<and> live w' = held (ses_fs s') + rest)"

lemma handler_balancedD:
  assumes "handler_balanced live f" "tables_finite (ses_fs s)" "live w = held (ses_fs s) + rest"
    "f (s, w) = (Some r, s', w')"
  shows "tables_finite (ses_fs s')" and "live w' = held (ses_fs s') + rest"
  using assms unfolding handler_balanced_def by blast+

named_theorems hbal \<open>handlers that keep the balance of descriptors\<close>

lemma hbal_done [hbal]: "handler_balanced live (done_reply r)"
  by (auto simp: handler_balanced_def done_reply_def)

lemma hbal_try_fs [hbal]:
  assumes m: "balanced live m" and f: "\<And>v. handler_balanced live (f v)"
  shows "handler_balanced live (try_fs H unique m f)"
  unfolding handler_balanced_def
proof (intro allI impI)
  fix s w rest r s' w'
  assume fin: "tables_finite (ses_fs s)" and live: "live w = held (ses_fs s) + rest"
    and run: "try_fs H unique m f (s, w) = (Some r, s', w')"
  obtain r1 fs1 w1 where m1: "m (ses_fs s, w) = (r1, fs1, w1)" by (metis surj_pair)
  have "live w = held (ses_fs s) + {#} + rest" using live by simp
  note one = ownsD [OF m fin this m1]
  show "tables_finite (ses_fs s') \<and> live w' = held (ses_fs s') + rest"
  proof (cases r1)
    case (Ok v)
    then have "f v (s\<lparr>ses_fs := fs1\<rparr>, w1) = (Some r, s', w')"
      using run m1 by (simp add: try_fs_def)
    with handler_balancedD [OF f, of "s\<lparr>ses_fs := fs1\<rparr>" w1 rest v r s' w'] one Ok
    show ?thesis by simp
  qed (use run m1 one in \<open>auto simp: try_fs_def\<close>)
qed

lemma hbal_try_parse [hbal]:
  assumes "\<And>v. handler_balanced live (f v)"
  shows "handler_balanced live (try_parse H unique r f)"
proof (cases r)
  case (Ok v)
  then have "try_parse H unique r f = f v" by (simp add: try_parse_def fun_eq_iff)
  with assms show ?thesis by simp
qed (simp_all add: handler_balanced_def try_parse_def)

lemma hbal_split [hbal]:
  "(\<And>a b. handler_balanced live (g a b)) \<Longrightarrow> handler_balanced live (case v of (a, b) \<Rightarrow> g a b)"
  "handler_balanced live f \<Longrightarrow> handler_balanced live f' \<Longrightarrow> handler_balanced live (if b then f else f')"
  by (cases v; simp)+

lemma hbal_now:
  assumes "fd_accounting H live" and "\<And>t. handler_balanced live (f t)"
  shows "handler_balanced live (ses_now H f)"
  unfolding handler_balanced_def
proof (intro allI impI)
  fix s w rest r s' w'
  assume fin: "tables_finite (ses_fs s)" and live: "live w = held (ses_fs s) + rest"
    and run: "ses_now H f (s, w) = (Some r, s', w')"
  obtain t w1 where t: "sys_now H w = (t, w1)" by fastforce
  have "live w1 = held (ses_fs s) + rest"
    using leavesD [OF accounting_leaves(18) [OF assms(1)] t] live by simp
  moreover have "f t (s, w1) = (Some r, s', w')"
    using run t by (simp add: ses_now_def)
  ultimately show "tables_finite (ses_fs s') \<and> live w' = held (ses_fs s') + rest"
    using handler_balancedD [OF assms(2) fin] by blast
qed

lemma hbal_replies [hbal]:
  "balanced live m \<Longrightarrow> handler_balanced live (reply_entry H unique m)"
  "balanced live m' \<Longrightarrow> handler_balanced live (reply_empty H unique m')"
  "balanced live m'' \<Longrightarrow> handler_balanced live (reply_handle H unique m'')"
  unfolding reply_entry_def reply_empty_def reply_handle_def
  by (erule hbal_try_fs, rule hbal_split(1) hbal_done, (rule hbal_done)?)+

text \<open>The cache owns no descriptors.\<close>

lemma hbal_cache:
  assumes "handler_balanced live f"
  shows "handler_balanced live (\<lambda>(s, w). f (s\<lparr>readdir_cache := c s\<rparr>, w))"
  unfolding handler_balanced_def
proof (intro allI impI)
  fix s w rest r s' w'
  assume "tables_finite (ses_fs s)" "live w = held (ses_fs s) + rest"
    "(\<lambda>(s, w). f (s\<lparr>readdir_cache := c s\<rparr>, w)) (s, w) = (Some r, s', w')"
  then show "tables_finite (ses_fs s') \<and> live w' = held (ses_fs s') + rest"
    using handler_balancedD [OF assms, of "s\<lparr>readdir_cache := c s\<rparr>" w rest r s' w'] by simp
qed

lemma hbal_look:
  assumes "\<And>s w. handler_balanced live (g s w)"
  shows "handler_balanced live (\<lambda>(s, w). g s w (s, w))"
  unfolding handler_balanced_def
proof (intro allI impI)
  fix s w rest r s' w'
  assume "tables_finite (ses_fs s)" "live w = held (ses_fs s) + rest"
    "(\<lambda>(s, w). g s w (s, w)) (s, w) = (Some r, s', w')"
  then show "tables_finite (ses_fs s') \<and> live w' = held (ses_fs s') + rest"
    using handler_balancedD [OF assms, of s w rest s w r s' w'] by simp
qed

lemma hbal_setattr:
  assumes "fd_accounting H live"
  shows "handler_balanced live (handle_setattr H unique nodeid body)"
proof -
  have time: "handler_balanced live (setattr_time H now given sec ns f)"
    if "\<And>t. handler_balanced live (f t)" for now given sec ns f
    using that hbal_now [OF assms, of "\<lambda>(s, ns). f (Some (s, ns))"] hbal_split(1)
    by (simp add: setattr_time_def)
  show ?thesis
    unfolding handle_setattr_def Let_def
    by (intro hbal_try_parse time hbal_try_fs balanced_setattr assms hbal_done)
qed

lemma hbal_readdir:
  assumes "fd_accounting H live"
  shows "handler_balanced live (handle_readdir H unique body)"
proof -
  let ?page = "\<lambda>r (s, w). done_reply (ok_reply unique (readdir_page (read_size r) (read_offset r)
      (case readdir_cache s (read_fh r) of Some es \<Rightarrow> es | None \<Rightarrow> []))) (s, w)"
  have page: "handler_balanced live (?page r)" for r
    by (rule hbal_look) (rule hbal_done)
  have cached: "handler_balanced live (\<lambda>(s, w).
      ?page r (s\<lparr>readdir_cache := (readdir_cache s)(read_fh r \<mapsto> listing)\<rparr>, w))" for r listing
    using hbal_cache [OF page] .
  have "handler_balanced live (\<lambda>(s, w).
      (if read_offset r = 0 \<or> readdir_cache s (read_fh r) = None
       then try_fs H unique (fs_readdir H (read_fh r)) (\<lambda>listing (s, w).
            ?page r (s\<lparr>readdir_cache := (readdir_cache s)(read_fh r \<mapsto> listing)\<rparr>, w))
       else ?page r) (s, w))" for r
    by (rule hbal_look) (intro hbal_split(2) hbal_try_fs balanced_readdir assms cached page)
  then show ?thesis
    unfolding handle_readdir_def Let_def if_distribR
    by (intro hbal_try_parse)
qed

lemma hbal_releasedir:
  assumes "fd_accounting H live"
  shows "handler_balanced live (handle_releasedir H unique body)"
proof -
  have "handler_balanced live (try_fs H unique (fs_releasedir H h) (\<lambda>_. done_reply (ok_reply unique [])))" for h
    by (intro hbal_try_fs balanced_files assms hbal_done)
  from hbal_cache [OF this] show ?thesis
    unfolding handle_releasedir_def by (intro hbal_try_parse)
qed

lemma hbal_batch_forget:
  assumes "fd_accounting H live"
  shows "handler_balanced live (handle_batch_forget H unique body)"
proof -
  have "handler_balanced live
      (foldr (\<lambda>e f. try_fs H unique (fs_forget H (forget_nodeid e) (forget_one_nlookup e)) (\<lambda>_. f))
        entries (done_reply ReplyNone))" for entries
    by (induction entries) (auto intro: hbal_done hbal_try_fs balanced_forget [OF assms])
  then show ?thesis
    unfolding handle_batch_forget_def by (intro hbal_try_parse)
qed

text \<open>Every operation but \<open>CREATE\<close>.\<close>

lemma hbal_op:
  assumes "fd_accounting H live" and "opc \<noteq> OpCreate"
  shows "handler_balanced live (handle_op H opc unique nodeid body)"
proof -
  note rules = hbal_setattr hbal_readdir hbal_releasedir hbal_batch_forget balanced_lookup balanced_forget
    balanced_getattr balanced_names balanced_files assms(1) hbal
  show ?thesis
  proof (cases opc)
    case OpSymlink
    then show ?thesis
      by (auto simp: handle_op_defs intro: rules split: list.splits)
  next
    case OpCreate
    with assms(2) show ?thesis by simp
  qed (simp only: handle_op_defs opcode.case Let_def, (rule rules)+)+
qed

lemma create_fds:
  assumes acc: "fd_accounting H live" and fin: "tables_finite fs" and live: "live w = held fs + rest"
    and run: "fs_create H parent name flags mode (fs, w) = (r, fs', w')" and np: "r \<noteq> Panic"
  shows "tables_finite fs' \<and> (\<exists>lost. live w' = held fs' + lost + rest \<and> size lost \<le> (if is_ok r then 0 else 1))"
proof -
  define pre where "pre = fs_bind (fs_inode parent) (\<lambda>p. fs_bind (fs_lift (to_cstring name)) (\<lambda>cname.
      fs_sys H (sys_openat H (ino_fd p) cname (flags OR oflag H O_CREAT OR oflag H O_EXCL) (Some mode))))"
  have split: "fs_create H parent name flags mode = fs_bind pre (create_opened H parent name)"
    by (simp add: fs_create_def pre_def create_opened_def [abs_def] fs_bind_assoc)
  have pre: "owns live {#} pre (\<lambda>d. {#d#})"
    unfolding pre_def by (rule owns_bind [OF balanced_pure(2)] owns_bind [OF balanced_pure(1)] owns_open
      accounting_opens acc)+
  obtain r1 fs1 w1 where p: "pre (fs, w) = (r1, fs1, w1)" by (metis surj_pair)
  have "live w = held fs + {#} + rest" using live by simp
  note one = ownsD [OF pre fin this p]
  show ?thesis
  proof (cases r1)
    case (Ok d)
    have "create_opened H parent name d (fs1, w1) = (r, fs', w')"
      using run p Ok by (simp add: split fs_bind_def)
    from create_opened_fds [OF acc _ _ this np] one Ok
    have "tables_finite fs'" "live w' = held fs' + (case r of Ok _ \<Rightarrow> {#} | _ \<Rightarrow> {#d#}) + rest"
      by simp_all
    with np show ?thesis by (cases r) (auto simp: is_ok_def)
  next
    case (Err e)
    with one run p show ?thesis by (auto simp: split fs_bind_def)
  next
    case Panic
    with run p np show ?thesis by (simp add: split fs_bind_def)
  qed
qed

text \<open>A reply that reports an error.\<close>

definition reply_error :: "reply \<Rightarrow> bool" where
  "reply_error r \<longleftrightarrow> (case r of ReplyBytes b \<Rightarrow> u32_at 4 b \<noteq> 0 | ReplyNone \<Rightarrow> False)"

lemma reply_error_errno: "reply_error (errno_reply tbl unique e)"
proof -
  have "to_linux_errno tbl x \<noteq> 0" for x
    using to_linux_errno_range [of tbl x] by auto
  then show ?thesis
    by (simp add: reply_error_def errno_reply_def out_header_error_for_def out_header_reply_fields)
qed

lemma handle_create_fds:
  assumes acc: "fd_accounting H live" and fin: "tables_finite (ses_fs s)" and live: "live w = held (ses_fs s) + rest"
    and run: "handle_op H OpCreate unique nodeid body (s, w) = (Some r, s', w')"
  shows "tables_finite (ses_fs s') \<and> (\<exists>lost. live w' = held (ses_fs s') + lost + rest \<and>
     size lost \<le> (if reply_error r then 1 else 0))"
proof (cases "create_in_from_bytes body")
  case (Ok v)
  obtain c name where v: "v = (c, name)" by (cases v)
  obtain r1 fs1 w1 where m: "fs_create H nodeid name (create_flags c) (create_mode c) (ses_fs s, w) = (r1, fs1, w1)"
    by (metis surj_pair)
  have np: "r1 \<noteq> Panic"
    using run Ok v m by (auto simp: handle_op_defs try_parse_def try_fs_def)
  note fds = create_fds [OF acc fin live m np]
  show ?thesis
  proof (cases r1)
    case (Ok u)
    then show ?thesis
      using run fds \<open>create_in_from_bytes body = Ok v\<close> v m
      by (cases u) (auto simp: handle_op_defs try_parse_def try_fs_def done_reply_def is_ok_def)
  next
    case (Err e)
    then show ?thesis
      using run fds \<open>create_in_from_bytes body = Ok v\<close> v m reply_error_errno
      by (auto simp: handle_op_defs try_parse_def try_fs_def is_ok_def)
  qed (use np in simp)
next
  case (Err e)
  with run fin live show ?thesis by (auto simp: handle_op_defs try_parse_def)
next
  case Panic
  with run show ?thesis by (simp add: handle_op_defs try_parse_def)
qed

section \<open>A session\<close>

text \<open>The requests of a run that are a \<open>CREATE\<close> answered with an error.\<close>

definition failed_create :: "bytes \<times> reply \<Rightarrow> bool" where
  "failed_create = (\<lambda>(b, r). opcode_from (u32_at 4 b) = OpCreate \<and> reply_error r)"

lemma session_handle_fds:
  assumes acc: "fd_accounting H live" and fin: "tables_finite (ses_fs s)" and live: "live w = held (ses_fs s) + rest"
    and rs: "rust_slice b" and run: "session_handle H b (s, w) = (Some r, s', w')"
  shows "tables_finite (ses_fs s') \<and> (\<exists>lost. live w' = held (ses_fs s') + lost + rest \<and>
     size lost \<le> (if failed_create (b, r) then 1 else 0))"
proof (cases "IN_HEADER_LEN \<le> length b")
  case True
  then have op: "handle_op H (opcode_from (u32_at 4 b)) (u64_at 8 b) (u64_at 16 b) (in_header_body b) (s, w) =
      (Some r, s', w')"
    using run by (simp add: session_handle_def in_header_from_bytes_eq [OF rs])
  show ?thesis
  proof (cases "opcode_from (u32_at 4 b) = OpCreate")
    case True
    with handle_create_fds [OF acc fin live] op show ?thesis by (simp add: failed_create_def)
  next
    case False
    from handler_balancedD [OF hbal_op [OF acc False] fin live op] show ?thesis by auto
  qed
next
  case False
  with run fin live show ?thesis
    by (auto simp: session_handle_def in_header_from_bytes_eq [OF rs] done_reply_def)
qed

lemma session_run_fds:
  assumes acc: "fd_accounting H live" and "tables_finite (ses_fs s)" and "live w = held (ses_fs s) + rest"
    and "\<forall>b \<in> set bs. rust_slice b" and "session_run H bs (s, w) = (Some rs, s', w')"
  shows "\<exists>lost. live w' = held (ses_fs s') + lost + rest \<and>
     size lost \<le> length (filter failed_create (zip bs rs))"
  using assms(2-)
proof (induction bs arbitrary: s w rest rs)
  case Nil
  then show ?case by simp
next
  case (Cons b bs)
  obtain r s1 w1 where r: "session_handle H b (s, w) = (Some r, s1, w1)"
    using Cons.prems(4) by (auto split: prod.splits option.splits)
  then obtain rs1 where rs1: "session_run H bs (s1, w1) = (Some rs1, s', w')" "rs = r # rs1"
    using Cons.prems(4) by (auto split: prod.splits)
  from session_handle_fds [OF acc Cons.prems(1,2) _ r] Cons.prems(3)
  obtain lost where lost: "tables_finite (ses_fs s1)" "live w1 = held (ses_fs s1) + lost + rest"
      "size lost \<le> (if failed_create (b, r) then 1 else 0)"
    by auto
  have "live w1 = held (ses_fs s1) + (lost + rest)" using lost(2) by (simp add: add.assoc)
  from Cons.IH [OF lost(1) this _ rs1(1)] Cons.prems(3)
  obtain lost' where "live w' = held (ses_fs s') + lost' + (lost + rest)"
      "size lost' \<le> length (filter failed_create (zip bs rs1))"
    by auto
  with lost(3) show ?case
    by (intro exI [of _ "lost' + lost"]) (auto simp: rs1(2) ac_simps split: if_splits)
qed

text \<open>
  C10. Descriptors are not leaked, but by a \<open>CREATE\<close> that fails: over any sequence of
  requests to a session on a newly opened directory, the descriptors open at the end are those
  open before the directory was opened, those the two tables hold, and at most one for each
  \<open>CREATE\<close> that was answered with an error. The law is the documented effect of the
  system calls on the set of open descriptors.
\<close>

theorem descriptors_are_balanced:
  assumes "fd_accounting H live" and "passthrough_new H dir w0 = (Ok fs, w1)"
    and "\<forall>b \<in> set bs. rust_slice b"
    and "session_run H bs (session_new fs, w1) = (Some rs, s', w')"
  shows "\<exists>lost. live w' = held (ses_fs s') + lost + live w0 \<and>
     size lost \<le> length (filter failed_create (zip bs rs))"
proof -
  obtain d st w where d: "sys_open H dir (oflag H O_DIRECTORY OR oflag H O_RDONLY OR oflag H O_CLOEXEC) w0 = (Inr d, w)"
      "sys_fstat H d w = (Inr st, w1)" "fs = \<lparr>inodes = inode_store_new d st, handles = handle_store_new\<rparr>"
    using assms(2) by (auto simp: passthrough_new_def split: if_splits prod.splits sum.splits)
  have "live w1 = add_mset d (live w0)"
    using opensD [OF accounting_opens(1) [OF assms(1)] d(1)] leavesD [OF accounting_leaves(1) [OF assms(1)] d(2)]
    by simp
  moreover have "held fs = {#d#}" "tables_finite fs"
    by (simp_all add: d(3) held_def tables_finite_def inode_store_new_def handle_store_new_def map_fds_def Let_def)
  ultimately show ?thesis
    using session_run_fds [OF assms(1), of "session_new fs" w1 "live w0" bs rs s' w'] assms(3,4)
    by (simp add: session_new_def)
qed

section \<open>A host that keeps the books\<close>

text \<open>
  Any host can be made to keep the multiset of open descriptors beside its own state. It does
  everything as before, so the law can be had for every host.
\<close>

definition one_more_fd :: "('w \<Rightarrow> fd sysret \<times> 'w) \<Rightarrow> 'w \<times> fd multiset \<Rightarrow> fd sysret \<times> 'w \<times> fd multiset" where
  "one_more_fd call = (\<lambda>(w, m). case call w of
     (Inl e, w') \<Rightarrow> (Inl e, w', m) | (Inr d, w') \<Rightarrow> (Inr d, w', add_mset d m))"

definition tracked :: "'w host \<Rightarrow> ('w \<times> fd multiset) host" where
  "tracked H = (host_beside H)
     \<lparr>sys_open := (\<lambda>path fl. one_more_fd (sys_open H path fl)),
      sys_openat := (\<lambda>d name fl mode. one_more_fd (sys_openat H d name fl mode)),
      sys_close := (\<lambda>d (w, m). (sys_close H d w, m - {#d#})),
      sys_dupfd := (\<lambda>d. one_more_fd (sys_dupfd H d)),
      sys_fdopendir := (\<lambda>d (w, m). case sys_fdopendir H d w of
         (Inl e, w') \<Rightarrow> (Inl e, w', m - {#d#}) | (Inr u, w') \<Rightarrow> (Inr u, w', m))\<rparr>"

lemma beside_leaves: "leaves snd (beside call)"
  by (simp add: leaves_def beside_def split: prod.split)

lemma one_more_fd_opens: "opens snd (one_more_fd call)"
  by (simp add: opens_def one_more_fd_def split: prod.split sum.split)

lemma tracked_accounting: "fd_accounting (tracked H) snd"
  unfolding fd_accounting_def
  by (intro conjI allI)
    (simp_all add: tracked_def host_beside_def beside_leaves one_more_fd_opens del: split_paired_All split: prod.split sum.split)

lemma tracked_new:
  assumes "passthrough_new H dir w0 = (Ok fs, w1)"
  shows "\<exists>m. passthrough_new (tracked H) dir (w0, {#}) = (Ok fs, w1, m)"
  using assms
  by (auto simp: passthrough_new_def tracked_def host_beside_def one_more_fd_def beside_def split: if_splits prod.splits sum.splits)

definition lookup_request :: bytes where
  "lookup_request = le32 42 @ le32 1 @ le64 7 @ le64 1 @ replicate 16 0 @ [102, 0]"

theorem descriptors_are_balanced_witness:
  "\<exists>fs w1 rs s' w'. passthrough_new (tracked mem_host) [115] (mem_world0, {#}) = (Ok fs, w1) \<and>
     session_run (tracked mem_host) [lookup_request] (session_new fs, w1) = (Some rs, s', w') \<and>
     snd w' = held (ses_fs s')"
proof -
  obtain m where new: "passthrough_new (tracked mem_host) [115] (mem_world0, {#}) = (Ok mem_fs, mem_world1, m)"
    using tracked_new [OF mem_passthrough_new] by blast
  have rs: "\<forall>b \<in> set [lookup_request]. rust_slice b" and "opcode_from (u32_at 4 lookup_request) = OpLookup"
    by (simp_all add: rust_slice_def lookup_request_def opcode_from_def)
  then have none: "\<not> failed_create (lookup_request, r)" for r
    by (simp add: failed_create_def)
  obtain rs s' w' where run: "session_run (tracked mem_host) [lookup_request] (session_new mem_fs, mem_world1, m) = (Some rs, s', w')"
    using session_run_safe [of 2 "session_new mem_fs" "[lookup_request]" "tracked mem_host" "(mem_world1, m)"]
      passthrough_ok_new [OF new] rs by (auto simp: session_new_def simp del: session_run.simps)
  have "length (filter failed_create (zip [lookup_request] rs)) = 0"
    using none by (cases rs) simp_all
  with descriptors_are_balanced [OF tracked_accounting new rs run] have "snd w' = held (ses_fs s')"
    by simp
  with new run show ?thesis by blast
qed

text \<open>
  C37. A \<open>CREATE\<close> loses a descriptor when it opens the file and then cannot look it up: it
  reports the error of the lookup, and the descriptor it opened stays open without being in a
  table, so nothing will ever close it.
\<close>

theorem create_loses_its_descriptor:
  assumes "fd_accounting H live" and "tables_finite fs" and "live w = held fs + rest"
    and "by_id (inodes fs) parent = Some p" and "0 \<notin> set name"
    and "sys_openat H (ino_fd p) name (flags OR oflag H O_CREAT OR oflag H O_EXCL) (Some mode) w = (Inr d, w1)"
    and "fs_lookup H parent name (fs, w1) = (Err e, fs', w')"
  shows "fs_create H parent name flags mode (fs, w) = (Err e, fs', w') \<and>
     live w' = held fs' + {#d#} + rest"
proof -
  have opened: "create_opened H parent name d (fs, w1) = (Err e, fs', w')"
    using assms(7) by (simp add: create_opened_def fs_bind_def)
  then have "fs_create H parent name flags mode (fs, w) = (Err e, fs', w')"
    using assms(4-6)
    by (simp add: fs_create_def fs_bind_def fs_inode_def inode_store_get_def fs_lift_def to_cstring_def
        fs_sys_def create_opened_def)
  moreover have "live w1 = held fs + {#d#} + rest"
    using opensD [OF accounting_opens(2) [OF assms(1)] assms(6)] assms(3) by simp
  from create_opened_fds [OF assms(1,2) this opened] have "live w' = held fs' + {#d#} + rest"
    by simp
  ultimately show ?thesis by blast
qed

text \<open>The small host, when the new file is gone again before it is looked up.\<close>

definition racing_host :: "mem_world host" where
  "racing_host = mem_host\<lparr>sys_fstatat := (\<lambda>d name fl. mem_fail)\<rparr>"

theorem create_loses_its_descriptor_witness:
  "snd (snd (snd (fs_create (tracked racing_host) 1 name_f 0 0 (mem_fs, mem_world1\<lparr>mw_file := None\<rparr>, {#3#})))) =
     {#3, 4#}"
proof -
  let ?w = "(mem_world1\<lparr>mw_file := None\<rparr>, {#3#})"
  let ?w1 = "(mem_world1\<lparr>mw_file := Some [], mw_next := 5\<rparr>, {#3, 4#})"
  have held: "held mem_fs = {#3#}" "tables_finite mem_fs"
    by (simp_all add: mem_fs_def held_def tables_finite_def inode_store_new_def handle_store_new_def map_fds_def Let_def)
  have root: "by_id (inodes mem_fs) 1 = Some \<lparr>ino_id = 1, ino_fd = 3, ino_kind = Dir,
      ino_key = stat_key root_stat, ino_parent = None, ino_name = [], ino_lookups = 1\<rparr>"
    by (simp add: mem_fs_def inode_store_new_def ROOT_ID_def Let_def)
  have opn: "sys_openat (tracked racing_host) 3 name_f
      (0 OR oflag (tracked racing_host) O_CREAT OR oflag (tracked racing_host) O_EXCL) (Some 0) ?w = (Inr 4, ?w1)"
    by (simp add: tracked_def host_beside_def one_more_fd_def racing_host_def mem_new_fd_def mem_world0_def)
  have "\<exists>e. fs_lookup (tracked racing_host) 1 name_f (mem_fs, ?w1) = (Err e, mem_fs, ?w1)"
    by (simp add: fs_lookup_def engine_eval tracked_def host_beside_def beside_def racing_host_def mem_fail_def)
  then obtain e where look: "fs_lookup (tracked racing_host) 1 name_f (mem_fs, ?w1) = (Err e, mem_fs, ?w1)" ..
  have "snd ?w = held mem_fs + {#}" by (simp add: held(1))
  from create_loses_its_descriptor [OF tracked_accounting held(2) this root _ _ look, of 0 0] opn
  show ?thesis by (simp add: held(1) add_mset_commute)
qed

end
