(* ===== verification/Control_Properties.thy ===== *)
theory Control_Properties
  imports Server_Safety Mem_Host
begin

text \<open>
  Properties of the control connection: messages survive the socket, payloads decode to what was
  encoded, and the handshake that sets up a vring, with the two ways it can go wrong.
\<close>

section \<open>Messages over the socket\<close>

text \<open>Several messages, sent and received one after the other.\<close>

type_synonym message = "msg_header \<times> bytes \<times> fd list"

fun send_messages :: "'w vmm \<Rightarrow> message list \<Rightarrow> 'w \<Rightarrow> unit proto_result \<times> 'w" where
  "send_messages V [] w = (Ok (), w)"
| "send_messages V ((h, payload, fds) # ms) w =
     (case connection_send V h payload fds w of
        (Ok _, w1) \<Rightarrow> send_messages V ms w1
      | (Err e, w1) \<Rightarrow> (Err e, w1)
      | (Panic, w1) \<Rightarrow> (Panic, w1))"

fun recv_messages :: "'w vmm \<Rightarrow> nat \<Rightarrow> 'w \<Rightarrow> message list proto_result \<times> 'w" where
  "recv_messages V 0 w = (Ok [], w)"
| "recv_messages V (Suc n) w =
     (case connection_recv V w of
        (Ok m, w1) \<Rightarrow>
          (case recv_messages V n w1 of
             (Ok ms, w2) \<Rightarrow> (Ok (m # ms), w2)
           | (Err e, w2) \<Rightarrow> (Err e, w2)
           | (Panic, w2) \<Rightarrow> (Panic, w2))
      | (Err e, w1) \<Rightarrow> (Err e, w1)
      | (Panic, w1) \<Rightarrow> (Panic, w1))"

text \<open>
  A message whose header announces its payload, of a size that is accepted, with no more
  descriptors than fit the buffer of a receive.
\<close>

definition well_framed :: "message \<Rightarrow> bool" where
  "well_framed = (\<lambda>(h, payload, fds).
     unat (mh_size h) = length payload \<and> length payload \<le> MAX_PAYLOAD \<and> length fds \<le> MAX_FDS_PER_RECV)"

text \<open>A message as it is on the socket: its descriptors go with its first byte.\<close>

fun message_stream :: "message \<Rightarrow> stream" where
  "message_stream (h, payload, fds) = attach fds (msg_header_to_bytes h @ payload)"

text \<open>
  The two ends number their descriptors differently: the kernel installs each one it passes
  under a new number. \<open>same d d'\<close> says that \<open>d'\<close> on the receiving side is the open file that
  \<open>d\<close> was on the sending side.
\<close>

definition stream_arrives :: "(fd \<Rightarrow> fd \<Rightarrow> bool) \<Rightarrow> stream \<Rightarrow> stream \<Rightarrow> bool" where
  "stream_arrives same = list_all2 (\<lambda>(b, fds) (b', fds'). b' = b \<and> list_all2 same fds fds')"

definition message_arrives :: "(fd \<Rightarrow> fd \<Rightarrow> bool) \<Rightarrow> message \<Rightarrow> message \<Rightarrow> bool" where
  "message_arrives same = (\<lambda>(h, payload, fds) (h', payload', fds').
     h' = h \<and> payload' = payload \<and> list_all2 same fds fds')"

lemma stream_arrives_plain: "stream_arrives same (map (\<lambda>b. (b, [])) b) s \<Longrightarrow> s = attach [] b"
  unfolding stream_arrives_def attach_Nil
  by (induction b arbitrary: s) (auto simp: list_all2_Cons1)

lemma stream_arrives_attach:
  assumes "stream_arrives same (attach fds b) s" and "b \<noteq> []"
  shows "map fst s = b \<and> list_all2 same fds (stream_fds s)"
proof -
  obtain x xs where b: "b = x # xs" using assms(2) by (cases b) auto
  with assms(1) obtain fds' s' where s: "s = (x, fds') # s'" "list_all2 same fds fds'"
      "stream_arrives same (map (\<lambda>b. (b, [])) xs) s'"
    by (auto simp: stream_arrives_def list_all2_Cons1)
  with stream_arrives_plain [OF s(3)] b show ?thesis by simp
qed

lemma send_messages_stream:
  assumes "stream_send V log" and "send_messages V ms w = (Ok (), w')"
  shows "log w' = log w @ concat (map message_stream ms)"
  using assms(2)
proof (induction ms arbitrary: w)
  case (Cons m ms)
  obtain h payload fds where m: "m = (h, payload, fds)" by (metis surj_pair)
  then obtain w1 where "connection_send V h payload fds w = (Ok (), w1)" "send_messages V ms w1 = (Ok (), w')"
    using Cons.prems by (auto split: prod.splits result.splits)
  with connection_send_stream [OF assms(1)] Cons.IH m show ?case
    by fastforce
qed simp

lemma recv_messages_stream:
  assumes "stream_recv V pending" and "\<forall>m \<in> set ms. well_framed m"
    and "stream_arrives same (concat (map message_stream ms)) s" and "pending w = s @ rest"
  shows "\<exists>ms' w'. recv_messages V (length ms) w = (Ok ms', w') \<and> pending w' = rest \<and>
     list_all2 (message_arrives same) ms ms'"
  using assms(2-4)
proof (induction ms arbitrary: s w)
  case Nil
  then show ?case by (simp add: stream_arrives_def)
next
  case (Cons m ms)
  obtain h payload fds where m: "m = (h, payload, fds)" by (metis surj_pair)
  let ?b = "msg_header_to_bytes h @ payload"
  obtain s1 s2 where s: "s = s1 @ s2" "stream_arrives same (attach fds ?b) s1"
      "stream_arrives same (concat (map message_stream ms)) s2"
    using Cons.prems(2) by (auto simp: m stream_arrives_def list_all2_append1)
  have "?b \<noteq> []" by (simp add: msg_header_to_bytes_def)
  from stream_arrives_attach [OF s(2) this]
  have s1: "map fst s1 = ?b" "list_all2 same fds (stream_fds s1)" by simp_all
  moreover have "unat (mh_size h) = length payload" "length payload \<le> MAX_PAYLOAD" "length fds \<le> MAX_FDS_PER_RECV"
    using Cons.prems(1) by (simp_all add: m well_framed_def)
  moreover have "length (stream_fds s1) = length fds" using list_all2_lengthD [OF s1(2)] by simp
  ultimately obtain w1 where 1: "connection_recv V w = (Ok (h, payload, stream_fds s1), w1)" "pending w1 = s2 @ rest"
    using connection_recv_stream [OF assms(1), of w s1 "s2 @ rest" h payload] Cons.prems(3) s(1) by auto
  from Cons.IH [OF _ s(3) 1(2)] Cons.prems(1)
  obtain ms' w' where "recv_messages V (length ms) w1 = (Ok ms', w')" "pending w' = rest"
      "list_all2 (message_arrives same) ms ms'"
    by auto
  with 1 s1(2) m show ?case by (auto simp: message_arrives_def)
qed

text \<open>
  C14. Framing survives the socket: messages that were sent one after the other, in whatever
  pieces the socket accepts them, are received one after the other, in whatever pieces it
  delivers them, each with its own header, payload and descriptors, and the bytes after them
  are left alone. The laws are the documented behaviour of a stream socket that passes
  descriptors; what one side wrote is what arrives at the other, with descriptors renumbered by
  the kernel. Each message has at most \<open>MAX_FDS_PER_RECV\<close> descriptors.
\<close>

theorem messages_survive_the_socket:
  assumes "stream_send V log" and "stream_recv V' pending"
    and "\<forall>m \<in> set ms. well_framed m" and "log w = []"
    and "send_messages V ms w = (Ok (), w1)"
    and "stream_arrives same (log w1) s" and "pending w2 = s @ rest"
  shows "\<exists>ms' w3. recv_messages V' (length ms) w2 = (Ok ms', w3) \<and> pending w3 = rest \<and>
     list_all2 (message_arrives same) ms ms'"
proof -
  have "log w1 = concat (map message_stream ms)"
    using send_messages_stream [OF assms(1,5)] assms(4) by simp
  with recv_messages_stream [OF assms(2,3) _ assms(7)] assms(6) show ?thesis by simp
qed

text \<open>
  Two messages with a descriptor each and one without; the receiving side numbers descriptors a
  hundred higher.
\<close>

definition hello :: "message list" where
  "hello = [(\<lparr>mh_request = 1, mh_flags = 1, mh_size = 0\<rparr>, [], []),
     (\<lparr>mh_request = 12, mh_flags = 1, mh_size = 8\<rparr>, le64 0, [7]),
     (\<lparr>mh_request = 13, mh_flags = 1, mh_size = 8\<rparr>, le64 1, [8])]"

definition renumbered :: "stream \<Rightarrow> stream" where
  "renumbered = map (\<lambda>(b, fds). (b, map (\<lambda>d. d + 100) fds))"

lemma renumbered_arrives: "stream_arrives (\<lambda>d d'. d' = d + 100) s (renumbered s)"
  by (auto simp: stream_arrives_def renumbered_def list_all2_map2 list_all2_same)

lemma mem_send_loop:
  assumes "sys_send_with_fd V = mem_send"
  shows "sent \<le> length buf \<Longrightarrow> \<exists>w'. send_loop V buf fds sent w = (Ok (), w') \<and> mw_file w' = mw_file w"
proof (induction "length buf - sent" arbitrary: sent w rule: less_induct)
  case less
  show ?case
  proof (cases "sent < length buf")
    case True
    obtain n w1 where s: "mem_send (drop sent buf) (if sent = 0 \<and> fds \<noteq> [] then fds else []) w = (Inr n, w1)"
        "0 < n" "n \<le> length buf - sent" "mw_file w1 = mw_file w"
      using True by (simp add: mem_send_def Let_def)
    with less.hyps [of "sent + n" w1] True show ?thesis
      by (subst send_loop.simps) (auto simp: assms)
  next
    case False
    then show ?thesis by (subst send_loop.simps) simp
  qed
qed

lemma mem_send_messages: "\<exists>w1. send_messages mem_vmm ms w = (Ok (), w1)"
proof (induction ms arbitrary: w)
  case (Cons m ms)
  obtain h payload fds where m: "m = (h, payload, fds)" by (metis surj_pair)
  obtain w1 where "connection_send mem_vmm h payload fds w = (Ok (), w1)"
    using mem_send_loop [of mem_vmm 0 "msg_header_to_bytes h @ payload" fds w] by (auto simp: connection_send_def)
  with Cons m show ?case by simp
qed simp

theorem messages_survive_the_socket_witness:
  "\<exists>w1 w3. send_messages mem_vmm hello mem_world0 = (Ok (), w1) \<and>
     recv_messages mem_vmm 3 (mem_world0\<lparr>mw_in := renumbered (mw_out w1) @ [(1, []), (2, [])]\<rparr>) =
       (Ok [(\<lparr>mh_request = 1, mh_flags = 1, mh_size = 0\<rparr>, [], []),
          (\<lparr>mh_request = 12, mh_flags = 1, mh_size = 8\<rparr>, le64 0, [107]),
          (\<lparr>mh_request = 13, mh_flags = 1, mh_size = 8\<rparr>, le64 1, [108])], w3) \<and> mw_in w3 = [(1, []), (2, [])]"
proof -
  obtain w1 where w1: "send_messages mem_vmm hello mem_world0 = (Ok (), w1)"
    using mem_send_messages by blast
  have "\<forall>m \<in> set hello. well_framed m"
    by (simp add: hello_def well_framed_def MAX_PAYLOAD_def MAX_FDS_PER_RECV_def)
  from messages_survive_the_socket [OF mem_vmm_stream_send mem_vmm_stream_recv this _ w1 renumbered_arrives,
      of "mem_world0\<lparr>mw_in := renumbered (mw_out w1) @ [(1, []), (2, [])]\<rparr>" "[(1, []), (2, [])]"]
  obtain ms' w3 where run: "recv_messages mem_vmm (length hello)
      (mem_world0\<lparr>mw_in := renumbered (mw_out w1) @ [(1, []), (2, [])]\<rparr>) = (Ok ms', w3)"
      "mw_in w3 = [(1, []), (2, [])]" "list_all2 (message_arrives (\<lambda>d d'. d' = d + 100)) hello ms'"
    by (auto simp: mem_world0_def simp del: recv_messages.simps)
  from run(3) have "ms' = [(\<lparr>mh_request = 1, mh_flags = 1, mh_size = 0\<rparr>, [], []),
      (\<lparr>mh_request = 12, mh_flags = 1, mh_size = 8\<rparr>, le64 0, [107]),
      (\<lparr>mh_request = 13, mh_flags = 1, mh_size = 8\<rparr>, le64 1, [108])]"
    by (auto simp: hello_def message_arrives_def list_all2_Cons1)
  moreover have "length hello = 3" by (simp add: hello_def)
  ultimately show ?thesis using w1 run(1,2) by (metis (no_types))
qed

section \<open>Payloads\<close>

text \<open>
  C26. The control messages' payloads decode to what was encoded, with any bytes after them: the
  64-bit value, the vring state, the vring addresses, the descriptor payload and the memory
  table; so do the header and the request code. A buffer of less than eight bytes is refused as
  truncated by each of them.
\<close>

theorem control_payloads_round_trip:
  fixes rest :: bytes and v :: u64
  assumes "length regions < 2 ^ 32" and "length short < 8"
  shows "u64_payload_from_bytes (u64_payload_to_bytes v @ rest) = Ok v \<and>
     vring_state_from_bytes (vring_state_to_bytes st @ rest) = Ok st \<and>
     vring_addr_from_bytes (vring_addr_to_bytes a @ rest) = Ok a \<and>
     vring_fd_payload_from_bytes (vring_fd_payload_to_bytes p @ rest) = Ok p \<and>
     memory_regions_from_bytes (memory_regions_to_bytes regions @ rest) = Ok regions \<and>
     msg_header_from_bytes (msg_header_to_bytes h) = h \<and>
     request_try_from (request_code r) = Ok r \<and>
     u64_payload_from_bytes short = Err Truncated \<and> vring_state_from_bytes short = Err Truncated \<and>
     vring_addr_from_bytes short = Err Truncated \<and> vring_fd_payload_from_bytes short = Err Truncated \<and>
     memory_regions_from_bytes short = Err Truncated"
proof -
  have "memory_regions_from_bytes short = Err Truncated"
    using assms(2) by (simp add: memory_regions_from_bytes_def)
  then show ?thesis
    using assms memory_regions_round_trip [OF assms(1)]
    by (simp add: u64_payload.dec_enc vring_state.dec_enc vring_addr.dec_enc vring_fd_payload.dec_enc
        u64_payload.dec_short vring_state.dec_short vring_addr.dec_short vring_fd_payload.dec_short
        msg_header_round_trip request_try_from_code)
qed

theorem control_payloads_round_trip_witness:
  "memory_regions_from_bytes (memory_regions_to_bytes
     [\<lparr>guest_phys_addr = 0, memory_size = 4096, userspace_addr = 0x7F0000000000, mmap_offset = 0\<rparr>] @ [1]) =
   Ok [\<lparr>guest_phys_addr = 0, memory_size = 4096, userspace_addr = 0x7F0000000000, mmap_offset = 0\<rparr>]"
  using control_payloads_round_trip [of
      "[\<lparr>guest_phys_addr = 0, memory_size = 4096, userspace_addr = 0x7F0000000000, mmap_offset = 0\<rparr>]" "[]"]
  by simp

section \<open>Setting up a vring\<close>

text \<open>Control requests handled one after the other, as long as they succeed.\<close>

fun handle_requests ::
  "'w host \<Rightarrow> 'w vmm \<Rightarrow> (request \<times> bytes \<times> fd list) list \<Rightarrow> 'w control" where
  "handle_requests H V [] \<sigma> = (Ok (), \<sigma>)"
| "handle_requests H V ((r, payload, fds) # ms) \<sigma> =
     (case handle_request H V r payload fds \<sigma> of
        (Ok _, \<sigma>') \<Rightarrow> handle_requests H V ms \<sigma>'
      | (Err e, \<sigma>') \<Rightarrow> (Err e, \<sigma>')
      | (Panic, \<sigma>') \<Rightarrow> (Panic, \<sigma>'))"

definition set_num :: "u32 \<Rightarrow> u32 \<Rightarrow> request \<times> bytes \<times> fd list" where
  "set_num i n = (SetVringNum, vring_state_to_bytes \<lparr>vs_index = i, vs_num = n\<rparr>, [])"

definition set_base :: "u32 \<Rightarrow> u32 \<Rightarrow> request \<times> bytes \<times> fd list" where
  "set_base i n = (SetVringBase, vring_state_to_bytes \<lparr>vs_index = i, vs_num = n\<rparr>, [])"

definition set_addr :: "vring_addr \<Rightarrow> request \<times> bytes \<times> fd list" where
  "set_addr a = (SetVringAddr, vring_addr_to_bytes a, [])"

lemma handle_set_slot:
  "handle_requests H V (set_num i n # ms) (srv, w) = handle_requests H V ms
     (update_slot (unat i) (\<lambda>s. s\<lparr>slot_queue_size := Some (ucast n)\<rparr>) srv, w)"
  "handle_requests H V (set_base i n # ms) (srv, w) = handle_requests H V ms
     (update_slot (unat i) (set_vring_base (ucast n)) srv, w)"
  "handle_requests H V (set_addr a # ms) (srv, w) = handle_requests H V ms
     (update_slot (unat (va_index a)) (maybe_build a) srv, w)"
  using vring_state.dec_enc [of _ "[]"] vring_addr.dec_enc [of _ "[]"]
  by (simp_all add: set_num_def set_base_def set_addr_def handle_request_def ctl_try_def ctl_slot_def)

lemma update_slot_twice:
  "update_slot i g (update_slot i f srv) = update_slot i (\<lambda>s. g (f s)) srv"
  by (simp add: update_slot_def)

text \<open>
  C13. A vring is set up by its size, its base and its addresses. Once the size is known, the base
  and the addresses may come in either order: the queue then has the announced addresses, the
  size cut to 16 bits and the announced base; every other vring, the memory and the session are
  as before. The base it reports back is the one that was set.
\<close>

theorem vring_is_set_up:
  assumes "unat (va_index a) < length (srv_vrings srv)"
  shows "\<exists>slot. slot_vq slot = Some \<lparr>vq_desc_addr = va_descriptor a, vq_avail_addr = va_avail a,
         vq_used_addr = va_used a, vq_queue_size = ucast n, vq_last_avail_idx = ucast b\<rparr> \<and>
     handle_requests H V [set_num (va_index a) n, set_base (va_index a) b, set_addr a] (srv, w) =
       (Ok (), srv\<lparr>srv_vrings := (srv_vrings srv)[unat (va_index a) := slot]\<rparr>, w) \<and>
     handle_requests H V [set_num (va_index a) n, set_addr a, set_base (va_index a) b] (srv, w) =
       (Ok (), srv\<lparr>srv_vrings := (srv_vrings srv)[unat (va_index a) := slot]\<rparr>, w) \<and>
     handle_request H V GetVringBase (vring_state_to_bytes \<lparr>vs_index = va_index a, vs_num = 0\<rparr>) []
       (srv\<lparr>srv_vrings := (srv_vrings srv)[unat (va_index a) := slot]\<rparr>, w) =
     ctl_reply V GetVringBase (vring_state_to_bytes \<lparr>vs_index = va_index a, vs_num = ucast (ucast b :: u16)\<rparr>)
       (srv\<lparr>srv_vrings := (srv_vrings srv)[unat (va_index a) := slot]\<rparr>, w)"
proof -
  let ?s = "srv_vrings srv ! unat (va_index a)"
  let ?vq = "\<lparr>vq_desc_addr = va_descriptor a, vq_avail_addr = va_avail a, vq_used_addr = va_used a,
    vq_queue_size = ucast n, vq_last_avail_idx = ucast b\<rparr>"
  let ?slot = "?s\<lparr>slot_queue_size := Some (ucast n), slot_pending_avail_base := ucast b, slot_vq := Some ?vq\<rparr>"
  have "handle_requests H V [set_num (va_index a) n, set_base (va_index a) b, set_addr a] (srv, w) =
      (Ok (), srv\<lparr>srv_vrings := (srv_vrings srv)[unat (va_index a) := ?slot]\<rparr>, w)"
    "handle_requests H V [set_num (va_index a) n, set_addr a, set_base (va_index a) b] (srv, w) =
      (Ok (), srv\<lparr>srv_vrings := (srv_vrings srv)[unat (va_index a) := ?slot]\<rparr>, w)"
    using assms by (simp_all add: handle_set_slot update_slot_twice update_slot_def maybe_build_def
        set_vring_base_def set_avail_base_def virtqueue_new_def)
  moreover have "vring_state_from_bytes (vring_state_to_bytes st) = Ok st" for st
    using vring_state.dec_enc [of st "[]"] by simp
  then have "handle_request H V GetVringBase (vring_state_to_bytes \<lparr>vs_index = va_index a, vs_num = 0\<rparr>) []
       (srv\<lparr>srv_vrings := (srv_vrings srv)[unat (va_index a) := ?slot]\<rparr>, w) =
     ctl_reply V GetVringBase (vring_state_to_bytes \<lparr>vs_index = va_index a, vs_num = ucast (ucast b :: u16)\<rparr>)
       (srv\<lparr>srv_vrings := (srv_vrings srv)[unat (va_index a) := ?slot]\<rparr>, w)"
    using assms by (simp add: handle_request_def ctl_get_vring_base_def ctl_try_def slot_at_def avail_base_def Let_def)
  ultimately show ?thesis by (intro exI [of _ ?slot]) simp
qed

definition addr0 :: vring_addr where
  "addr0 = \<lparr>va_index = 0, va_flags = 0, va_descriptor = 0, va_used = 128, va_avail = 64, va_log = 0\<rparr>"

lemma new_vrings: "srv_vrings (server_new c s) = [vring_slot_default, vring_slot_default]"
  by (simp add: server_new_def NUM_QUEUES_def numeral_2_eq_2)

theorem vring_is_set_up_witness:
  "\<exists>slot. slot_vq slot = Some \<lparr>vq_desc_addr = 0, vq_avail_addr = 64, vq_used_addr = 128,
       vq_queue_size = 2, vq_last_avail_idx = 5\<rparr> \<and>
     handle_requests mem_host mem_vmm [set_num 0 2, set_addr addr0, set_base 0 5]
       (server_new 9 (session_new mem_fs), mem_world1) =
     (Ok (), (server_new 9 (session_new mem_fs))\<lparr>srv_vrings := [slot, vring_slot_default]\<rparr>, mem_world1)"
  using vring_is_set_up [of addr0 "server_new 9 (session_new mem_fs)" 2 5 mem_host mem_vmm mem_world1]
  by (auto simp: addr0_def new_vrings)

text \<open>
  C38. The addresses must not come before the size: on a vring without a size they are dropped,
  and a size that arrives later does not bring them back, so the vring stays without a queue and
  its kicks do nothing.
\<close>

theorem early_addresses_are_dropped:
  assumes "slot_at srv (unat (va_index a)) = Some slot" and "slot_queue_size slot = None" and "slot_vq slot = None"
  shows "\<exists>srv'. handle_requests H V [set_addr a, set_num (va_index a) n] (srv, w) = (Ok (), srv', w) \<and>
     process_vring fuel H V (unat (va_index a)) (srv', h, w) = Some (Ok (), srv', h, w)"
  using assms
  by (auto simp: handle_set_slot update_slot_twice update_slot_def maybe_build_def slot_at_def process_vring_def
      Let_def split: if_splits option.splits)

theorem early_addresses_are_dropped_witness:
  "\<exists>srv'. handle_requests mem_host mem_vmm [set_addr addr0, set_num 0 2]
       ((server_new 9 (session_new mem_fs))\<lparr>srv_mem := Some [\<lparr>rg_gpa = 0, rg_user_addr = 0, rg_len = 4096,
          rg_ptr = (1, 0), rg_mmap_base = (1, 0), rg_mmap_len = 4096\<rparr>]\<rparr>, mem_world1) = (Ok (), srv', mem_world1) \<and>
     process_vring 1 mem_host mem_vmm 0 (srv', \<lambda>_. 1, mem_world1) = Some (Ok (), srv', \<lambda>_. 1, mem_world1)"
  using early_addresses_are_dropped [of "(server_new 9 (session_new mem_fs))\<lparr>srv_mem := Some [\<lparr>rg_gpa = 0,
        rg_user_addr = 0, rg_len = 4096, rg_ptr = (1, 0), rg_mmap_base = (1, 0), rg_mmap_len = 4096\<rparr>]\<rparr>"
      addr0 vring_slot_default mem_host mem_vmm 2 mem_world1 1 "\<lambda>_. 1"]
  by (simp add: addr0_def slot_at_def new_vrings vring_slot_default_def)

text \<open>
  C39. A queue size that is a multiple of 65536 stops the daemon: it is cut to 16 bits, becomes 0,
  and is accepted; as soon as the guest publishes a request, the first remainder by the queue
  size panics.
\<close>

theorem zero_queue_size_panics:
  assumes "65536 dvd unat n" and "unat (va_index a) < length (srv_vrings srv)" and "srv_mem srv = Some mem"
    and "slot_pending_avail_base (srv_vrings srv ! unat (va_index a)) = 0"
    and "mem_read_u16 mem h User (va_avail a + 2) = Some idx" and "idx \<noteq> 0"
  shows "\<exists>srv' \<sigma>. handle_requests H V [set_num (va_index a) n, set_addr a] (srv, w) = (Ok (), srv', w) \<and>
     process_vring (Suc fuel) H V (unat (va_index a)) (srv', h, w) = Some (Panic, \<sigma>)"
proof -
  let ?i = "unat (va_index a)"
  have zero: "(ucast n :: u16) = 0"
  proof -
    have "unat (ucast n :: u16) = unat n mod 2 ^ 16"
      by (simp add: unsigned_ucast_eq take_bit_eq_mod)
    with assms(1) show ?thesis by (simp add: unat_eq_zero [symmetric])
  qed
  let ?vq = "virtqueue_new 0 (va_descriptor a) (va_avail a) (va_used a)"
  let ?slot = "(srv_vrings srv ! ?i)\<lparr>slot_queue_size := Some 0, slot_vq := Some ?vq\<rparr>"
  let ?srv = "srv\<lparr>srv_vrings := (srv_vrings srv)[?i := ?slot]\<rparr>"
  have "handle_requests H V [set_num (va_index a) n, set_addr a] (srv, w) = (Ok (), ?srv, w)"
    using assms(2,4) zero
    by (simp add: handle_set_slot update_slot_twice update_slot_def maybe_build_def set_avail_base_def virtqueue_new_def)
  moreover have "pop_avail mem h ?vq = (Panic, ?vq)"
    using assms(5,6) by (simp add: pop_avail_def virtqueue_new_def)
  then have "\<exists>\<sigma>. process_vring (Suc fuel) H V ?i (?srv, h, w) = Some (Panic, \<sigma>)"
    using assms(2,3) by (simp add: process_vring_def Let_def)
  ultimately show ?thesis by blast
qed

theorem zero_queue_size_panics_witness:
  "\<exists>srv' \<sigma>. handle_requests mem_host mem_vmm [set_num 0 65536, set_addr addr0]
       ((server_new 9 (session_new mem_fs))\<lparr>srv_mem := Some [\<lparr>rg_gpa = 0, rg_user_addr = 0, rg_len = 4096,
          rg_ptr = (1, 0), rg_mmap_base = (1, 0), rg_mmap_len = 4096\<rparr>]\<rparr>, mem_world1) = (Ok (), srv', mem_world1) \<and>
     process_vring 1 mem_host mem_vmm 0 (srv', \<lambda>_. 1, mem_world1) = Some (Panic, \<sigma>)"
proof -
  let ?r = "\<lparr>rg_gpa = 0, rg_user_addr = 0, rg_len = 4096, rg_ptr = (1, 0), rg_mmap_base = (1, 0), rg_mmap_len = 4096\<rparr>"
  have "mem_read_u16 [?r] (\<lambda>_. 1) User (va_avail addr0 + 2) = Some (from_le [1, 1])"
    by (simp add: mem_read_u16_def get_slice_def find_region_def in_region_def addr0_def load_def upt_rec)
  moreover have "from_le [1, 1] \<noteq> (0 :: u16)"
    by simp
  ultimately show ?thesis
    using zero_queue_size_panics [of 65536 addr0 "(server_new 9 (session_new mem_fs))\<lparr>srv_mem := Some [?r]\<rparr>" "[?r]"
        "\<lambda>_. 1" "from_le [1, 1]" mem_host mem_vmm mem_world1 0]
    by (simp add: addr0_def new_vrings vring_slot_default_def)
qed

end
