(* ===== verification/Map_Balance.thy ===== *)
theory Map_Balance
  imports Control_Properties "HOL-Library.Multiset"
begin

text \<open>
  The mappings of guest memory as a resource: every mapping made for a memory table is undone
  exactly once, when the table is replaced or when a later region of it cannot be mapped.
\<close>

section \<open>Accounting\<close>

type_synonym mapping_id = "host_ptr \<times> u64"

definition region_mapping :: "region \<Rightarrow> mapping_id" where
  "region_mapping r = (rg_mmap_base r, rg_mmap_len r)"

definition mappings_of :: "guest_memory option \<Rightarrow> mapping_id multiset" where
  "mappings_of mem = (case mem of None \<Rightarrow> {#} | Some rs \<Rightarrow> mset (map region_mapping rs))"

text \<open>
  What the calls do to the mappings of the process (\<open>live\<close>): \<open>mmap\<close> adds the one it returns,
  \<open>munmap\<close> takes away the one it is given, sending and closing leave them alone.
\<close>

definition map_accounting :: "'w host \<Rightarrow> 'w vmm \<Rightarrow> ('w \<Rightarrow> mapping_id multiset) \<Rightarrow> bool" where
  "map_accounting H V live \<longleftrightarrow>
     (\<forall>d n off w p w'. sys_mmap V d n off w = (Inr p, w') \<longrightarrow> live w' = add_mset (p, n) (live w)) \<and>
     (\<forall>d n off w e w'. sys_mmap V d n off w = (Inl e, w') \<longrightarrow> live w' = live w) \<and>
     (\<forall>p n w. (p, n) \<in># live w \<longrightarrow> live (sys_munmap V p n w) = live w - {#(p, n)#}) \<and>
     (\<forall>b fds w r w'. sys_send_with_fd V b fds w = (r, w') \<longrightarrow> live w' = live w) \<and>
     (\<forall>d w. live (sys_close H d w) = live w)"

lemma map_accountingD:
  assumes "map_accounting H V live"
  shows "sys_mmap V d n off w = (Inr p, w') \<Longrightarrow> live w' = add_mset (p, n) (live w)"
    and "sys_mmap V d n off w = (Inl e, w') \<Longrightarrow> live w' = live w"
    and "(p, n) \<in># live w \<Longrightarrow> live (sys_munmap V p n w) = live w - {#(p, n)#}"
    and "sys_send_with_fd V b fds w = (r, w') \<Longrightarrow> live w' = live w"
    and "live (sys_close H d w) = live w"
  using assms unfolding map_accounting_def by metis+

lemma drop_regions_live:
  assumes "map_accounting H V live" and "live w = B + mset (map region_mapping rs)"
  shows "live (fold (drop_region V) rs w) = B"
  using assms(2)
proof (induction rs arbitrary: w)
  case (Cons r rs)
  have "live (drop_region V r w) = B + mset (map region_mapping rs)"
    using Cons.prems map_accountingD(3) [OF assms(1), of "rg_mmap_base r" "rg_mmap_len r" w]
    by (simp add: drop_region_def region_mapping_def [of r])
  then show ?case by (simp add: Cons.IH)
qed simp

lemma map_one_live:
  assumes "map_accounting H V live" and "map_one V rg d w = (r, w')"
  shows "live w' = (case r of Ok x \<Rightarrow> add_mset (region_mapping x) (live w) | _ \<Rightarrow> live w)"
  using assms(2) map_accountingD(1,2) [OF assms(1)]
  by (auto simp: map_one_def Let_def region_mapping_def split: if_splits prod.splits sum.splits)

text \<open>A table that cannot be mapped in full leaves no mapping behind.\<close>

lemma map_loop_live:
  assumes "map_accounting H V live" and "page_size V \<noteq> 0"
    and "map_loop V xs mapped w = (r, w')" and "live w = B + mset (map region_mapping mapped)"
  shows "live w' = B + (case r of Ok mem \<Rightarrow> mset (map region_mapping mem) | _ \<Rightarrow> {#})"
  using assms(3,4)
proof (induction xs arbitrary: mapped w)
  case (Cons x xs)
  obtain rg d where x: "x = (rg, d)" by fastforce
  obtain r1 w1 where m: "map_one V rg d w = (r1, w1)" by fastforce
  note live1 = map_one_live [OF assms(1) m]
  show ?case
  proof (cases r1)
    case (Ok reg)
    then show ?thesis
      using Cons.IH [of "mapped @ [reg]" w1] Cons.prems m live1 x by simp
  next
    case (Err e)
    then show ?thesis
      using Cons.prems m live1 x drop_regions_live [OF assms(1), of w1 B mapped] by auto
  next
    case Panic
    with m assms(2) show ?thesis by (auto simp: map_one_def Let_def split: prod.splits sum.splits)
  qed
qed auto

section \<open>Control messages\<close>

lemma send_loop_live:
  assumes "map_accounting H V live" and "send_loop V buf fds sent w = (x, w')"
  shows "live w' = live w"
  using assms(2)
proof (induction "length buf - sent" arbitrary: sent w rule: less_induct)
  case less
  show ?case
  proof (cases "sent < length buf")
    case True
    obtain s w1 where s: "sys_send_with_fd V (drop sent buf) (if sent = 0 \<and> fds \<noteq> [] then fds else []) w = (s, w1)"
      by fastforce
    have "live w1 = live w" using map_accountingD(4) [OF assms(1) s] .
    moreover have "live w' = live w1"
    proof (cases "\<exists>n. s = Inr n \<and> n \<noteq> 0")
      case True
      then obtain n where n: "s = Inr n" "0 < n" by blast
      then have "send_loop V buf fds (sent + n) w1 = (x, w')"
        using less.prems \<open>sent < length buf\<close> s by (subst (asm) send_loop.simps) simp
      then show ?thesis using less.hyps [of "sent + n" w1] n(2) \<open>sent < length buf\<close> by simp
    next
      case False
      then show ?thesis
        using less.prems \<open>sent < length buf\<close> s by (subst (asm) send_loop.simps) (simp split: sum.splits)
    qed
    ultimately show ?thesis by simp
  next
    case False
    with less.prems show ?thesis by (subst (asm) send_loop.simps) simp
  qed
qed

text \<open>A control step keeps the balance: the mappings are those of a base and of the current table.\<close>

definition keeps_mappings :: "('w \<Rightarrow> mapping_id multiset) \<Rightarrow> 'w control \<Rightarrow> bool" where
  "keeps_mappings live m \<longleftrightarrow>
     (\<forall>srv w r srv' w' B. m (srv, w) = (r, srv', w') \<longrightarrow> live w = B + mappings_of (srv_mem srv) \<longrightarrow>
        live w' = B + mappings_of (srv_mem srv'))"

named_theorems balanced_map \<open>control steps that keep the balance of mappings\<close>

lemma keeps_mappings_simple [balanced_map]:
  assumes "map_accounting H V live"
  shows "keeps_mappings live ctl_done" "keeps_mappings live (ctl_slot i f)" "keeps_mappings live (ctl_reply V r b)"
    "keeps_mappings live (\<lambda>(srv, w). (Ok (), srv, close_opt H d w))"
  using send_loop_live [OF assms] map_accountingD(5) [OF assms]
  by (auto simp: keeps_mappings_def ctl_done_def ctl_slot_def update_slot_def ctl_reply_def server_reply_def
      connection_send_def close_opt_def split: prod.splits option.splits if_splits)

lemma keeps_mappings_try [balanced_map]:
  "(\<And>v. keeps_mappings live (k v)) \<Longrightarrow> keeps_mappings live (ctl_try x k)"
  by (cases x) (auto simp: keeps_mappings_def ctl_try_def)

lemma keeps_mappings_fds [balanced_map]:
  assumes "map_accounting H V live"
  shows "keeps_mappings live (ctl_set_kick H payload fds)" "keeps_mappings live (ctl_set_call H payload fds)"
  unfolding ctl_set_kick_def ctl_set_call_def using map_accountingD(5) [OF assms]
  by (intro keeps_mappings_try;
      auto simp: keeps_mappings_def update_slot_def close_opt_def split: option.splits)+

lemma keeps_mappings_get_base [balanced_map]:
  assumes "map_accounting H V live"
  shows "keeps_mappings live (ctl_get_vring_base V payload)"
proof -
  have "keeps_mappings live (\<lambda>(srv, w). ctl_reply V GetVringBase (b srv) (srv, w))" for b
    using keeps_mappings_simple(3) [OF assms] unfolding keeps_mappings_def by simp
  then show ?thesis
    unfolding ctl_get_vring_base_def Let_def by (intro keeps_mappings_try)
qed

lemma keeps_mappings_mem_table [balanced_map]:
  assumes "map_accounting H V live" and "page_size V \<noteq> 0"
  shows "keeps_mappings live (ctl_set_mem_table V payload fds)"
  unfolding ctl_set_mem_table_def
proof (intro keeps_mappings_try)
  fix regions
  show "keeps_mappings live (\<lambda>(srv, w).
     if length regions \<noteq> length fds then (Err Truncated, srv, w)
     else case map_regions V regions fds w of
            (Err e, w') \<Rightarrow> (Err e, srv, w')
          | (Panic, w') \<Rightarrow> (Panic, srv, w')
          | (Ok mem, w') \<Rightarrow>
              (Ok (), srv\<lparr>srv_mem := Some mem\<rparr>,
               case srv_mem srv of None \<Rightarrow> w' | Some old \<Rightarrow> fold (drop_region V) old w'))"
    unfolding keeps_mappings_def
  proof (intro allI impI)
    fix srv w r srv' w' B
    assume eq: "(case (srv, w) of (srv, w) \<Rightarrow>
       if length regions \<noteq> length fds then (Err Truncated, srv, w)
       else case map_regions V regions fds w of
            (Err e, w') \<Rightarrow> (Err e, srv, w')
          | (Panic, w') \<Rightarrow> (Panic, srv, w')
          | (Ok mem, w') \<Rightarrow>
              (Ok (), srv\<lparr>srv_mem := Some mem\<rparr>,
               case srv_mem srv of None \<Rightarrow> w' | Some old \<Rightarrow> fold (drop_region V) old w')) = (r, srv', w')"
      and live: "live w = B + mappings_of (srv_mem srv)"
    obtain x w1 where x: "map_regions V regions fds w = (x, w1)" by fastforce
    have w1: "live w1 = live w + (case x of Ok mem \<Rightarrow> mset (map region_mapping mem) | _ \<Rightarrow> {#})"
      using x map_loop_live [OF assms, of "zip regions fds" "[]" w x w1 "live w"]
      by (auto simp: map_regions_def split: if_splits)
    have drop: "live (case srv_mem srv of None \<Rightarrow> w1 | Some old \<Rightarrow> fold (drop_region V) old w1) = B + M"
      if "live w1 = B + M + mappings_of (srv_mem srv)" for M
      using that drop_regions_live [OF assms(1), of w1 "B + M"]
      by (cases "srv_mem srv") (auto simp: mappings_of_def)
    show "live w' = B + mappings_of (srv_mem srv')"
    proof (cases "length regions = length fds")
      case True
      then show ?thesis
        using eq x w1 live drop
        by (cases x) (auto simp: mappings_of_def ac_simps)
    qed (use eq live in auto)
  qed
qed

lemma keeps_mappings_request:
  assumes "map_accounting H V live" and "page_size V \<noteq> 0"
  shows "keeps_mappings live (handle_request H V r payload fds)"
  unfolding handle_request_def
  by (cases r; simp only: request.case; (rule balanced_map assms)+)

text \<open>
  C11. Mappings of guest memory are balanced: after any sequence of control messages to a new
  server, of whatever content and whether they succeed or not, the process has the mappings it
  had before and those of the current memory table, each once. So a table that is replaced is
  unmapped, and so is the mapped part of a table that cannot be mapped in full.
\<close>

theorem mappings_are_balanced:
  assumes "map_accounting H V live" and "page_size V \<noteq> 0"
    and "handle_requests H V ms (server_new c s, w) = (r, srv', w')"
  shows "live w' = live w + mappings_of (srv_mem srv')"
proof -
  have "handle_requests H V ms (srv, w) = (r, srv', w') \<Longrightarrow> live w = B + mappings_of (srv_mem srv) \<Longrightarrow>
      live w' = B + mappings_of (srv_mem srv')" for srv w B
  proof (induction ms arbitrary: srv w)
    case (Cons m ms)
    obtain req payload fds where m: "m = (req, payload, fds)" by (metis surj_pair)
    obtain x srv1 w1 where x: "handle_request H V req payload fds (srv, w) = (x, srv1, w1)" by (metis surj_pair)
    have "live w1 = B + mappings_of (srv_mem srv1)"
      using keeps_mappings_request [OF assms(1,2)] x Cons.prems(2) unfolding keeps_mappings_def by blast
    with Cons x m show ?case by (cases x) auto
  qed simp
  from this [OF assms(3), of "live w"] show ?thesis by (simp add: mappings_of_def)
qed

text \<open>A host that counts mappings beside its world.\<close>

definition counting_vmm :: "(mem_world \<times> mapping_id multiset) vmm" where
  "counting_vmm =
     \<lparr>page_size = 4096,
      sys_mmap = (\<lambda>d n off (w, m). if d = 0 then (Inl 9, w, m)
         else (Inr (unat d, unat off), w, add_mset ((unat d, unat off), n) m)),
      sys_munmap = (\<lambda>p n (w, m). (w, m - {#(p, n)#})),
      sys_recv_with_fd = (\<lambda>n k. beside (mem_recv n k)),
      sys_send_with_fd = (\<lambda>b fds. beside (mem_send b fds)),
      sys_read = (\<lambda>d n x. (Inr [], x)),
      sys_write = (\<lambda>d b x. (Inr (length b), x)),
      sys_poll = (\<lambda>ds x. (Inr (map (\<lambda>_. POLLIN) ds), x))\<rparr>"

lemma counting_vmm_accounting: "map_accounting (host_beside mem_host) counting_vmm snd"
  by (auto simp: map_accounting_def counting_vmm_def host_beside_def beside_def split: if_splits prod.splits)

definition table_message :: "fd list \<Rightarrow> request \<times> bytes \<times> fd list" where
  "table_message fds = (SetMemTable, memory_regions_to_bytes
     (map (\<lambda>d. \<lparr>guest_phys_addr = 0, memory_size = 4096, userspace_addr = 0, mmap_offset = 0\<rparr>) fds), fds)"

theorem mappings_are_balanced_witness:
  "\<exists>srv' w'. handle_requests (host_beside mem_host) counting_vmm [table_message [5, 6], table_message [7], table_message [8, 0]]
       (server_new 9 (session_new mem_fs), mem_world1, {#}) = (Err (Io (OsError 9)), srv', w') \<and>
     snd w' = {#((7, 0), 4096)#}"
proof -
  have table: "memory_regions_from_bytes (memory_regions_to_bytes rs) = Ok rs" if "length rs < 3" for rs
    using memory_regions_round_trip [of rs "[]"] that by simp
  obtain srv' w' where run: "handle_requests (host_beside mem_host) counting_vmm
       [table_message [5, 6], table_message [7], table_message [8, 0]]
       (server_new 9 (session_new mem_fs), mem_world1, {#}) = (Err (Io (OsError 9)), srv', w')"
      "map_option (map region_mapping) (srv_mem srv') = Some [((7, 0), 4096)]"
    by (simp add: table_message_def handle_request_def ctl_set_mem_table_def ctl_try_def table map_regions_def
        map_one_def counting_vmm_def Let_def region_mapping_def ptr_add_def drop_region_def)
  then have "snd w' = mappings_of (srv_mem srv')"
    using mappings_are_balanced [OF counting_vmm_accounting _ run(1)] by (simp add: counting_vmm_def)
  with run show ?thesis by (auto simp: mappings_of_def)
qed

end
