(* ===== verification/Doorbell.thy ===== *)
theory Doorbell
  imports Mem_Host
begin

text \<open>
  The doorbell (\<open>doorbell.rs\<close>): an \<open>eventfd\<close> on Linux and a pipe elsewhere, with
  non-blocking ends. Ringing it is a write; consuming it reads until nothing is left. The calls
  that create it are a parameter record of their own; reading and writing are those of
  \<open>vmm\<close>.
\<close>

section \<open>Operations\<close>

type_synonym 'a io_result = "('a, io_error) result"

record 'w bell_sys =
  bell_target :: target_os
  e_would_block :: i32
  efd_cloexec :: i32
  efd_nonblock :: i32
  o_nonblock :: i32
  fd_cloexec :: i32
  sys_eventfd :: "u32 \<Rightarrow> i32 \<Rightarrow> 'w \<Rightarrow> fd sysret \<times> 'w"
  sys_pipe :: "'w \<Rightarrow> (fd \<times> fd) sysret \<times> 'w"
  sys_getfl :: "fd \<Rightarrow> 'w \<Rightarrow> i32 \<times> 'w"
  sys_setfl :: "fd \<Rightarrow> i32 \<Rightarrow> 'w \<Rightarrow> 'w"
  sys_setfd :: "fd \<Rightarrow> i32 \<Rightarrow> 'w \<Rightarrow> 'w"

datatype doorbell = EventFd fd | SelfPipe fd fd

text \<open>The results of \<open>fcntl\<close> are not looked at; a failed \<open>F_GETFL\<close> is the value -1.\<close>

definition bell_configure :: "'w bell_sys \<Rightarrow> fd \<Rightarrow> 'w \<Rightarrow> 'w" where
  "bell_configure B d w =
     (case sys_getfl B d w of (flags, w1) \<Rightarrow>
        sys_setfd B d (fd_cloexec B) (sys_setfl B d (flags OR o_nonblock B) w1))"

definition doorbell_new :: "'w bell_sys \<Rightarrow> 'w \<Rightarrow> doorbell io_result \<times> 'w" where
  "doorbell_new B w =
     (if bell_target B = Linux
      then case sys_eventfd B 0 (efd_cloexec B OR efd_nonblock B) w of
             (Inl e, w1) \<Rightarrow> (Err (OsError e), w1)
           | (Inr d, w1) \<Rightarrow> (Ok (EventFd d), w1)
      else case sys_pipe B w of
             (Inl e, w1) \<Rightarrow> (Err (OsError e), w1)
           | (Inr (r, wr), w1) \<Rightarrow> (Ok (SelfPipe r wr), fold (bell_configure B) [r, wr] w1))"

primrec doorbell_read_fd :: "doorbell \<Rightarrow> fd" where
  "doorbell_read_fd (EventFd d) = d"
| "doorbell_read_fd (SelfPipe r wr) = r"

primrec doorbell_notify :: "'w vmm \<Rightarrow> doorbell \<Rightarrow> 'w \<Rightarrow> unit io_result \<times> 'w" where
  "doorbell_notify V (EventFd d) w =
     (case sys_write V d (le64 1) w of (Inl e, w1) \<Rightarrow> (Err (OsError e), w1) | (Inr _, w1) \<Rightarrow> (Ok (), w1))"
| "doorbell_notify V (SelfPipe r wr) w =
     (case sys_write V wr [1] w of (Inl e, w1) \<Rightarrow> (Err (OsError e), w1) | (Inr _, w1) \<Rightarrow> (Ok (), w1))"

text \<open>
  The loop of \<open>consume\<close> goes on while the buffer of 256 bytes was filled, so it is given fuel.
\<close>

fun consume_loop :: "nat \<Rightarrow> 'w bell_sys \<Rightarrow> 'w vmm \<Rightarrow> fd \<Rightarrow> bool \<Rightarrow> 'w \<Rightarrow> (bool io_result \<times> 'w) option" where
  "consume_loop 0 B V d any w = None"
| "consume_loop (Suc n) B V d any w =
     (case sys_read V d 256 w of
        (Inl e, w1) \<Rightarrow> Some (if e = e_would_block B then Ok any else Err (OsError e), w1)
      | (Inr b, w1) \<Rightarrow>
          if 0 < length b
          then if length b = 256 then consume_loop n B V d True w1 else Some (Ok True, w1)
          else Some (Ok any, w1))"

definition doorbell_consume ::
  "nat \<Rightarrow> 'w bell_sys \<Rightarrow> 'w vmm \<Rightarrow> doorbell \<Rightarrow> 'w \<Rightarrow> (bool io_result \<times> 'w) option" where
  "doorbell_consume fuel B V bell w = consume_loop fuel B V (doorbell_read_fd bell) False w"

section \<open>Ringing and consuming\<close>

text \<open>
  The documented behaviour of the two kinds of descriptors. In a world in which the bell is
  open, \<open>pending\<close> is the counter of the \<open>eventfd\<close> or the number of bytes in the pipe. A
  successful write of eight bytes adds the value they hold to the counter; a successful write of
  a non-empty buffer puts at least one of its bytes into the pipe. A read with nothing pending
  would block; otherwise it takes something, and if it does not fill the buffer, it takes all
  there is.
\<close>

primrec bell_write_law :: "'w vmm \<Rightarrow> ('w \<Rightarrow> nat option) \<Rightarrow> doorbell \<Rightarrow> bool" where
  "bell_write_law V pending (EventFd d) \<longleftrightarrow>
     (\<forall>v w k n w1. pending w = Some k \<longrightarrow> sys_write V d (le64 v) w = (Inr n, w1) \<longrightarrow>
        pending w1 = Some (k + unat v))"
| "bell_write_law V pending (SelfPipe r wr) \<longleftrightarrow>
     (\<forall>b w k n w1. pending w = Some k \<longrightarrow> b \<noteq> [] \<longrightarrow> sys_write V wr b w = (Inr n, w1) \<longrightarrow>
        0 < n \<and> n \<le> length b \<and> pending w1 = Some (k + n))"

definition bell_law :: "'w bell_sys \<Rightarrow> 'w vmm \<Rightarrow> doorbell \<Rightarrow> ('w \<Rightarrow> nat option) \<Rightarrow> bool" where
  "bell_law B V bell pending \<longleftrightarrow>
     bell_write_law V pending bell \<and>
     (\<forall>w. pending w = Some 0 \<longrightarrow>
        (\<exists>w1. sys_read V (doorbell_read_fd bell) 256 w = (Inl (e_would_block B), w1) \<and> pending w1 = Some 0)) \<and>
     (\<forall>w k. pending w = Some k \<longrightarrow> 0 < k \<longrightarrow>
        (\<exists>b w1 k1. sys_read V (doorbell_read_fd bell) 256 w = (Inr b, w1) \<and> b \<noteq> [] \<and>
           pending w1 = Some k1 \<and> k1 < k \<and> (length b \<noteq> 256 \<longrightarrow> k1 = 0)))"

text \<open>The bell rung a number of times, each ring successful.\<close>

primrec rung :: "'w vmm \<Rightarrow> doorbell \<Rightarrow> nat \<Rightarrow> 'w \<Rightarrow> 'w \<Rightarrow> bool" where
  "rung V bell 0 w w1 \<longleftrightarrow> w1 = w"
| "rung V bell (Suc n) w w1 \<longleftrightarrow> (case doorbell_notify V bell w of (r, w') \<Rightarrow> r = Ok () \<and> rung V bell n w' w1)"

lemma notify_adds_one:
  assumes "bell_law B V bell pending" and "pending w = Some k" and "doorbell_notify V bell w = (Ok (), w1)"
  shows "pending w1 = Some (Suc k)"
proof (cases bell)
  case (EventFd d)
  obtain x where x: "sys_write V d (le64 1) w = (x, w1)" "\<exists>n. x = Inr n"
    using assms(3) by (auto simp: EventFd split: prod.splits sum.splits)
  moreover have "\<forall>v w k n w1. pending w = Some k \<longrightarrow> sys_write V d (le64 v) w = (Inr n, w1) \<longrightarrow>
      pending w1 = Some (k + unat v)"
    using assms(1) by (simp add: bell_law_def EventFd)
  ultimately have "pending w1 = Some (k + unat (1 :: u64))" using assms(2) by blast
  then show ?thesis by simp
next
  case (SelfPipe r wr)
  obtain n where n: "sys_write V wr [1] w = (Inr n, w1)"
    using assms(3) by (auto simp: SelfPipe split: prod.splits sum.splits)
  moreover have "\<forall>b w k n w1. pending w = Some k \<longrightarrow> b \<noteq> [] \<longrightarrow> sys_write V wr b w = (Inr n, w1) \<longrightarrow>
      0 < n \<and> n \<le> length b \<and> pending w1 = Some (k + n)"
    using assms(1) by (simp add: bell_law_def SelfPipe)
  ultimately have "0 < n \<and> n \<le> length [1 :: u8] \<and> pending w1 = Some (k + n)" using assms(2) by blast
  then show ?thesis by (cases n) auto
qed

lemma rung_adds:
  assumes "bell_law B V bell pending" and "pending w = Some k" and "rung V bell n w w1"
  shows "pending w1 = Some (k + n)"
  using assms(2,3)
proof (induction n arbitrary: k w)
  case (Suc n)
  then obtain w' where "doorbell_notify V bell w = (Ok (), w')" "rung V bell n w' w1"
    by (auto split: prod.splits)
  with Suc.IH [of w' "Suc k"] notify_adds_one [OF assms(1) Suc.prems(1)] show ?case by simp
qed simp

lemma consume_loop_drains:
  assumes "bell_law B V bell pending" and "pending w = Some k" and "k < fuel"
  shows "\<exists>w1. consume_loop fuel B V (doorbell_read_fd bell) any w = Some (Ok (any \<or> 0 < k), w1) \<and>
     pending w1 = Some 0"
  using assms(2,3)
proof (induction k arbitrary: fuel any w rule: less_induct)
  case (less k)
  obtain n where n: "fuel = Suc n" using less.prems(2) by (cases fuel) auto
  show ?case
  proof (cases "k = 0")
    case True
    then obtain w1 where "sys_read V (doorbell_read_fd bell) 256 w = (Inl (e_would_block B), w1)" "pending w1 = Some 0"
      using assms(1) less.prems(1) unfolding bell_law_def by blast
    with True n show ?thesis by simp
  next
    case False
    then obtain b w1 k1 where b: "sys_read V (doorbell_read_fd bell) 256 w = (Inr b, w1)" "b \<noteq> []"
        "pending w1 = Some k1" "k1 < k" "length b \<noteq> 256 \<longrightarrow> k1 = 0"
      using assms(1) less.prems(1) unfolding bell_law_def by blast
    show ?thesis
    proof (cases "length b = 256")
      case True
      from less.IH [OF b(4,3), of n True] less.prems(2) b(4) n
      obtain w2 where "consume_loop n B V (doorbell_read_fd bell) True w1 = Some (Ok True, w2)" "pending w2 = Some 0"
        by auto
      with True False b n show ?thesis by auto
    qed (use False b n in auto)
  qed
qed

text \<open>
  C28. A doorbell is heard exactly once, however often it was rung: after one or more successful
  calls of \<open>notify\<close> on a bell with \<open>k\<close> notifications pending, \<open>consume\<close> returns true, and
  the next \<open>consume\<close> returns false; on a bell that was not rung and has nothing pending, it
  returns false at once. As many rounds as there are notifications pending and one more are
  enough for it to return. Of the system calls, only \<open>bell_law\<close> is assumed.
\<close>

theorem doorbell_is_heard_once:
  assumes "bell_law B V bell pending" and "pending w = Some k" and "rung V bell n w w1" and "k + n < fuel"
  shows "\<exists>w2 w3. doorbell_consume fuel B V bell w1 = Some (Ok (0 < k + n), w2) \<and>
     doorbell_consume fuel B V bell w2 = Some (Ok False, w3)"
proof -
  obtain w2 where w2: "doorbell_consume fuel B V bell w1 = Some (Ok (0 < k + n), w2)" "pending w2 = Some 0"
    using consume_loop_drains [OF assms(1) rung_adds [OF assms(1-3)] assms(4), of False]
    by (auto simp: doorbell_consume_def)
  moreover obtain w3 where "doorbell_consume fuel B V bell w2 = Some (Ok False, w3)"
    using consume_loop_drains [OF assms(1) w2(2), of fuel False] assms(4)
    by (auto simp: doorbell_consume_def)
  ultimately show ?thesis by blast
qed

text \<open>
  An \<open>eventfd\<close> as a counter, rung twice, and a pipe of 65536 bytes, rung so often that one
  read does not empty it.
\<close>

definition bell_vmm ::
  "(nat \<Rightarrow> 'w \<Rightarrow> bytes sysret \<times> 'w) \<Rightarrow> (bytes \<Rightarrow> 'w \<Rightarrow> nat sysret \<times> 'w) \<Rightarrow> 'w vmm" where
  "bell_vmm rd wr =
     \<lparr>page_size = 4096, sys_mmap = (\<lambda>d n off w. (Inl 19, w)), sys_munmap = (\<lambda>p n w. w),
      sys_recv_with_fd = (\<lambda>n m w. (Inl 88, w)), sys_send_with_fd = (\<lambda>b fds w. (Inl 88, w)),
      sys_read = (\<lambda>d. rd), sys_write = (\<lambda>d. wr),
      sys_poll = (\<lambda>ds w. (Inr (map (\<lambda>_. 0) ds), w))\<rparr>"

definition counter_vmm :: "u64 vmm" where
  "counter_vmm = bell_vmm (\<lambda>n w. if w = 0 then (Inl 11, 0) else (Inr (le64 w), 0))
     (\<lambda>b w. if length b \<noteq> 8 then (Inl 22, w)
        else if 0xfffffffffffffffe < unat w + unat (from_le b :: u64) then (Inl 11, w) else (Inr 8, w + from_le b))"

definition pipe_vmm :: "nat vmm" where
  "pipe_vmm = bell_vmm (\<lambda>n w. if w = 0 then (Inl 11, 0) else (Inr (replicate (min n w) 1), w - min n w))
     (\<lambda>b w. if 65536 \<le> w then (Inl 11, w) else (Inr (min (length b) (65536 - w)), w + min (length b) (65536 - w)))"

definition counter_sys :: "target_os \<Rightarrow> 'w bell_sys" where
  "counter_sys t =
     \<lparr>bell_target = t, e_would_block = 11, efd_cloexec = 0x80000, efd_nonblock = 0x800,
      o_nonblock = 0x800, fd_cloexec = 1, sys_eventfd = (\<lambda>v fl w. (Inr 5, w)),
      sys_pipe = (\<lambda>w. (Inr (5, 6), w)), sys_getfl = (\<lambda>d w. (0, w)), sys_setfl = (\<lambda>d fl w. w),
      sys_setfd = (\<lambda>d fl w. w)\<rparr>"

lemma counter_bell_law: "bell_law (counter_sys Linux) counter_vmm (EventFd 5) (Some \<circ> unat)"
  by (auto simp: bell_law_def counter_vmm_def bell_vmm_def counter_sys_def unat_gt_0 unat_word_ariths split: if_splits)

lemma pipe_bell_law: "bell_law (counter_sys Macos) pipe_vmm (SelfPipe 5 6) Some"
  by (auto simp: bell_law_def pipe_vmm_def bell_vmm_def counter_sys_def min_def split: if_splits)

lemma pipe_rung: "w + n \<le> 65536 \<Longrightarrow> rung pipe_vmm (SelfPipe 5 6) n w (w + n)"
proof (induction n arbitrary: w)
  case (Suc n)
  then have "doorbell_notify pipe_vmm (SelfPipe 5 6) w = (Ok (), Suc w)"
    by (simp add: pipe_vmm_def bell_vmm_def)
  with Suc.IH [of "Suc w"] Suc.prems show ?case by simp
qed simp

theorem doorbell_is_heard_once_witness:
  "(\<exists>w2 w3. doorbell_consume 3 (counter_sys Linux) counter_vmm (EventFd 5) 2 = Some (Ok True, w2) \<and>
      doorbell_consume 3 (counter_sys Linux) counter_vmm (EventFd 5) w2 = Some (Ok False, w3)) \<and>
   (\<exists>w2 w3. doorbell_consume 301 (counter_sys Macos) pipe_vmm (SelfPipe 5 6) 300 = Some (Ok True, w2) \<and>
      doorbell_consume 301 (counter_sys Macos) pipe_vmm (SelfPipe 5 6) w2 = Some (Ok False, w3))"
proof
  have "rung counter_vmm (EventFd 5) (Suc (Suc 0)) 0 2"
    by (simp add: counter_vmm_def bell_vmm_def)
  with doorbell_is_heard_once [OF counter_bell_law, of 0 0 "Suc (Suc 0)" 2 3]
  show "\<exists>w2 w3. doorbell_consume 3 (counter_sys Linux) counter_vmm (EventFd 5) 2 = Some (Ok True, w2) \<and>
      doorbell_consume 3 (counter_sys Linux) counter_vmm (EventFd 5) w2 = Some (Ok False, w3)"
    by simp
  show "\<exists>w2 w3. doorbell_consume 301 (counter_sys Macos) pipe_vmm (SelfPipe 5 6) 300 = Some (Ok True, w2) \<and>
      doorbell_consume 301 (counter_sys Macos) pipe_vmm (SelfPipe 5 6) w2 = Some (Ok False, w3)"
    using doorbell_is_heard_once [OF pipe_bell_law, of 0 0 300 300 301] pipe_rung [of 0 300] by simp
qed

end
