(* ===== verification/Daemon.thy ===== *)
theory Daemon
  imports Server_Safety Mem_Host
begin

text \<open>
  The daemon (\<open>riftlessfsd/src/main.rs\<close>) and the loop of \<open>Server::run\<close>: open the shared
  directory, listen, accept one front-end, serve it until it goes away, exit. The command line
  is already parsed: the shared directory and the socket path are arguments. What is printed and
  logged is left out.
\<close>

section \<open>Running the server\<close>

text \<open>
  Between two turns the guest may write what it likes to shared memory: \<open>guest k\<close> is what it
  does before the turn with \<open>k\<close> turns to go. The loop ends only when a turn stops it, so the
  number of turns is bounded by fuel, and running out is \<open>None\<close>.
\<close>

fun server_run ::
  "nat \<Rightarrow> nat \<Rightarrow> 'w host \<Rightarrow> 'w vmm \<Rightarrow> (nat \<Rightarrow> heap \<Rightarrow> heap) \<Rightarrow> 'w srv_state
   \<Rightarrow> (unit proto_result \<times> 'w srv_state) option" where
  "server_run 0 fuel H V guest \<sigma> = None"
| "server_run (Suc k) fuel H V guest (srv, h, w) =
     (case server_turn fuel H V (srv, guest k h, w) of
        None \<Rightarrow> None
      | Some (Continue, \<sigma>') \<Rightarrow> server_run k fuel H V guest \<sigma>'
      | Some (Stop r, \<sigma>') \<Rightarrow> Some (r, \<sigma>'))"

section \<open>The program\<close>

text \<open>What the program uses of the standard library's socket listener.\<close>

record 'w listener_sys =
  sys_remove_file :: "bytes \<Rightarrow> 'w \<Rightarrow> 'w"
  sys_bind :: "bytes \<Rightarrow> 'w \<Rightarrow> fd sysret \<times> 'w"
  sys_accept :: "fd \<Rightarrow> 'w \<Rightarrow> fd sysret \<times> 'w"

text \<open>\<open>cfg!(unix)\<close>: all targets of the model are.\<close>

definition PASSTHROUGH_SUPPORTED :: bool where "PASSTHROUGH_SUPPORTED = True"

definition connection_accept :: "'w listener_sys \<Rightarrow> fd \<Rightarrow> 'w \<Rightarrow> (fd, io_error) result \<times> 'w" where
  "connection_accept L listener w =
     (case sys_accept L listener w of
        (Inl e, w1) \<Rightarrow> (Err (OsError e), w1)
      | (Inr conn, w1) \<Rightarrow> (Ok conn, w1))"

text \<open>How the process ends: with an exit code, or aborted by a panic.\<close>

datatype outcome = Exited nat | Panicked

definition daemon_main ::
  "nat \<Rightarrow> nat \<Rightarrow> 'w host \<Rightarrow> 'w vmm \<Rightarrow> 'w listener_sys \<Rightarrow> (nat \<Rightarrow> heap \<Rightarrow> heap) \<Rightarrow> bytes \<Rightarrow> bytes
   \<Rightarrow> heap \<times> 'w \<Rightarrow> (outcome \<times> 'w) option" where
  "daemon_main turns fuel H V L guest shared_dir socket_path = (\<lambda>(h, w).
     if \<not> PASSTHROUGH_SUPPORTED then Some (Exited 1, w)
     else case passthrough_new H shared_dir w of
       (Err e, w1) \<Rightarrow> Some (Exited 1, w1)
     | (Panic, w1) \<Rightarrow> Some (Panicked, w1)
     | (Ok fs, w1) \<Rightarrow>
         (case sys_bind L socket_path (sys_remove_file L socket_path w1) of
            (Inl e, w2) \<Rightarrow> Some (Exited 1, w2)
          | (Inr listener, w2) \<Rightarrow>
              (case connection_accept L listener w2 of
                 (Err e, w3) \<Rightarrow> Some (Exited 1, w3)
               | (Panic, w3) \<Rightarrow> Some (Panicked, w3)
               | (Ok conn, w3) \<Rightarrow>
                   (case server_run turns fuel H V guest (server_new conn (session_new fs), h, w3) of
                      None \<Rightarrow> None
                    | Some (Ok _, _, _, w4) \<Rightarrow> Some (Exited 0, w4)
                    | Some (Err e, _, _, w4) \<Rightarrow> Some (Exited 1, w4)
                    | Some (Panic, _, _, w4) \<Rightarrow> Some (Panicked, w4)))))"

section \<open>How it ends\<close>

lemma server_run_reach:
  assumes "server_run m fuel H V guest \<sigma> = Some (r, \<sigma>')" and "server_reach fuel H V srv0 k \<sigma>"
  shows "\<exists>j \<sigma>1. j < m \<and> server_reach fuel H V srv0 (k + j) \<sigma>1 \<and> server_turn fuel H V \<sigma>1 = Some (Stop r, \<sigma>')"
  using assms
proof (induction m arbitrary: k \<sigma>)
  case (Suc m)
  obtain srv h w where \<sigma>: "\<sigma> = (srv, h, w)" by (metis surj_pair)
  have env: "server_reach fuel H V srv0 k (srv, guest m h, w)"
    using Suc.prems(2) unfolding \<sigma> by (rule reach_env)
  obtain t \<sigma>1 where t: "server_turn fuel H V (srv, guest m h, w) = Some (t, \<sigma>1)"
    using Suc.prems(1) by (auto simp: \<sigma> split: option.splits)
  show ?case
  proof (cases t)
    case Continue
    then have "server_run m fuel H V guest \<sigma>1 = Some (r, \<sigma>')"
      using Suc.prems(1) t by (simp add: \<sigma>)
    from Suc.IH [OF this reach_turn [OF env]] t Continue show ?thesis
      by (metis Suc_less_eq add_Suc_shift)
  next
    case (Stop r')
    then have "r' = r" "\<sigma>1 = \<sigma>'" using Suc.prems(1) t by (simp_all add: \<sigma>)
    with Stop t env show ?thesis by (intro exI [of _ 0] exI [of _ "(srv, guest m h, w)"]) simp
  qed
qed simp

lemma server_run_no_panic:
  assumes "sane_front_end V" and "server_ok n srv0" and "n + 4 * fuel * turns < 2 ^ 64 - 1"
    and "server_run turns fuel H V guest (srv0, h, w) = Some (r, \<sigma>')"
  shows "r \<noteq> Panic"
proof -
  obtain j \<sigma>1 where j: "j < turns" "server_reach fuel H V srv0 j \<sigma>1" "server_turn fuel H V \<sigma>1 = Some (Stop r, \<sigma>')"
    using server_run_reach [OF assms(4) reach_start] by auto
  have "4 * fuel * j + 4 * fuel \<le> 4 * fuel * turns"
    using j(1) by (metis Suc_leI add.commute mult_Suc_right mult_le_mono2)
  then have b: "n + 4 * fuel * j + 4 * fuel < 2 ^ 64 - 1" using assms(3) by linarith
  obtain srv h1 w1 where \<sigma>1: "\<sigma>1 = (srv, h1, w1)" by (metis surj_pair)
  obtain srv' h' w' where \<sigma>': "\<sigma>' = (srv', h', w')" by (metis surj_pair)
  have "server_ok (n + 4 * fuel * j) srv"
    using server_reach_ok [OF j(2) assms(1,2)] b by (simp add: \<sigma>1)
  from server_turn_safe [OF assms(1) this b j(3) [unfolded \<sigma>1 \<sigma>']] show ?thesis
    by auto
qed

text \<open>
  C27. Where the program ends, it ends with an exit code and not with a panic: it exits with 0
  exactly when the shared directory could be opened, the socket bound and a front-end accepted, and
  the event loop then ended without an error, that is, when the front-end went away; in every
  other case in which it ends, it exits with 1. The hypotheses are those of the event loop: the
  front-end announces no queue size whose low 16 bits are 0, the page size is not 0, and there
  are no more turns than there are ids for. Allocations are taken to succeed: the model has no
  outcome for one that fails, which makes the process abort, so this is a statement about panics
  and exit codes only.
\<close>

theorem daemon_ends_with_a_status:
  assumes "sane_front_end V" and "2 + 4 * fuel * turns < 2 ^ 64 - 1"
    and "daemon_main turns fuel H V L guest dir sock (h, w) = Some (x, w')"
  shows "(x = Exited 0 \<or> x = Exited 1) \<and>
     (x = Exited 0 \<longleftrightarrow> (\<exists>fs w1 l w2 c w3 \<sigma>. passthrough_new H dir w = (Ok fs, w1) \<and>
        sys_bind L sock (sys_remove_file L sock w1) = (Inr l, w2) \<and> sys_accept L l w2 = (Inr c, w3) \<and>
        server_run turns fuel H V guest (server_new c (session_new fs), h, w3) = Some (Ok (), \<sigma>)))"
proof -
  have run: "server_run turns fuel H V guest (server_new c (session_new fs), h, w3) \<noteq> Some (Panic, \<sigma>)"
    if "passthrough_new H dir w = (Ok fs, w1)" for fs w1 c w3 \<sigma>
    using server_run_no_panic [OF assms(1) server_ok_new [OF passthrough_ok_new [OF that]] assms(2)] by blast
  show ?thesis
  proof (cases "passthrough_new H dir w")
    case (Pair r w1)
    show ?thesis
    proof (cases r)
      case (Ok fs)
      with Pair run assms(3) show ?thesis
        by (auto simp: daemon_main_def PASSTHROUGH_SUPPORTED_def connection_accept_def
            split: prod.splits sum.splits option.splits result.splits)
    next
      case (Err e)
      with Pair assms(3) show ?thesis by (auto simp: daemon_main_def PASSTHROUGH_SUPPORTED_def)
    next
      case Panic
      with Pair show ?thesis by (auto simp: passthrough_new_def split: if_splits prod.splits sum.splits)
    qed
  qed
qed

text \<open>A front-end that connects and hangs up.\<close>

definition hangup_vmm :: "mem_world vmm" where
  "hangup_vmm = asking_vmm\<lparr>sys_poll := (\<lambda>ds w. (Inr (map (\<lambda>_. POLLHUP) ds), w))\<rparr>"

definition mem_listener :: "mem_world listener_sys" where
  "mem_listener = \<lparr>sys_remove_file = (\<lambda>path w. w), sys_bind = (\<lambda>path. mem_new_fd), sys_accept = (\<lambda>d. mem_new_fd)\<rparr>"

lemma hangup_vmm_recv:
  "connection_recv hangup_vmm w = (Ok (\<lparr>mh_request = 1, mh_flags = 0, mh_size = 0\<rparr>, [], []), w)"
  by (simp add: connection_recv_def recv_exact.simps HEADER_LEN_def upt_rec hangup_vmm_def
      msg_header_from_bytes_def word_at_def slice_of_def numeral_eq_Suc Let_def)

lemma hangup_vmm_sane: "sane_front_end hangup_vmm"
  by (auto simp: sane_front_end_def hangup_vmm_recv msg_header_request_def request_try_from_def sane_message_def)
    (simp add: hangup_vmm_def)

theorem daemon_ends_with_a_status_witness:
  "\<exists>w'. daemon_main 1 1 mem_host hangup_vmm mem_listener (\<lambda>_ h. h) [115] [116] (\<lambda>_. 0, mem_world0) = Some (Exited 0, w')"
proof -
  have turn: "server_turn 1 mem_host hangup_vmm (server_new c s, h, w) = Some (Stop (Ok ()), server_new c s, h, w)"
    for c s h w
    by (simp add: server_turn_def Let_def hangup_vmm_def turn_polled_def POLLIN_def POLLHUP_def POLLERR_def)
  then have run: "server_run 1 1 mem_host hangup_vmm (\<lambda>_ h. h) (server_new c s, h, w) = Some (Ok (), server_new c s, h, w)"
    for c s h w
    by simp
  then obtain x w' where main: "daemon_main 1 1 mem_host hangup_vmm mem_listener (\<lambda>_ h. h) [115] [116] (\<lambda>_. 0, mem_world0) =
      Some (x, w')"
    by (simp add: daemon_main_def PASSTHROUGH_SUPPORTED_def mem_passthrough_new mem_listener_def connection_accept_def
        mem_new_fd_def del: server_run.simps)
  have "x = Exited 0"
    using daemon_ends_with_a_status [OF hangup_vmm_sane _ main] mem_passthrough_new run
    by (simp add: mem_listener_def mem_new_fd_def del: server_run.simps)
  with main show ?thesis by simp
qed

end
