(* ===== verification/Control_Loop.thy ===== *)
theory Control_Loop
  imports Control_Properties Daemon
begin

text \<open>
  The event loop as an interpreter of control commands: an abstract machine with one step per
  command, and the refinement of it by \<open>Server::run\<close> reading messages from the socket.
\<close>

section \<open>Commands\<close>

text \<open>The commands that carry no descriptor, and what each does to the server and answers.\<close>

datatype command =
    AskFeatures | AskProtocolFeatures | AskQueueNum | AskBase u32 u32
  | AckFeatures u64 | AckProtocolFeatures u64 | Own
  | Num u32 u32 | Base u32 u32 | Addr vring_addr | Enable u32 u32

fun command_request :: "command \<Rightarrow> request" where
  "command_request AskFeatures = GetFeatures"
| "command_request AskProtocolFeatures = GetProtocolFeatures"
| "command_request AskQueueNum = GetQueueNum"
| "command_request (AskBase i n) = GetVringBase"
| "command_request (AckFeatures v) = SetFeatures"
| "command_request (AckProtocolFeatures v) = SetProtocolFeatures"
| "command_request Own = SetOwner"
| "command_request (Num i n) = SetVringNum"
| "command_request (Base i n) = SetVringBase"
| "command_request (Addr a) = SetVringAddr"
| "command_request (Enable i n) = SetVringEnable"

fun command_payload :: "command \<Rightarrow> bytes" where
  "command_payload (AskBase i n) = vring_state_to_bytes \<lparr>vs_index = i, vs_num = n\<rparr>"
| "command_payload (AckFeatures v) = u64_payload_to_bytes v"
| "command_payload (AckProtocolFeatures v) = u64_payload_to_bytes v"
| "command_payload (Num i n) = vring_state_to_bytes \<lparr>vs_index = i, vs_num = n\<rparr>"
| "command_payload (Base i n) = vring_state_to_bytes \<lparr>vs_index = i, vs_num = n\<rparr>"
| "command_payload (Addr a) = vring_addr_to_bytes a"
| "command_payload (Enable i n) = vring_state_to_bytes \<lparr>vs_index = i, vs_num = n\<rparr>"
| "command_payload _ = []"

text \<open>
  The state of the abstract machine: for each vring the announced size, the announced base, the
  queue, if one has been built, and whether it is enabled.
\<close>

record ring =
  ring_size :: "u16 option"
  ring_base :: u16
  ring_queue :: "virtqueue option"
  ring_on :: bool

definition ring_of :: "vring_slot \<Rightarrow> ring" where
  "ring_of s = \<lparr>ring_size = slot_queue_size s, ring_base = slot_pending_avail_base s,
     ring_queue = slot_vq s, ring_on = slot_enabled s\<rparr>"

definition rings :: "server \<Rightarrow> ring list" where
  "rings srv = map ring_of (srv_vrings srv)"

text \<open>What commands leave alone: the connection, the memory, the session and the descriptors.\<close>

definition unsaid :: "server \<Rightarrow> fd \<times> guest_memory option \<times> session \<times> (fd option \<times> fd option) list" where
  "unsaid srv = (srv_conn srv, srv_mem srv, srv_session srv, map (\<lambda>s. (slot_kick_fd s, slot_call_fd s)) (srv_vrings srv))"

text \<open>
  A command to a vring that does not exist does nothing. A base is kept for the queue to come
  and moves the queue that is there; addresses build a queue of the announced size that starts
  at the announced base, and are dropped if no size has been announced.
\<close>

fun apply_command :: "command \<Rightarrow> ring list \<Rightarrow> ring list" where
  "apply_command (Num i n) rs = rs[unat i := (rs ! unat i)\<lparr>ring_size := Some (ucast n)\<rparr>]"
| "apply_command (Base i n) rs = rs[unat i := (rs ! unat i)\<lparr>ring_base := ucast n,
     ring_queue := (case ring_queue (rs ! unat i) of
        None \<Rightarrow> None | Some q \<Rightarrow> Some (q\<lparr>vq_last_avail_idx := ucast n\<rparr>))\<rparr>]"
| "apply_command (Addr a) rs = (let r = rs ! unat (va_index a) in
     case ring_size r of
       None \<Rightarrow> rs
     | Some sz \<Rightarrow> rs[unat (va_index a) := r\<lparr>ring_queue := Some
         \<lparr>vq_desc_addr = va_descriptor a, vq_avail_addr = va_avail a, vq_used_addr = va_used a,
          vq_queue_size = sz, vq_last_avail_idx = ring_base r\<rparr>\<rparr>])"
| "apply_command (Enable i n) rs = rs[unat i := (rs ! unat i)\<lparr>ring_on := (n \<noteq> 0)\<rparr>]"
| "apply_command _ rs = rs"

definition reported_base :: "ring list \<Rightarrow> nat \<Rightarrow> u16" where
  "reported_base rs i =
     (if i < length rs then (case ring_queue (rs ! i) of None \<Rightarrow> 0 | Some q \<Rightarrow> vq_last_avail_idx q) else 0)"

fun command_answer :: "command \<Rightarrow> ring list \<Rightarrow> bytes option" where
  "command_answer AskFeatures rs = Some (u64_payload_to_bytes VIRTIO_FEATURES)"
| "command_answer AskProtocolFeatures rs = Some (u64_payload_to_bytes PROTOCOL_FEATURES)"
| "command_answer AskQueueNum rs = Some (u64_payload_to_bytes 2)"
| "command_answer (AskBase i n) rs =
     Some (vring_state_to_bytes \<lparr>vs_index = i, vs_num = ucast (reported_base rs (unat i))\<rparr>)"
| "command_answer _ rs = None"

text \<open>A command and an answer as bytes on the socket; all answers to a sequence of commands.\<close>

definition command_bytes :: "command \<Rightarrow> bytes" where
  "command_bytes c = msg_header_to_bytes (msg_header_new (command_request c) 0 (of_nat (length (command_payload c))))
     @ command_payload c"

definition answer_bytes :: "command \<Rightarrow> ring list \<Rightarrow> bytes" where
  "answer_bytes c rs =
     (case command_answer c rs of
        None \<Rightarrow> []
      | Some b \<Rightarrow> msg_header_to_bytes (msg_header_reply (command_request c) (of_nat (length b))) @ b)"

fun all_answers :: "command list \<Rightarrow> ring list \<Rightarrow> bytes" where
  "all_answers [] rs = []"
| "all_answers (c # cs) rs = answer_bytes c rs @ all_answers cs (apply_command c rs)"

section \<open>One message\<close>

text \<open>
  A front-end that only talks over the socket and closes its end once all it sent has been read.
  As long as bytes are pending, a poll reports the socket readable and not hung up; at the end of
  the stream, where it has been closed, a poll reports it readable, hung up, or both, and a
  receive is empty. No vring is kicked, a send takes at least a byte, and each call touches its own
  direction of the socket only.
\<close>

definition talking_front_end :: "'w vmm \<Rightarrow> ('w \<Rightarrow> stream) \<Rightarrow> ('w \<Rightarrow> stream) \<Rightarrow> bool" where
  "talking_front_end V pending log \<longleftrightarrow>
     stream_recv V pending \<and> stream_send V log \<and>
     (\<forall>d ds w. \<exists>ev w'. sys_poll V (d # ds) w = (Inr (ev # map (\<lambda>_. 0) ds), w') \<and>
        (if pending w = [] then ev AND (POLLIN OR POLLHUP) \<noteq> 0
         else ev AND POLLIN \<noteq> 0 \<and> ev AND (POLLHUP OR POLLERR) = 0) \<and>
        pending w' = pending w \<and> log w' = log w) \<and>
     (\<forall>n m w r w'. sys_recv_with_fd V n m w = (r, w') \<longrightarrow> log w' = log w) \<and>
     (\<forall>n m w. pending w = [] \<longrightarrow> (\<exists>fds w'. sys_recv_with_fd V n m w = (Inr ([], fds), w'))) \<and>
     (\<forall>b fds w. b \<noteq> [] \<longrightarrow> (\<exists>n w'. sys_send_with_fd V b fds w = (Inr n, w') \<and> 0 < n \<and>
        pending w' = pending w))"

lemma talkingD:
  assumes "talking_front_end V pending log"
  shows "stream_recv V pending" "stream_send V log"
    "pending w \<noteq> [] \<Longrightarrow> \<exists>ev w'. sys_poll V (d # ds) w = (Inr (ev # map (\<lambda>_. 0) ds), w') \<and>
        ev AND POLLIN \<noteq> 0 \<and> ev AND (POLLHUP OR POLLERR) = 0 \<and> pending w' = pending w \<and> log w' = log w"
    "pending w = [] \<Longrightarrow> \<exists>ev w'. sys_poll V (d # ds) w = (Inr (ev # map (\<lambda>_. 0) ds), w') \<and>
        ev AND (POLLIN OR POLLHUP) \<noteq> 0 \<and> pending w' = [] \<and> log w' = log w"
    "sys_recv_with_fd V n m w = (r, w1) \<Longrightarrow> log w1 = log w"
    "pending w = [] \<Longrightarrow> \<exists>fds w'. sys_recv_with_fd V n m w = (Inr ([], fds), w')"
    "b \<noteq> [] \<Longrightarrow> \<exists>n w'. sys_send_with_fd V b fds w = (Inr n, w') \<and> 0 < n \<and> pending w' = pending w"
proof -
  have poll: "\<exists>ev w'. sys_poll V (d # ds) w = (Inr (ev # map (\<lambda>_. 0) ds), w') \<and>
      (if pending w = [] then ev AND (POLLIN OR POLLHUP) \<noteq> 0
       else ev AND POLLIN \<noteq> 0 \<and> ev AND (POLLHUP OR POLLERR) = 0) \<and> pending w' = pending w \<and> log w' = log w"
    using assms unfolding talking_front_end_def by blast
  show "\<exists>ev w'. sys_poll V (d # ds) w = (Inr (ev # map (\<lambda>_. 0) ds), w') \<and>
      ev AND POLLIN \<noteq> 0 \<and> ev AND (POLLHUP OR POLLERR) = 0 \<and> pending w' = pending w \<and> log w' = log w"
    if "pending w \<noteq> []" using poll unfolding if_not_P [OF that] by blast
  show "\<exists>ev w'. sys_poll V (d # ds) w = (Inr (ev # map (\<lambda>_. 0) ds), w') \<and>
      ev AND (POLLIN OR POLLHUP) \<noteq> 0 \<and> pending w' = [] \<and> log w' = log w"
    if "pending w = []" using poll unfolding that simp_thms if_True by blast
qed (use assms in \<open>unfold talking_front_end_def, blast+\<close>)

lemma recv_exact_log:
  assumes "talking_front_end V pending log" and "recv_exact V want filled fds w = (r, w')"
  shows "log w' = log w"
  using assms(2)
proof (induction "want - length filled" arbitrary: filled fds w rule: less_induct)
  case less
  show ?case
  proof (cases "length filled < want")
    case True
    obtain x w1 where x: "sys_recv_with_fd V (want - length filled) MAX_FDS_PER_RECV w = (x, w1)" by fastforce
    then have "log w1 = log w" by (rule talkingD(5) [OF assms(1)])
    moreover have "log w' = log w1"
    proof (cases "\<exists>b nf. x = Inr (b, nf) \<and> b \<noteq> []")
      case True
      then obtain b nf where b: "x = Inr (b, nf)" "b \<noteq> []" by blast
      then have "recv_exact V want (filled @ b) (fds @ nf) w1 = (r, w')"
        using less.prems \<open>length filled < want\<close> x by (subst (asm) recv_exact.simps) simp
      then show ?thesis
        using less.hyps [of "filled @ b" "fds @ nf" w1] b(2) \<open>length filled < want\<close> by (simp add: diff_less_mono2)
    next
      case False
      then show ?thesis
        using less.prems \<open>length filled < want\<close> x
        by (subst (asm) recv_exact.simps) (auto split: sum.splits if_splits)
    qed
    ultimately show ?thesis by simp
  next
    case False
    then show ?thesis using less.prems by (subst (asm) recv_exact.simps) simp
  qed
qed

lemma connection_recv_log:
  assumes "talking_front_end V pending log" and "connection_recv V w = (r, w')"
  shows "log w' = log w"
  using assms(2) recv_exact_log [OF assms(1)]
  by (auto simp: connection_recv_def Let_def split: prod.splits result.splits if_splits)

lemma send_loop_talking:
  assumes "talking_front_end V pending log"
  shows "\<exists>w'. send_loop V buf fds sent w = (Ok (), w') \<and> pending w' = pending w"
proof (induction "length buf - sent" arbitrary: sent w rule: less_induct)
  case less
  show ?case
  proof (cases "sent < length buf")
    case True
    then have "drop sent buf \<noteq> []" by simp
    then obtain n w1 where "sys_send_with_fd V (drop sent buf) (if sent = 0 \<and> fds \<noteq> [] then fds else []) w = (Inr n, w1)"
        "0 < n" "pending w1 = pending w"
      using talkingD(7) [OF assms] by blast
    with less.hyps [of "sent + n" w1] True show ?thesis
      by (subst send_loop.simps) simp
  next
    case False
    then show ?thesis by (subst send_loop.simps) simp
  qed
qed

lemma server_reply_talking:
  assumes "talking_front_end V pending log"
  shows "\<exists>w'. server_reply V r b w = (Ok (), w') \<and> pending w' = pending w \<and>
     log w' = log w @ attach [] (msg_header_to_bytes (msg_header_reply r (of_nat (length b))) @ b)"
proof -
  let ?buf = "msg_header_to_bytes (msg_header_reply r (of_nat (length b))) @ b"
  obtain w' where w': "send_loop V ?buf [] 0 w = (Ok (), w')" "pending w' = pending w"
    using send_loop_talking [OF assms] by blast
  then have "server_reply V r b w = (Ok (), w')"
    by (simp add: server_reply_def connection_send_def)
  with w' connection_send_stream [OF talkingD(2) [OF assms], of "msg_header_reply r (of_nat (length b))" b "[]" w w']
  show ?thesis by (auto simp: server_reply_def)
qed

text \<open>What the code does with a command, in terms of its own operations, is what the abstract machine does.\<close>

fun command_effect :: "command \<Rightarrow> server \<Rightarrow> server" where
  "command_effect (Num i n) srv = update_slot (unat i) (\<lambda>s. s\<lparr>slot_queue_size := Some (ucast n)\<rparr>) srv"
| "command_effect (Base i n) srv = update_slot (unat i) (set_vring_base (ucast n)) srv"
| "command_effect (Addr a) srv = update_slot (unat (va_index a)) (maybe_build a) srv"
| "command_effect (Enable i n) srv = update_slot (unat i) (\<lambda>s. s\<lparr>slot_enabled := (n \<noteq> 0)\<rparr>) srv"
| "command_effect _ srv = srv"

lemma rings_update_slot:
  assumes "i < length (srv_vrings srv) \<Longrightarrow> ring_of (f (srv_vrings srv ! i)) = g (ring_of (srv_vrings srv ! i))"
  shows "rings (update_slot i f srv) = (rings srv)[i := g (rings srv ! i)]"
  using assms by (cases "i < length (srv_vrings srv)") (simp_all add: rings_def update_slot_def map_update list_update_beyond)

lemma rings_build:
  "rings (update_slot i (maybe_build a) srv) = (rings srv)[i := (case ring_size (rings srv ! i) of
     None \<Rightarrow> rings srv ! i
   | Some sz \<Rightarrow> (rings srv ! i)\<lparr>ring_queue := Some
       \<lparr>vq_desc_addr = va_descriptor a, vq_avail_addr = va_avail a, vq_used_addr = va_used a,
        vq_queue_size = sz, vq_last_avail_idx = ring_base (rings srv ! i)\<rparr>\<rparr>)]"
  by (rule rings_update_slot)
    (simp add: ring_of_def maybe_build_def set_avail_base_def virtqueue_new_def split: option.splits)

lemma rings_command_effect: "rings (command_effect c srv) = apply_command c (rings srv)"
proof (cases c)
  case (Num i n)
  then show ?thesis by (auto intro: rings_update_slot simp: ring_of_def)
next
  case (Base i n)
  have "rings (update_slot (unat i) (set_vring_base (ucast n)) srv) = (rings srv)[unat i := (rings srv ! unat i)
      \<lparr>ring_base := ucast n, ring_queue := (case ring_queue (rings srv ! unat i) of
        None \<Rightarrow> None | Some q \<Rightarrow> Some (q\<lparr>vq_last_avail_idx := ucast n\<rparr>))\<rparr>]"
    by (rule rings_update_slot) (simp add: ring_of_def set_vring_base_def set_avail_base_def split: option.splits)
  with Base show ?thesis by simp
next
  case (Addr a)
  then show ?thesis by (simp add: rings_build Let_def split: option.splits)
next
  case (Enable i n)
  then show ?thesis by (auto intro: rings_update_slot simp: ring_of_def)
qed simp_all

lemma unsaid_update_slot:
  assumes "\<And>s. slot_kick_fd (f s) = slot_kick_fd s" and "\<And>s. slot_call_fd (f s) = slot_call_fd s"
  shows "unsaid (update_slot i f srv) = unsaid srv"
  using assms by (auto simp: unsaid_def update_slot_def list_eq_iff_nth_eq nth_list_update)

lemma unsaid_command_effect: "unsaid (command_effect c srv) = unsaid srv"
  by (cases c) (simp_all add: unsaid_update_slot set_vring_base_def maybe_build_def split: option.splits)

lemma handle_silent_command:
  assumes "command_answer c (rings srv) = None"
  shows "handle_request H V (command_request c) (command_payload c) [] (srv, w) = (Ok (), command_effect c srv, w)"
  using assms vring_state.dec_enc [of _ "[]"] vring_addr.dec_enc [of _ "[]"] u64_payload.dec_enc [of _ "[]"]
  by (cases c) (simp_all add: handle_request_def ctl_try_def ctl_slot_def ctl_done_def)

lemma avail_base_reported:
  "(case slot_at srv i of None \<Rightarrow> 0 | Some slot \<Rightarrow> (case slot_vq slot of None \<Rightarrow> 0 | Some vq \<Rightarrow> vq_last_avail_idx vq)) =
   reported_base (rings srv) i"
  by (simp add: reported_base_def rings_def slot_at_def ring_of_def)

lemma handle_command:
  assumes "talking_front_end V pending log"
  shows "\<exists>w'. handle_request H V (command_request c) (command_payload c) [] (srv, w) = (Ok (), command_effect c srv, w') \<and>
     pending w' = pending w \<and> log w' = log w @ attach [] (answer_bytes c (rings srv))"
proof (cases "command_answer c (rings srv)")
  case None
  then show ?thesis by (simp add: handle_silent_command answer_bytes_def)
next
  case (Some b)
  have "handle_request H V (command_request c) (command_payload c) [] (srv, w) =
      (case server_reply V (command_request c) b w of (res, w') \<Rightarrow> (res, command_effect c srv, w'))"
    using Some vring_state.dec_enc [of _ "[]"]
    by (cases c) (auto simp: handle_request_def ctl_try_def ctl_reply_def ctl_get_vring_base_def
        avail_base_reported [symmetric] NUM_QUEUES_def avail_base_def Let_def cong: option.case_cong)
  with server_reply_talking [OF assms, of "command_request c" b w] Some show ?thesis
    by (auto simp: answer_bytes_def)
qed

section \<open>The loop\<close>

lemma process_kicks_quiet: "process_kicks fuel H V (zip ks (map (\<lambda>_. 0) ds)) \<sigma> = Some (Ok (), \<sigma>)"
proof (induction ks arbitrary: ds)
  case (Cons k ks)
  obtain i d where "k = (i, d)" by fastforce
  moreover obtain srv h w where "\<sigma> = (srv, h, w)" by (metis surj_pair)
  ultimately show ?case using Cons by (cases ds) auto
qed simp

lemma recv_command:
  assumes "stream_recv V pending" and "pending w = attach [] (command_bytes c) @ rest"
  shows "\<exists>w'. connection_recv V w =
     (Ok (msg_header_new (command_request c) 0 (of_nat (length (command_payload c))), command_payload c, []), w') \<and>
     pending w' = rest"
proof -
  let ?hdr = "msg_header_new (command_request c) 0 (of_nat (length (command_payload c)))"
  have "length (command_payload c) \<le> 40"
    by (cases c) (simp_all add: vring_state_to_bytes_def vring_addr_to_bytes_def u64_payload_to_bytes_def)
  then have "unat (mh_size ?hdr) = length (command_payload c)" "length (command_payload c) \<le> MAX_PAYLOAD"
    by (simp_all add: msg_header_new_def MAX_PAYLOAD_def unat_of_nat)
  from connection_recv_stream [OF assms _ _ this] show ?thesis
    by (simp add: command_bytes_def)
qed

lemma handle_one_command:
  assumes "connection_recv V w =
      (Ok (msg_header_new (command_request c) 0 n, command_payload c, []), w1)"
    and "handle_request H V (command_request c) (command_payload c) [] (srv, w1) = (Ok (), srv', w2)"
  shows "handle_one_message H V (srv, w) = (Ok (), srv', w2)"
  using assms by (simp add: handle_one_message_def msg_header_request_def msg_header_new_def request_try_from_code)

text \<open>One turn takes one command off the socket, carries it out and answers it.\<close>

lemma turn_command:
  assumes "talking_front_end V pending log" and "pending w = attach [] (command_bytes c) @ rest"
  shows "\<exists>w'. server_turn fuel H V (srv, h, w) = Some (Continue, command_effect c srv, h, w') \<and>
     pending w' = rest \<and> log w' = log w @ attach [] (answer_bytes c (rings srv))"
proof -
  let ?ks = "kick_slots (srv_vrings srv)"
  have "pending w \<noteq> []" using assms(2) by (simp add: attach_Nil command_bytes_def msg_header_to_bytes_def)
  then obtain ev w1 where w1: "sys_poll V (srv_conn srv # map snd ?ks) w = (Inr (ev # map (\<lambda>_. 0) (map snd ?ks)), w1)"
      "ev AND POLLIN \<noteq> 0" "ev AND (POLLHUP OR POLLERR) = 0" "pending w1 = attach [] (command_bytes c) @ rest" "log w1 = log w"
    using talkingD(3) [OF assms(1), of w "srv_conn srv" "map snd ?ks"] unfolding assms(2) by blast
  obtain w2 where w2: "connection_recv V w1 = (Ok (msg_header_new (command_request c) 0 (of_nat (length (command_payload c))),
        command_payload c, []), w2)" "pending w2 = rest"
    using recv_command [OF talkingD(1) [OF assms(1)] w1(4)] by blast
  obtain w3 where w3: "handle_request H V (command_request c) (command_payload c) [] (srv, w2) =
        (Ok (), command_effect c srv, w3)" "pending w3 = pending w2"
      "log w3 = log w2 @ attach [] (answer_bytes c (rings srv))"
    using handle_command [OF assms(1), of H c srv w2] by blast
  have "server_turn fuel H V (srv, h, w) = Some (Continue, command_effect c srv, h, w3)"
    using process_kicks_quiet [of fuel H V ?ks "map snd ?ks"]
    by (simp only: server_turn_def Let_def prod.case sum.case w1(1-3) list.sel handle_one_command [OF w2(1) w3(1)]
        turn_polled_def turn_kicks_def result.case if_True if_False simp_thms option.case)
  moreover have "log w3 = log w @ attach [] (answer_bytes c (rings srv))"
    using w3(3) connection_recv_log [OF assms(1) w2(1)] w1(5) by simp
  ultimately show ?thesis using w2(2) w3(2) by auto
qed

lemma turn_end_of_stream:
  assumes "talking_front_end V pending log" and "pending w = []"
  shows "\<exists>w'. server_turn fuel H V (srv, h, w) = Some (Stop (Ok ()), srv, h, w') \<and> log w' = log w"
proof -
  let ?ks = "kick_slots (srv_vrings srv)"
  obtain ev w1 where w1: "sys_poll V (srv_conn srv # map snd ?ks) w = (Inr (ev # map (\<lambda>_. 0) (map snd ?ks)), w1)"
      "ev AND (POLLIN OR POLLHUP) \<noteq> 0" "pending w1 = []" "log w1 = log w"
    using talkingD(4) [OF assms, of "srv_conn srv" "map snd ?ks"] by blast
  obtain fds w2 where "sys_recv_with_fd V HEADER_LEN MAX_FDS_PER_RECV w1 = (Inr ([], fds), w2)"
    using talkingD(6) [OF assms(1) w1(3)] by blast
  then have recv: "connection_recv V w1 = (Err Disconnected, w2)"
    by (simp add: connection_recv_def recv_exact.simps HEADER_LEN_def)
  show ?thesis
  proof (cases "ev AND POLLIN = 0")
    case True
    with w1(2) have "ev AND POLLHUP \<noteq> 0" by (simp add: bit.conj_disj_distrib)
    then have "ev AND (POLLHUP OR POLLERR) \<noteq> 0" by (auto simp: bit_eq_iff bit_simps)
    with True w1(1,4) show ?thesis by (simp add: server_turn_def Let_def turn_polled_def)
  next
    case False
    then have "server_turn fuel H V (srv, h, w) = Some (Stop (Ok ()), srv, h, w2)"
      using w1(1) recv by (simp add: server_turn_def Let_def handle_one_message_def)
    with connection_recv_log [OF assms(1) recv] w1(4) show ?thesis by simp
  qed
qed

text \<open>
  C8. The event loop refines the abstract machine of control commands: for a front-end that sends
  a sequence of commands, in whatever pieces, and closes the connection once they have been
  read, the loop ends without an error after as many turns and one more. The vrings it leaves
  behind are those the commands lead to one by one in the abstract machine, nothing else of the
  server has changed, and the bytes it has sent are exactly the answers, in order.
\<close>

theorem control_stream_is_served:
  assumes "talking_front_end V pending log" and "pending w = attach [] (concat (map command_bytes cs))"
  shows "\<exists>srv' h' w'. server_run (Suc (length cs)) fuel H V guest (srv, h, w) = Some (Ok (), srv', h', w') \<and>
     rings srv' = fold apply_command cs (rings srv) \<and> unsaid srv' = unsaid srv \<and>
     log w' = log w @ attach [] (all_answers cs (rings srv))"
  using assms(2)
proof (induction cs arbitrary: srv h w)
  case Nil
  then show ?case
    using turn_end_of_stream [OF assms(1), of w fuel H srv "guest 0 h"] by auto
next
  case (Cons c cs)
  from Cons.prems obtain w1 where w1: "server_turn fuel H V (srv, guest (Suc (length cs)) h, w) =
        Some (Continue, command_effect c srv, guest (Suc (length cs)) h, w1)"
      "pending w1 = attach [] (concat (map command_bytes cs))" "log w1 = log w @ attach [] (answer_bytes c (rings srv))"
    using turn_command [OF assms(1), of w c "attach [] (concat (map command_bytes cs))" fuel H srv
        "guest (Suc (length cs)) h"] by (auto simp: attach_Nil)
  from Cons.IH [OF w1(2), of "command_effect c srv" "guest (Suc (length cs)) h"] w1(1,3) show ?case
    by (auto simp: attach_Nil rings_command_effect unsaid_command_effect server_run.simps(2) [of "Suc (length cs)"]
        simp del: server_run.simps)
qed

text \<open>The concrete front-end, with no vring ever kicked, which hangs up once all has been read.\<close>

definition talking_vmm :: "mem_world vmm" where
  "talking_vmm = mem_vmm\<lparr>sys_poll := (\<lambda>ds w.
     (Inr ((if mw_in w = [] then POLLIN OR POLLHUP else POLLIN) # map (\<lambda>_. 0) (tl ds)), w))\<rparr>"

lemma talking_vmm_talks: "talking_front_end talking_vmm mw_in mw_out"
  unfolding talking_front_end_def
proof (intro conjI)
  show "stream_recv talking_vmm mw_in" "stream_send talking_vmm mw_out"
    using mem_vmm_stream_recv mem_vmm_stream_send by (simp_all add: stream_recv_def stream_send_def talking_vmm_def)
qed (auto simp: talking_vmm_def mem_recv_def mem_send_def Let_def POLLIN_def POLLHUP_def POLLERR_def)

theorem control_stream_is_served_witness:
  "\<exists>srv' h' w'. server_run 4 1 mem_host talking_vmm (\<lambda>_ h. h)
       (server_new 9 (session_new mem_fs), \<lambda>_. 0,
        mem_world1\<lparr>mw_in := attach [] (concat (map command_bytes [Num 0 4, Addr addr0, AskQueueNum]))\<rparr>) =
       Some (Ok (), srv', h', w') \<and>
     map ring_queue (rings srv') = [Some (virtqueue_new 4 0 64 128), None] \<and>
     mw_out w' = attach [] (msg_header_to_bytes (msg_header_reply GetQueueNum 8) @ le64 2)"
proof -
  let ?cs = "[Num 0 4, Addr addr0, AskQueueNum]"
  let ?srv = "server_new 9 (session_new mem_fs)"
  have len: "Suc (length ?cs) = 4" by simp
  obtain srv' h' w' where "server_run 4 1 mem_host talking_vmm (\<lambda>_ h. h)
       (?srv, \<lambda>_. 0, mem_world1\<lparr>mw_in := attach [] (concat (map command_bytes ?cs))\<rparr>) = Some (Ok (), srv', h', w')"
      "rings srv' = fold apply_command ?cs (rings ?srv)" "mw_out w' = attach [] (all_answers ?cs (rings ?srv))"
    using control_stream_is_served [OF talking_vmm_talks, of "mem_world1\<lparr>mw_in := attach [] (concat (map command_bytes ?cs))\<rparr>" ?cs
        1 mem_host "\<lambda>_ h. h" ?srv "\<lambda>_. 0"]
    unfolding len by (auto simp: mem_world0_def)
  moreover have "map ring_queue (fold apply_command ?cs (rings ?srv)) = [Some (virtqueue_new 4 0 64 128), None]"
    by (simp add: rings_def ring_of_def addr0_def new_vrings virtqueue_new_def vring_slot_default_def)
  moreover have "all_answers ?cs (rings ?srv) = msg_header_to_bytes (msg_header_reply GetQueueNum 8) @ le64 2"
    by (simp add: answer_bytes_def u64_payload_to_bytes_def)
  ultimately show ?thesis by auto
qed

section \<open>A front-end that does not wait\<close>

text \<open>
  C33. A front-end that closes the connection before its messages have been read loses all of
  them but one: where a poll reports the socket readable and hung up at once, the loop handles
  one message and ends without an error, and the messages after it stay unread. It does so with
  any number of turns to go.
\<close>

theorem hang_up_drops_messages:
  assumes "stream_recv V pending"
    and "sys_poll V (srv_conn srv # map snd (kick_slots (srv_vrings srv))) w = (Inr ((POLLIN OR POLLHUP) # evs), w1)"
    and "pending w1 = attach [] (concat (map command_bytes (c # cs)))" and "command_answer c (rings srv) = None"
  shows "\<exists>srv' h' w'. server_run (Suc n) fuel H V guest (srv, h, w) = Some (Ok (), srv', h', w') \<and>
     rings srv' = apply_command c (rings srv) \<and> pending w' = attach [] (concat (map command_bytes cs))"
proof -
  have "pending w1 = attach [] (command_bytes c) @ attach [] (concat (map command_bytes cs))"
    using assms(3) by (simp add: attach_Nil)
  from recv_command [OF assms(1) this] obtain w2 where
      w2: "connection_recv V w1 = (Ok (msg_header_new (command_request c) 0 (of_nat (length (command_payload c))),
        command_payload c, []), w2)" "pending w2 = attach [] (concat (map command_bytes cs))"
    by blast
  note handle_one_command [OF w2(1) handle_silent_command [OF assms(4)], of H]
  then have "server_turn fuel H V (srv, guest n h, w) = Some (Stop (Ok ()), command_effect c srv, guest n h, w2)"
    using assms(2) by (simp add: server_turn_def Let_def turn_polled_def POLLIN_def POLLHUP_def POLLERR_def)
  with w2(2) show ?thesis by (simp add: rings_command_effect)
qed

definition hasty_vmm :: "mem_world vmm" where
  "hasty_vmm = mem_vmm\<lparr>sys_poll := (\<lambda>ds w. (Inr ((POLLIN OR POLLHUP) # map (\<lambda>_. 0) (tl ds)), w))\<rparr>"

theorem hang_up_drops_messages_witness:
  "\<exists>srv' h' w'. server_run 4 1 mem_host hasty_vmm (\<lambda>_ h. h)
       (server_new 9 (session_new mem_fs), \<lambda>_. 0,
        mem_world1\<lparr>mw_in := attach [] (concat (map command_bytes [Num 0 4, Addr addr0]))\<rparr>) =
       Some (Ok (), srv', h', w') \<and>
     map ring_queue (rings srv') = [None, None] \<and> mw_in w' = attach [] (command_bytes (Addr addr0))"
proof -
  let ?srv = "server_new 9 (session_new mem_fs)"
  let ?w = "mem_world1\<lparr>mw_in := attach [] (concat (map command_bytes [Num 0 4, Addr addr0]))\<rparr>"
  have law: "stream_recv hasty_vmm mw_in"
    using mem_vmm_stream_recv by (simp add: stream_recv_def hasty_vmm_def)
  have "sys_poll hasty_vmm (srv_conn ?srv # map snd (kick_slots (srv_vrings ?srv))) ?w = (Inr [POLLIN OR POLLHUP], ?w)"
    by (simp add: hasty_vmm_def)
  moreover have "apply_command (Num 0 4) (rings ?srv) = [\<lparr>ring_size = Some 4, ring_base = 0, ring_queue = None, ring_on = False\<rparr>,
      \<lparr>ring_size = None, ring_base = 0, ring_queue = None, ring_on = False\<rparr>]"
    by (simp add: rings_def ring_of_def new_vrings vring_slot_default_def)
  ultimately show ?thesis
    using hang_up_drops_messages [OF law, of ?srv ?w "[]" ?w "Num 0 4" "[Addr addr0]" 3 1 mem_host "\<lambda>_ h. h" "\<lambda>_. 0"]
    by (auto simp del: server_run.simps)
qed

end
