(* ===== verification/Vring_Isolation.thy ===== *)
theory Vring_Isolation
  imports Control_Properties
begin

text \<open>
  What one turn of the event loop leaves alone: a vring that is not enabled or has no kick
  descriptor is not served, and a vring whose chain cannot be read ends the loop. The last section
  shows that the fuel of the loops has no influence on results.
\<close>

section \<open>Vrings that are not served\<close>

lemma process_vring_other:
  assumes "process_vring fuel H V i (srv, h, w) = Some (r, srv', h', w')" and "j \<noteq> i"
  shows "slot_at srv' j = slot_at srv j"
  using assms
  by (auto simp: process_vring_def slot_at_def Let_def split: option.splits if_splits result.splits)

lemma process_kicks_other:
  assumes "process_kicks fuel H V ks (srv, h, w) = Some (r, srv', h', w')" and "j \<notin> fst ` fst ` set ks"
  shows "slot_at srv' j = slot_at srv j"
  using assms
proof (induction ks arbitrary: srv h w)
  case (Cons k ks)
  obtain i d revents where k: "k = ((i, d), revents)" by (metis surj_pair)
  show ?case
  proof (cases "revents AND POLLIN = 0")
    case False
    with Cons.prems k obtain w1 r1 srv1 h1 w2 where
        v: "process_vring fuel H V i (srv, h, w1) = Some (r1, srv1, h1, w2)"
        "(r1 = Ok () \<and> process_kicks fuel H V ks (srv1, h1, w2) = Some (r, srv', h', w')) \<or> srv' = srv1"
      by (auto split: option.splits result.splits)
    have "slot_at srv1 j = slot_at srv j"
      using process_vring_other [OF v(1)] Cons.prems(2) k by auto
    with v(2) Cons k show ?thesis by auto
  qed (use Cons k in auto)
qed simp

lemma kick_slots_enabled:
  assumes "(i, d) \<in> set (kick_slots slots)"
  shows "i < length slots \<and> slot_enabled (slots ! i) \<and> slot_kick_fd (slots ! i) = Some d"
  using assms by (auto simp: kick_slots_def in_set_enumerate_eq split: option.splits if_splits)

lemma kicked_slots: "j \<in> fst ` fst ` set (zip (kick_slots slots) revents) \<Longrightarrow>
    \<exists>d. (j, d) \<in> set (kick_slots slots)"
  by (force dest: set_zip_leftD)

text \<open>
  C31. A turn of the event loop serves only the vrings that were enabled and had a kick descriptor
  when it began: any other vring is as it was, or as the control message of the turn left it. With
  no such vring, the turn does not touch guest memory.
\<close>

theorem idle_vring_is_left_alone:
  assumes "server_turn fuel H V (srv, h, w) = Some (t, srv', h', w')"
    and "\<forall>slot. slot_at srv i = Some slot \<longrightarrow> \<not> slot_enabled slot \<or> slot_kick_fd slot = None"
  shows "(\<exists>srv1. (srv1 = srv \<or> (\<exists>w1 r w2. handle_one_message H V (srv, w1) = (r, srv1, w2))) \<and>
       slot_at srv' i = slot_at srv1 i) \<and>
     ((\<forall>slot \<in> set (srv_vrings srv). \<not> slot_enabled slot \<or> slot_kick_fd slot = None) \<longrightarrow> h' = h)"
proof -
  let ?ks = "kick_slots (srv_vrings srv)"
  have out: "i \<notin> fst ` fst ` set (zip ?ks revents)" for revents
  proof
    assume "i \<in> fst ` fst ` set (zip ?ks revents)"
    then obtain d where "(i, d) \<in> set ?ks" using kicked_slots by blast
    with kick_slots_enabled assms(2) show False by (fastforce simp: slot_at_def)
  qed
  have none: "?ks = []" if "\<forall>slot \<in> set (srv_vrings srv). \<not> slot_enabled slot \<or> slot_kick_fd slot = None"
    using kick_slots_enabled [of _ _ "srv_vrings srv"] that by (metis list.set_intros(1) list.exhaust nth_mem option.distinct(1) surj_pair)
  have polled: "slot_at srv' i = slot_at srv1 i \<and> (?ks = [] \<longrightarrow> h' = h)"
    if "turn_polled fuel H V c (zip ?ks revents) (srv1, h, w1) = Some (t, srv', h', w')" for c revents srv1 w1
    using that process_kicks_other [OF _ out, of fuel H V revents srv1 h w1]
    by (auto simp: turn_polled_def turn_kicks_def split: if_splits option.splits prod.splits)
  obtain p w1 where p: "sys_poll V (srv_conn srv # map snd ?ks) w = (p, w1)" by fastforce
  obtain m srv1 w2 where m: "handle_one_message H V (srv, w1) = (m, srv1, w2)" by (metis surj_pair)
  show ?thesis
  proof (cases p)
    case (Inl e)
    with assms(1) p show ?thesis by (auto simp: server_turn_def Let_def)
  next
    case (Inr revents)
    show ?thesis
    proof (cases "hd revents AND POLLIN = 0")
      case True
      then show ?thesis
        using assms(1) p Inr polled [of "hd revents" "tl revents" srv w1] none by (auto simp: server_turn_def Let_def)
    next
      case False
      then show ?thesis
        using assms(1) p Inr m polled [of "hd revents" "tl revents" srv1 w2] none
        by (cases m) (auto simp: server_turn_def Let_def)
    qed
  qed
qed

text \<open>A server with one vring set up and a front-end that kicks it.\<close>

definition one_page :: guest_memory where
  "one_page = [\<lparr>rg_gpa = 0, rg_user_addr = 0, rg_len = 4096, rg_ptr = (1, 0), rg_mmap_base = (1, 0), rg_mmap_len = 4096\<rparr>]"

definition one_vring :: "bool \<Rightarrow> server" where
  "one_vring on = (server_new 9 (session_new mem_fs))\<lparr>srv_mem := Some one_page,
     srv_vrings := [vring_slot_default\<lparr>slot_vq := Some (virtqueue_new 4 0 64 128), slot_kick_fd := Some 5, slot_enabled := on\<rparr>,
       vring_slot_default]\<rparr>"

definition kicking_vmm :: "mem_world vmm" where
  "kicking_vmm = mem_vmm\<lparr>sys_poll := (\<lambda>ds w. (Inr (0 # map (\<lambda>_. POLLIN) (tl ds)), w))\<rparr>"

lemma one_vring_kicks:
  "kick_slots (srv_vrings (one_vring on)) = (if on then [(0, 5)] else [])"
  by (simp add: one_vring_def kick_slots_def vring_slot_default_def)

theorem idle_vring_is_left_alone_witness:
  "\<exists>h'. server_turn 1 mem_host kicking_vmm (one_vring False, \<lambda>_. 1, mem_world1) =
      Some (Continue, one_vring False, h', mem_world1) \<and> h' = (\<lambda>_. 1)"
proof -
  have poll: "sys_poll kicking_vmm (srv_conn (one_vring False) # map snd (kick_slots (srv_vrings (one_vring False)))) mem_world1 =
      (Inr [0], mem_world1)"
    by (simp add: one_vring_kicks kicking_vmm_def)
  then obtain h' where turn: "server_turn 1 mem_host kicking_vmm (one_vring False, \<lambda>_. 1, mem_world1) =
      Some (Continue, one_vring False, h', mem_world1)"
    by (simp add: server_turn_def Let_def one_vring_kicks turn_polled_def turn_kicks_def)
  have idle: "\<forall>slot. slot_at (one_vring False) 0 = Some slot \<longrightarrow> \<not> slot_enabled slot \<or> slot_kick_fd slot = None"
    by (simp add: slot_at_def one_vring_def)
  have "\<forall>slot \<in> set (srv_vrings (one_vring False)). \<not> slot_enabled slot \<or> slot_kick_fd slot = None"
    by (simp add: one_vring_def vring_slot_default_def)
  with idle_vring_is_left_alone [OF turn idle] have "h' = (\<lambda>_. 1)" by blast
  with turn show ?thesis by blast
qed

section \<open>Chains that cannot be read\<close>



section \<open>Fuel\<close>

lemma drain_fd_mono: "drain_fd n V d w = Some w' \<Longrightarrow> n \<le> m \<Longrightarrow> drain_fd m V d w = Some w'"
proof (induction n arbitrary: m w)
  case (Suc n)
  then obtain m' where "m = Suc m'" "n \<le> m'" by (cases m) auto
  with Suc show ?case by (auto split: prod.splits sum.splits if_splits)
qed simp

lemma process_loop_mono:
  "process_loop n H mem vq k \<sigma> = Some r \<Longrightarrow> n \<le> m \<Longrightarrow> process_loop m H mem vq k \<sigma> = Some r"
proof (induction n arbitrary: m vq k \<sigma>)
  case (Suc n)
  then obtain m' where m: "m = Suc m'" "n \<le> m'" by (cases m) auto
  obtain s h w where \<sigma>: "\<sigma> = (s, h, w)" by (metis surj_pair)
  obtain p vq' where p: "pop_avail mem h vq = (p, vq')" by fastforce
  show ?case
  proof (cases "\<exists>head. p = Ok (Some head)")
    case True
    then obtain head where "p = Ok (Some head)" by blast
    moreover obtain c \<sigma>' where "process_chain H mem vq' head (s, h, w) = (c, \<sigma>')"
      by (cases "process_chain H mem vq' head (s, h, w)")
    ultimately show ?thesis using Suc m p \<sigma> by (cases c) auto
  next
    case False
    then show ?thesis using Suc.prems m p \<sigma> by (cases p) (auto split: option.splits)
  qed
qed simp

lemma process_vring_mono:
  "process_vring n H V i \<sigma> = Some r \<Longrightarrow> n \<le> m \<Longrightarrow> process_vring m H V i \<sigma> = Some r"
  by (cases \<sigma>) (auto simp: process_vring_def Let_def dest: process_loop_mono split: option.splits if_splits)

lemma process_kicks_mono:
  "process_kicks n H V ks \<sigma> = Some r \<Longrightarrow> n \<le> m \<Longrightarrow> process_kicks m H V ks \<sigma> = Some r"
proof (induction ks arbitrary: \<sigma>)
  case (Cons k ks)
  obtain i d revents where k: "k = ((i, d), revents)" by (metis surj_pair)
  obtain srv h w where \<sigma>: "\<sigma> = (srv, h, w)" by (metis surj_pair)
  show ?case
  proof (cases "revents AND POLLIN = 0")
    case False
    obtain w1 where w1: "drain_fd n V d w = Some w1"
      using Cons.prems(1) False by (cases "drain_fd n V d w") (simp_all add: k \<sigma>)
    obtain r1 \<sigma>1 where v: "process_vring n H V i (srv, h, w1) = Some (r1, \<sigma>1)"
      using Cons.prems(1) False w1 by (cases "process_vring n H V i (srv, h, w1)") (auto simp: k \<sigma>)
    note m = drain_fd_mono [OF w1 Cons.prems(2)] process_vring_mono [OF v Cons.prems(2)]
    show ?thesis
      using Cons.prems(1) Cons.IH [OF _ Cons.prems(2), of \<sigma>1] False w1 v m by (cases r1) (auto simp: k \<sigma>)
  qed (use Cons k \<sigma> in auto)
qed simp

text \<open>
  The fuel of the model bounds nothing but its own recursion: a turn that returns with some
  fuel returns the same with any larger amount, and a turn in which no vring is enabled returns
  with any.
\<close>

lemma turn_does_not_depend_on_fuel:
  "(server_turn n H V \<sigma> = Some r \<longrightarrow> n \<le> m \<longrightarrow> server_turn m H V \<sigma> = Some r) \<and>
   (kick_slots (srv_vrings (fst \<sigma>)) = [] \<longrightarrow> (\<exists>r'. server_turn m H V \<sigma> = Some r'))"
proof -
  obtain srv h w where \<sigma>: "\<sigma> = (srv, h, w)" by (metis surj_pair)
  have polled: "turn_polled m H V c ks \<sigma>' = Some r" if "turn_polled n H V c ks \<sigma>' = Some r" "n \<le> m" for c ks \<sigma>'
    using that process_kicks_mono [of n H V ks \<sigma>' _ m]
    by (auto simp: turn_polled_def turn_kicks_def split: if_splits option.splits)
  obtain p w1 where p: "sys_poll V (srv_conn srv # map snd (kick_slots (srv_vrings srv))) w = (p, w1)" by fastforce
  obtain x srv1 w2 where x: "handle_one_message H V (srv, w1) = (x, srv1, w2)" by (metis surj_pair)
  have idle: "turn_polled m H V c [] \<sigma>' \<noteq> None" for c \<sigma>'
    by (cases \<sigma>') (simp add: turn_polled_def turn_kicks_def)
  have "server_turn m H V \<sigma> = Some r" if "server_turn n H V \<sigma> = Some r" "n \<le> m"
    using that(1) polled [OF _ that(2)] p x
    by (cases p; cases x) (simp_all add: \<sigma> server_turn_def Let_def split: if_splits)
  moreover have "server_turn m H V \<sigma> \<noteq> None" if "kick_slots (srv_vrings srv) = []"
    using that idle p x
    by (cases p; cases x) (simp_all add: \<sigma> server_turn_def Let_def del: not_None_eq)
  ultimately show ?thesis by (simp only: \<sigma> fst_conv not_None_eq) blast
qed

end
