(* ===== verification/Protocol_Properties.thy ===== *)
theory Protocol_Properties
  imports Dispatch Virtqueue Mem_Host
begin

text \<open>
  Properties of the wire formats and of the guest's memory: error numbers, names in request
  bodies, the fields of replies, address translation and the walk over a descriptor chain.
\<close>

section \<open>Error numbers\<close>

lemma linux_errno_not_131: "131 \<notin> range linux_errno"
proof -
  have "linux_errno n \<noteq> 131" for n by (cases n) simp_all
  then show ?thesis by (metis rangeE)
qed

text \<open>
  C24. Host error numbers reach the guest as the Linux numbers of the same errors, from a Linux
  host and from a macOS host alike, for every error the translation lists; an error it does not
  list becomes \<open>EIO\<close>; and whatever the host reports, the guest gets a number from 1 to 125.
  So on a Linux host the translation is the identity on the listed numbers only: 131,
  \<open>ENOTRECOVERABLE\<close>, arrives as \<open>EIO\<close>.
\<close>

theorem errors_reach_the_guest:
  "to_linux_errno linux_errno (linux_errno n) = linux_errno n \<and>
   to_linux_errno macos_errno (macos_errno n) = linux_errno n \<and>
   to_linux_errno linux_errno e = (if e \<in> range linux_errno then e else 5) \<and>
   to_linux_errno linux_errno 131 = 5 \<and>
   1 \<le> to_linux_errno tbl e \<and> to_linux_errno tbl e \<le> 125"
  using linux_errno_not_131 to_linux_errno_named [OF errno_table_ok_linux_table] to_linux_errno_named [OF errno_table_ok_macos]
    to_linux_errno_unmapped [of _ linux_errno] to_linux_errno_range [of tbl e]
  by auto

section \<open>Names\<close>

text \<open>
  C25. A request body with names in it parses to the fields and names it was made of, whatever
  follows: \<open>MKDIR\<close>, \<open>CREATE\<close>, \<open>LINK\<close>, \<open>RENAME\<close> and \<open>RENAME2\<close>, as well as the two
  strings of \<open>SYMLINK\<close> and the single name of \<open>LOOKUP\<close>, \<open>UNLINK\<close> and \<open>RMDIR\<close>.
\<close>

theorem names_parse_back:
  assumes "0 \<notin> set a" and "0 \<notin> set b" and "rust_slice (replicate 16 0 @ a @ 0 # b @ 0 # rest)"
  shows "mkdir_in_from_bytes (le32 m @ le32 u @ a @ 0 # rest) = Ok (\<lparr>mkdir_mode = m\<rparr>, a) \<and>
     create_in_from_bytes (le32 f @ le32 m @ le32 u @ le32 v @ a @ 0 # rest) =
       Ok (\<lparr>create_flags = f, create_mode = m\<rparr>, a) \<and>
     link_in_from_bytes (le64 i @ a @ 0 # rest) = Ok (\<lparr>link_oldnodeid = i\<rparr>, a) \<and>
     rename_in_from_bytes (le64 d @ a @ 0 # b @ 0 # rest) = Ok (\<lparr>rename_newdir = d\<rparr>, a, b) \<and>
     rename_in_from_bytes_v2 (le64 d @ le32 f @ le32 u @ a @ 0 # b @ 0 # rest) = Ok (\<lparr>rename_newdir = d\<rparr>, a, b) \<and>
     split_two_cstrs (a @ 0 # b @ 0 # rest) = [a, b] \<and> trim_nul (a @ 0 # rest) = a"
proof -
  have slices: "rust_slice (le32 m @ le32 u @ a @ 0 # rest)"
      "rust_slice (le32 f @ le32 m @ le32 u @ le32 v @ a @ 0 # rest)" "rust_slice (le64 i @ a @ 0 # rest)"
      "rust_slice (le64 d @ a @ 0 # b @ 0 # rest)" "rust_slice (le64 d @ le32 f @ le32 u @ a @ 0 # b @ 0 # rest)"
    using assms(3) by (simp_all add: rust_slice_def)
  have one: "cstr_at 8 (le32 m @ le32 u @ a @ 0 # rest) = Some (a, 8 + (length a + 1))"
      "cstr_at 16 (le32 f @ le32 m @ le32 u @ le32 v @ a @ 0 # rest) = Some (a, 16 + (length a + 1))"
      "cstr_at 8 (le64 i @ a @ 0 # rest) = Some (a, 8 + (length a + 1))"
    using cstr_at_append [OF assms(1), of "le32 m @ le32 u" 8 rest]
      cstr_at_append [OF assms(1), of "le32 f @ le32 m @ le32 u @ le32 v" 16 rest]
      cstr_at_append [OF assms(1), of "le64 i" 8 rest] by simp_all
  have two: "two_cstrs_at 8 (le64 d @ a @ 0 # b @ 0 # rest) = Some (a, b)"
      "two_cstrs_at 16 (le64 d @ le32 f @ le32 u @ a @ 0 # b @ 0 # rest) = Some (a, b)"
    using two_cstrs_at_append [OF assms(1,2), of "le64 d" 8 rest]
      two_cstrs_at_append [OF assms(1,2), of "le64 d @ le32 f @ le32 u" 16 rest] by simp_all
  have "split_two_cstrs (a @ 0 # b @ 0 # rest) = [a, b]" "trim_nul (a @ 0 # rest) = a"
    using assms(1,2)
    by (simp_all add: split_two_cstrs_def trim_nul_def numeral_2_eq_2 take_position_nul position_append_hit)
  with one two show ?thesis
    by (simp add: mkdir_in_from_bytes_eq create_in_from_bytes_eq link_in_from_bytes_eq rename_in_from_bytes_eq
        rename_in_from_bytes_v2_eq slices word_at_append_right)
qed

theorem names_parse_back_witness:
  "mkdir_in_from_bytes (le32 493 @ le32 0 @ [97] @ 0 # []) = Ok (\<lparr>mkdir_mode = 493\<rparr>, [97]) \<and>
   split_two_cstrs ([97] @ 0 # [98] @ 0 # []) = [[97], [98]]"
  using names_parse_back [of "[97]" "[98]" "[]" 493 0] by (simp add: rust_slice_def)

section \<open>Replies\<close>

text \<open>
  The attributes as the guest's kernel reads them: \<open>struct fuse_attr\<close> at an offset of a reply.
\<close>

definition fuse_attr_at :: "nat \<Rightarrow> bytes \<Rightarrow> attr" where
  "fuse_attr_at p b =
     \<lparr>attr_ino = u64_at p b, attr_size = u64_at (p + 8) b, attr_blocks = u64_at (p + 16) b,
      attr_atime = (u64_at (p + 24) b, u32_at (p + 48) b), attr_mtime = (u64_at (p + 32) b, u32_at (p + 52) b),
      attr_ctime = (u64_at (p + 40) b, u32_at (p + 56) b), attr_mode = u32_at (p + 60) b,
      attr_nlink = u32_at (p + 64) b, attr_uid = u32_at (p + 68) b, attr_gid = u32_at (p + 72) b,
      attr_rdev = u32_at (p + 76) b, attr_blksize = u32_at (p + 80) b\<rparr>"

lemma fuse_attr_at_write: "length w = n \<Longrightarrow> fuse_attr_at n (fuse_attr_write a w) = a"
  by (simp add: fuse_attr_at_def fuse_attr_write_def writer_defs Let_def word_at_append_right)

lemma fuse_attr_write_append: "fuse_attr_write a w = w @ fuse_attr_write a []"
  by (simp add: fuse_attr_write_def writer_defs Let_def)

text \<open>
  The fixed part of an entry reply and of an attribute reply, at the offsets of
  \<open>struct fuse_entry_out\<close> and \<open>struct fuse_attr_out\<close>: seconds and nanoseconds of the time for
  which the guest may keep the name and the attributes.
\<close>

lemma entry_out_fields:
  "u64_at 0 (entry_out i a) = i" "u64_at 8 (entry_out i a) = 1"
  "u64_at 16 (entry_out i a) = CACHE_TIMEOUT_SECS" "u64_at 24 (entry_out i a) = CACHE_TIMEOUT_SECS"
  "u32_at 32 (entry_out i a) = 0" "u32_at 36 (entry_out i a) = 0" "fuse_attr_at 40 (entry_out i a) = a"
  "u32_at 124 (entry_out i a) = 0"
proof -
  show "u64_at 0 (entry_out i a) = i" "u64_at 8 (entry_out i a) = 1"
    "u64_at 16 (entry_out i a) = CACHE_TIMEOUT_SECS" "u64_at 24 (entry_out i a) = CACHE_TIMEOUT_SECS"
    "u32_at 32 (entry_out i a) = 0" "u32_at 36 (entry_out i a) = 0"
    unfolding entry_out_def Let_def
    by (subst fuse_attr_write_append, simp add: writer_defs word_at_append_right)+
  show "fuse_attr_at 40 (entry_out i a) = a"
    by (simp add: entry_out_def Let_def fuse_attr_at_write writer_defs)
  show "u32_at 124 (entry_out i a) = 0"
    by (simp add: entry_out_def fuse_attr_write_def Let_def writer_defs word_at_append_right)
qed

lemma attr_out_fields:
  "u64_at 0 (attr_out a) = CACHE_TIMEOUT_SECS" "u32_at 8 (attr_out a) = 0" "u32_at 12 (attr_out a) = 0"
  "fuse_attr_at 16 (attr_out a) = a" "u32_at 100 (attr_out a) = 0"
proof -
  show "u64_at 0 (attr_out a) = CACHE_TIMEOUT_SECS" "u32_at 8 (attr_out a) = 0" "u32_at 12 (attr_out a) = 0"
    unfolding attr_out_def Let_def
    by (subst fuse_attr_write_append, simp add: writer_defs word_at_append_right)+
  show "fuse_attr_at 16 (attr_out a) = a"
    by (simp add: attr_out_def Let_def fuse_attr_at_write writer_defs)
  show "u32_at 100 (attr_out a) = 0"
    by (simp add: attr_out_def fuse_attr_write_def Let_def writer_defs word_at_append_right)
qed

text \<open>\<open>struct fuse_statfs_out\<close>; the three sizes of the host are cut to 32 bits.\<close>

lemma statfs_out_fields:
  "u64_at 0 (statfs_out st) = f_blocks st" "u64_at 8 (statfs_out st) = f_bfree st"
  "u64_at 16 (statfs_out st) = f_bavail st" "u64_at 24 (statfs_out st) = f_files st"
  "u64_at 32 (statfs_out st) = f_ffree st" "u32_at 40 (statfs_out st) = ucast (f_bsize st)"
  "u32_at 44 (statfs_out st) = ucast (f_namemax st)" "u32_at 48 (statfs_out st) = ucast (f_frsize st)"
  by (simp_all add: statfs_out_def Let_def writer_defs word_at_append_right upt_rec)

text \<open>\<open>struct fuse_init_out\<close>, up to the fields the daemon leaves at zero.\<close>

lemma init_out_fields:
  "u32_at 0 (init_out m) = 7" "u32_at 4 (init_out m) = INIT_OUT_MINOR" "u32_at 8 (init_out m) = m"
  "u32_at 12 (init_out m) = FUSE_WRITEBACK_CACHE OR FUSE_ASYNC_READ OR FUSE_MAX_PAGES"
  "u16_at 16 (init_out m) = - 1" "u16_at 18 (init_out m) = (- 1) div 4 * 3" "u32_at 20 (init_out m) = MAX_WRITE"
  "u32_at 24 (init_out m) = 1" "u16_at 28 (init_out m) = ucast (MAX_WRITE div ASSUMED_GUEST_PAGE_SIZE)"
  by (simp_all only: init_out_def Let_def writer_defs) (simp_all add: word_at_append_right)

text \<open>
  C30. The guest reads back what the daemon replies, field by field where the kernel's structures
  have them. An entry reply holds the nodeid, generation 1, the two cache times of
  \<open>CACHE_TIMEOUT_SECS\<close> seconds and no nanoseconds, and the attributes; an attribute reply its cache
  time and the attributes; an open reply the handle and its flags; a write reply the count; a
  \<open>STATFS\<close> reply the counts and the sizes of the host, the latter cut to 32 bits; the reply to
  \<open>INIT\<close> the version, the read-ahead, the flags and the limits. Each structure has the size the
  kernel expects.
\<close>

theorem replies_read_back:
  "(u64_at 0 (entry_out i a) = i \<and> u64_at 8 (entry_out i a) = 1 \<and>
    u64_at 16 (entry_out i a) = CACHE_TIMEOUT_SECS \<and> u64_at 24 (entry_out i a) = CACHE_TIMEOUT_SECS \<and>
    u32_at 32 (entry_out i a) = 0 \<and> u32_at 36 (entry_out i a) = 0 \<and>
    fuse_attr_at 40 (entry_out i a) = a \<and> u32_at 124 (entry_out i a) = 0 \<and> length (entry_out i a) = 128) \<and>
   (u64_at 0 (attr_out a) = CACHE_TIMEOUT_SECS \<and> u32_at 8 (attr_out a) = 0 \<and> u32_at 12 (attr_out a) = 0 \<and>
    fuse_attr_at 16 (attr_out a) = a \<and> u32_at 100 (attr_out a) = 0 \<and> length (attr_out a) = 104) \<and>
   (u64_at 0 (open_out fh) = fh \<and> u32_at 8 (open_out fh) = FOPEN_KEEP_CACHE \<and> u32_at 12 (open_out fh) = 0 \<and>
    length (open_out fh) = 16) \<and>
   (u32_at 0 (write_out n) = n \<and> u32_at 4 (write_out n) = 0 \<and> length (write_out n) = 8) \<and>
   (u64_at 0 (statfs_out st) = f_blocks st \<and> u64_at 8 (statfs_out st) = f_bfree st \<and>
    u64_at 16 (statfs_out st) = f_bavail st \<and> u64_at 24 (statfs_out st) = f_files st \<and>
    u64_at 32 (statfs_out st) = f_ffree st \<and> u32_at 40 (statfs_out st) = ucast (f_bsize st) \<and>
    u32_at 44 (statfs_out st) = ucast (f_namemax st) \<and> u32_at 48 (statfs_out st) = ucast (f_frsize st) \<and>
    length (statfs_out st) = 80) \<and>
   (u32_at 0 (init_out m) = 7 \<and> u32_at 4 (init_out m) = INIT_OUT_MINOR \<and> u32_at 8 (init_out m) = m \<and>
    u32_at 12 (init_out m) = FUSE_WRITEBACK_CACHE OR FUSE_ASYNC_READ OR FUSE_MAX_PAGES \<and>
    u16_at 16 (init_out m) = - 1 \<and> u16_at 18 (init_out m) = (- 1) div 4 * 3 \<and>
    u32_at 20 (init_out m) = MAX_WRITE \<and> u32_at 24 (init_out m) = 1 \<and>
    u16_at 28 (init_out m) = ucast (MAX_WRITE div ASSUMED_GUEST_PAGE_SIZE) \<and> length (init_out m) = 64)"
proof -
  have "u64_at 0 (open_out fh) = fh" "u32_at 8 (open_out fh) = FOPEN_KEEP_CACHE" "u32_at 12 (open_out fh) = 0"
      "u32_at 0 (write_out n) = n" "u32_at 4 (write_out n) = 0"
    by (simp_all add: open_out_def write_out_def Let_def writer_defs word_at_append_right)
  then show ?thesis
    by (simp only: entry_out_fields attr_out_fields statfs_out_fields init_out_fields
        length_entry_out length_attr_out length_open_out length_write_out length_statfs_out length_init_out
        ENTRY_OUT_LEN_def ATTR_OUT_LEN_def INIT_OUT_LEN_def simp_thms)
qed

section \<open>Guest addresses\<close>

text \<open>
  C21. Address translation accepts exactly the ranges that lie inside one region, in unbounded
  arithmetic, so no address and length of the guest's gets through by wrapping around. The slice
  has the requested length and starts as far into the region's memory as the address is above
  the region's base. Where the regions are mapped in full, the slice lies inside a mapping.
\<close>

theorem translation_is_exact:
  assumes "\<forall>r \<in> set mem. region_mapped r"
  shows "(get_slice mem sp addr len \<noteq> None \<longleftrightarrow>
       (\<exists>r \<in> set mem. unat (base_for sp r) \<le> unat addr \<and>
          unat addr + unat len \<le> unat (base_for sp r) + unat (rg_len r))) \<and>
     (\<forall>s. get_slice mem sp addr len = Some s \<longrightarrow>
       snd s = unat len \<and>
       (\<exists>r \<in> set mem. slice_in_mapping s r) \<and>
       (\<exists>r \<in> set mem. fst s = ptr_add (rg_ptr r) (unat addr - unat (base_for sp r))))"
proof -
  have "snd s = unat len \<and> (\<exists>r \<in> set mem. fst s = ptr_add (rg_ptr r) (unat addr - unat (base_for sp r)))"
    if "get_slice mem sp addr len = Some s" for s
    using that get_slice_Some [of mem sp addr len "fst s" "snd s"] by (metis prod.collapse)
  then show ?thesis
    using get_slice_None [of mem sp addr len] get_slice_in_mapping [OF assms] by (auto simp: in_region_iff)
qed

definition two_pages :: guest_memory where
  "two_pages = [\<lparr>rg_gpa = 0, rg_user_addr = 8192, rg_len = 4096, rg_ptr = (1, 0), rg_mmap_base = (1, 0), rg_mmap_len = 4096\<rparr>,
     \<lparr>rg_gpa = 4096, rg_user_addr = 16384, rg_len = 4096, rg_ptr = (2, 16), rg_mmap_base = (2, 0), rg_mmap_len = 4112\<rparr>]"

theorem translation_is_exact_witness:
  "get_slice two_pages Gpa 5000 10 = Some ((2, 920), 10) \<and> get_slice two_pages Gpa 4090 10 = None \<and>
   (\<exists>r \<in> set two_pages. slice_in_mapping ((2, 920), 10) r)"
proof -
  have "\<forall>r \<in> set two_pages. region_mapped r" by (simp add: two_pages_def region_mapped_def)
  note exact = translation_is_exact [OF this]
  have "get_slice two_pages Gpa 5000 10 = Some ((2, 920), 10)"
    by (simp add: two_pages_def get_slice_def find_region_def in_region_def ptr_add_def)
  moreover have "get_slice two_pages Gpa 4090 10 = None"
    using exact [of Gpa 4090 10] by (simp add: two_pages_def del: not_None_eq split_paired_All)
  ultimately show ?thesis using exact [of Gpa 5000 10] by simp
qed

text \<open>
  C40. A region the daemon maps lies inside its mapping exactly when the size the front-end
  announces, plus the slack that aligns its offset to a page, is a 64-bit number. Nothing checks
  this: a larger size wraps around to a short mapping that is recorded with the announced size.
\<close>

theorem huge_region_outgrows_its_mapping:
  assumes "map_one V rg d w = (Ok r, w')"
  shows "region_mapped r \<longleftrightarrow> unat (memory_size rg) + unat (mmap_offset rg mod page_size V) < 2 ^ 64"
proof
  let ?extra = "mmap_offset rg mod page_size V"
  assume "region_mapped r"
  then have "unat ?extra + unat (memory_size rg) \<le> unat (memory_size rg + ?extra)"
    using assms by (auto simp: map_one_def Let_def region_mapped_def ptr_add_def
        split: if_splits prod.splits sum.splits)
  then show "unat (memory_size rg) + unat ?extra < 2 ^ 64"
    using unsigned_less [of "memory_size rg + ?extra", where ?'a = nat] by simp
qed (rule map_one_mapped [OF assms])

theorem huge_region_outgrows_its_mapping_witness:
  "\<exists>r. map_one mem_vmm \<lparr>guest_phys_addr = 0, memory_size = 18446744073709551615, userspace_addr = 0, mmap_offset = 4095\<rparr> 7 mem_world0
      = (Ok r, mem_world0) \<and> rg_mmap_len r = 4094 \<and> rg_len r = 18446744073709551615 \<and> \<not> region_mapped r"
proof -
  let ?rg = "\<lparr>guest_phys_addr = 0, memory_size = 18446744073709551615, userspace_addr = 0, mmap_offset = 4095\<rparr>"
  obtain r where "map_one mem_vmm ?rg 7 mem_world0 = (Ok r, mem_world0)" "rg_mmap_len r = 4094" "rg_len r = 18446744073709551615"
    by (simp add: map_one_def)
  with huge_region_outgrows_its_mapping [OF this(1)] show ?thesis by simp
qed

section \<open>Descriptor chains\<close>

text \<open>
  C22. Reading a chain succeeds exactly when following the \<open>next\<close> links from its head reaches a
  last descriptor within 512 steps, every descriptor on the way being readable and direct. The
  result then has the readable and the writable buffers of those descriptors, in chain order.
  The walk always ends and never panics, so a chain that loops gives an error.
\<close>

theorem chain_walk_is_exact:
  "(read_chain mem h vq head = Ok c \<longleftrightarrow>
     (\<exists>ds. desc_path mem h vq head ds \<and> length ds \<le> 512 \<and>
       c = \<lparr>dc_head = head, dc_readable = segments_of (\<lambda>d. \<not> flag_on VIRTQ_DESC_F_WRITE d) ds,
            dc_writable = segments_of (flag_on VIRTQ_DESC_F_WRITE) ds\<rparr>)) \<and>
   read_chain mem h vq head \<noteq> Panic"
  by (simp add: read_chain_def MAX_CHAIN_LEN_def chain_loop_Ok fold_add_segment chain_loop_no_panic)

text \<open>
  A descriptor whose \<open>next\<close> link leads back to itself is refused as too long a chain, so a
  guest cannot keep the device walking.
\<close>

theorem looping_chain_is_refused:
  assumes "read_desc mem h vq head = Ok d" and "flag_on VIRTQ_DESC_F_NEXT d"
    and "\<not> flag_on VIRTQ_DESC_F_INDIRECT d" and "d_next d = head"
  shows "read_chain mem h vq head = Err ChainTooLong"
proof -
  have "chain_loop mem h vq n head c = Err ChainTooLong" for n c
    using assms by (induction n arbitrary: c) (simp_all add: Let_def)
  then show ?thesis by (simp add: read_chain_def)
qed

theorem looping_chain_is_refused_witness:
  "read_chain two_pages (store (1, 0) (le64 5000 @ le32 8 @ le16 1 @ le16 0) (\<lambda>_. 0)) (virtqueue_new 8 8192 9000 9500) 0
     = Err ChainTooLong"
proof -
  let ?h = "store (1, 0) (le64 5000 @ le32 8 @ le16 1 @ le16 0) (\<lambda>_. 0)"
  let ?d = "\<lparr>d_addr = 5000, d_len = 8, d_flags = 1, d_next = 0\<rparr>"
  have "read_desc two_pages ?h (virtqueue_new 8 8192 9000 9500) 0 = Ok ?d"
    by code_simp
  from looping_chain_is_refused [OF this] show ?thesis
    by (simp add: flag_on_def VIRTQ_DESC_F_NEXT_def VIRTQ_DESC_F_INDIRECT_def)
qed

end
