(* ===== verification/Interference.thy ===== *)
theory Interference
  imports Server_Safety Memory_Safety Mem_Host Protocol_Properties
begin

text \<open>
  A guest that writes to its memory while the device works on it. The model of the server has the
  guest's writes between turns only; here they happen between requests and, within a request,
  between any two of its phases: the chain walk, the look at the header, the dispatch, which
  reads the request a second time, and the used ring.
\<close>

section \<open>Requests under interference\<close>

text \<open>The guest writes to its own memory only: \<open>guest i\<close> is what it does before phase \<open>i\<close>.\<close>

definition guest_writes :: "guest_memory \<Rightarrow> (nat \<Rightarrow> heap \<Rightarrow> heap) \<Rightarrow> bool" where
  "guest_writes mem guest \<longleftrightarrow> (\<forall>i h p. p \<notin> region_bytes mem \<longrightarrow> guest i h p = h p)"

definition racy_chain ::
  "(nat \<Rightarrow> heap \<Rightarrow> heap) \<Rightarrow> 'w host \<Rightarrow> guest_memory \<Rightarrow> virtqueue \<Rightarrow> u16 \<Rightarrow> 'w req_state
   \<Rightarrow> unit proto_result \<times> 'w req_state" where
  "racy_chain guest H mem vq head = (\<lambda>(s, h, w).
     let h0 = guest 0 h in
     case read_chain mem h0 vq head of
       Err e \<Rightarrow> (Err (Virtqueue e), s, h0, w)
     | Panic \<Rightarrow> (Panic, s, h0, w)
     | Ok chain \<Rightarrow>
         let h1 = guest 1 h0 in
         (case gather_readable_prefix mem h1 chain REQUEST_HEADER_LEN of
            Err e \<Rightarrow> (Err (Virtqueue e), s, h1, w)
          | Panic \<Rightarrow> (Panic, s, h1, w)
          | Ok header_prefix \<Rightarrow>
              (case dispatch_request H mem chain header_prefix (s, guest 2 h1, w) of
                 (Err e, \<sigma>) \<Rightarrow> (Err e, \<sigma>)
               | (Panic, \<sigma>) \<Rightarrow> (Panic, \<sigma>)
               | (Ok written, s', h', w') \<Rightarrow>
                   (case push_used mem vq head written (guest 3 h') of
                      (r, h'') \<Rightarrow> (vq_lift r, s', h'', w')))))"

text \<open>With a guest that keeps still, this is the server's own way of handling a chain.\<close>

lemma racy_chain_still: "racy_chain (\<lambda>_ h. h) H mem vq head = process_chain H mem vq head"
  unfolding racy_chain_def process_chain_def Let_def ..

lemma racy_chain_safe:
  assumes ok: "passthrough_ok n (ses_fs s)" and n: "n + 2 < 2 ^ 64 - 1" and qs: "vq_queue_size vq \<noteq> 0"
  shows "req_safe n (racy_chain guest H mem vq head (s, h, w))"
proof (cases "read_chain mem (guest 0 h) vq head")
  case (Ok chain)
  note chain = this
  show ?thesis
  proof (cases "gather_readable_prefix mem (guest 1 (guest 0 h)) chain REQUEST_HEADER_LEN")
    case (Ok prefix)
    have "length prefix \<le> REQUEST_HEADER_LEN"
      using Ok prefix_loop_length [of mem "guest 1 (guest 0 h)" REQUEST_HEADER_LEN "dc_readable chain" "[]" prefix]
      by (simp add: gather_readable_prefix_def)
    then have "rust_slice prefix"
      by (simp add: rust_slice_def REQUEST_HEADER_LEN_def IN_HEADER_LEN_def)
    then have "req_safe n (dispatch_request H mem chain prefix (s, guest 2 (guest 1 (guest 0 h)), w))"
      using gathered_request_small [OF chain] by (intro dispatch_request_safe [OF ok n])
    moreover have "push_used mem vq head wl h' \<noteq> (Panic, h'')" for wl h' h''
      using push_used_no_panic [OF qs, of mem head wl h'] by auto
    ultimately show ?thesis
      using chain Ok
      by (auto simp: racy_chain_def Let_def req_safe_def vq_lift_def split: prod.splits result.splits)
  qed (use ok chain copying_no_panic in \<open>auto simp: racy_chain_def Let_def intro: req_safe_keep\<close>)
qed (use ok chain_loop_no_panic in \<open>auto simp: racy_chain_def read_chain_def Let_def intro: req_safe_keep\<close>)

text \<open>The part of memory that a request under interference can change.\<close>

lemma request_outside:
  assumes "buffers_only H" and "dispatch_request H mem chain prefix (s, h, w) = (r, s', h', w')" and "p \<notin> region_bytes mem"
  shows "h' p = h p"
  using req_confinedD [OF req_confined_request [OF assms(1), of mem chain prefix], of s w] assms(2,3)
  unfolding confined_def by (metis (no_types, lifting) case_prod_conv snd_conv)

lemma racy_chain_outside:
  assumes "buffers_only H" and g: "guest_writes mem guest" and p: "p \<notin> region_bytes mem"
    and run: "racy_chain guest H mem vq head (s, h, w) = (r, s', h', w')"
  shows "h' p = h p"
proof -
  have same: "guest i k p = k p" for i k
    using g p unfolding guest_writes_def by blast
  have push: "k' p = k p" if "push_used mem vq head wl (guest 3 k) = (x, k')" for wl k x k'
    using confinedD(1) [OF confined_push_used [of mem vq head wl] p, of "guest 3 k"] that same by simp
  have disp: "k' p = h p"
    if "dispatch_request H mem chain prefix (s, guest 2 (guest 1 (guest 0 h)), w) = (x, s2, k', w2)" for chain prefix x s2 k' w2
    using request_outside [OF assms(1) that p] by (simp add: same)
  show ?thesis
  proof (cases "read_chain mem (guest 0 h) vq head")
    case (Ok chain)
    note chain = this
    show ?thesis
    proof (cases "gather_readable_prefix mem (guest 1 (guest 0 h)) chain REQUEST_HEADER_LEN")
      case (Ok prefix)
      obtain x s2 h2 w2 where d: "dispatch_request H mem chain prefix (s, guest 2 (guest 1 (guest 0 h)), w) = (x, s2, h2, w2)"
        by (metis surj_pair)
      obtain y h3 where u: "push_used mem vq head (case x of Ok wl \<Rightarrow> wl | _ \<Rightarrow> 0) (guest 3 h2) = (y, h3)" by fastforce
      show ?thesis
        using run chain Ok d u push [OF u] disp [OF d] by (cases x) (simp_all add: racy_chain_def)
    qed (use run chain in \<open>auto simp: racy_chain_def Let_def same\<close>)
  qed (use run in \<open>auto simp: racy_chain_def Let_def same\<close>)
qed

section \<open>Queues under interference\<close>

text \<open>
  \<open>racy_reach H mem \<sigma>0 k \<sigma>\<close>: from \<open>\<sigma>0\<close>, the loop over a queue gets to \<open>\<sigma>\<close> after \<open>k\<close> chains, with
  the guest's memory and the host changing at every point in between.
\<close>

inductive racy_reach ::
  "'w host \<Rightarrow> guest_memory \<Rightarrow> virtqueue \<times> 'w req_state \<Rightarrow> nat \<Rightarrow> virtqueue \<times> 'w req_state \<Rightarrow> bool"
  for H mem \<sigma>0 where
  racy_start: "racy_reach H mem \<sigma>0 0 \<sigma>0"
| racy_env: "racy_reach H mem \<sigma>0 k (vq, s, h, w) \<Longrightarrow> guest_writes mem guest \<Longrightarrow>
    racy_reach H mem \<sigma>0 k (vq, s, guest i h, w')"
| racy_serve: "racy_reach H mem \<sigma>0 k (vq, s, h, w) \<Longrightarrow> guest_writes mem guest \<Longrightarrow>
    pop_avail mem h vq = (Ok (Some head), vq') \<Longrightarrow>
    racy_chain guest H mem vq' head (s, h, w) = (Ok (), \<sigma>) \<Longrightarrow>
    racy_reach H mem \<sigma>0 (Suc k) (vq', \<sigma>)"

lemma guest_writes_still: "guest_writes mem (\<lambda>_ h. h)"
  by (simp add: guest_writes_def)

text \<open>The server's own loop is one of these runs.\<close>

lemma process_loop_racy:
  assumes "racy_reach H mem \<sigma>0 k (vq, s, h, w)"
    and "process_loop fuel H mem vq k (s, h, w) = Some (Ok m, vq', \<sigma>')"
  shows "racy_reach H mem \<sigma>0 m (vq', \<sigma>')"
  using assms
proof (induction fuel arbitrary: k vq s h w)
  case (Suc fuel)
  obtain r1 vq1 where pop: "pop_avail mem h vq = (r1, vq1)" by fastforce
  show ?case
  proof (cases "\<exists>head. r1 = Ok (Some head)")
    case True
    then obtain head where head: "r1 = Ok (Some head)" by auto
    obtain r2 s2 h2 w2 where chain: "process_chain H mem vq1 head (s, h, w) = (r2, s2, h2, w2)"
      by (metis surj_pair)
    then have ok: "r2 = Ok ()" and rest: "process_loop fuel H mem vq1 (Suc k) (s2, h2, w2) = Some (Ok m, vq', \<sigma>')"
      using Suc.prems(2) pop head by (auto split: result.splits)
    have "racy_reach H mem \<sigma>0 (Suc k) (vq1, s2, h2, w2)"
      using racy_serve [OF Suc.prems(1) guest_writes_still pop [unfolded head]] chain ok
      by (simp add: racy_chain_still)
    then show ?thesis using rest by (rule Suc.IH)
  next
    case False
    with Suc.prems pop have "r1 = Ok None" "m = k" "vq' = vq1" "\<sigma>' = (s, h, w)"
      by (auto split: result.splits option.splits)
    moreover from pop this(1) have "vq1 = vq"
      by (auto simp: pop_avail_def Let_def split: option.splits if_splits)
    ultimately show ?thesis using Suc.prems(1) by simp
  qed
qed simp

lemma racy_reach_inv:
  assumes "racy_reach H mem \<sigma>0 k \<sigma>" and "\<sigma>0 = (vq0, s0, h0, w0)" and "buffers_only H"
    and "passthrough_ok n (ses_fs s0)" and "n + 2 * k < 2 ^ 64 - 1" and "vq_queue_size vq0 \<noteq> 0"
  shows "case \<sigma> of (vq, s, h, w) \<Rightarrow>
    passthrough_ok (n + 2 * k) (ses_fs s) \<and> vq_queue_size vq = vq_queue_size vq0 \<and>
    (\<forall>p. p \<notin> region_bytes mem \<longrightarrow> h p = h0 p)"
  using assms(1,5)
proof (induction rule: racy_reach.induct)
  case racy_start
  then show ?case using assms(2,4) by simp
next
  case (racy_env k vq s h w guest i w')
  have "guest i h p = h p" if "p \<notin> region_bytes mem" for p
    using racy_env.hyps(2) that unfolding guest_writes_def by blast
  then show ?case using racy_env.IH racy_env.prems by simp
next
  case (racy_serve k vq s h w guest head vq' \<sigma>)
  obtain s' h' w' where \<sigma>: "\<sigma> = (s', h', w')" by (metis surj_pair)
  have IH: "passthrough_ok (n + 2 * k) (ses_fs s)" "vq_queue_size vq = vq_queue_size vq0"
      "\<And>p. p \<notin> region_bytes mem \<Longrightarrow> h p = h0 p"
    using racy_serve.IH racy_serve.prems by auto
  have size: "vq_queue_size vq' = vq_queue_size vq0"
    using pop_avail_size [of mem h vq] racy_serve.hyps(3) IH(2) by simp
  have "req_safe (n + 2 * k) (racy_chain guest H mem vq' head (s, h, w))"
    using racy_serve.prems assms(6) size by (intro racy_chain_safe [OF IH(1)]) auto
  then have "passthrough_ok (n + 2 * Suc k) (ses_fs s')"
    using racy_serve.hyps(4) by (simp add: \<sigma> req_safe_def add.commute add.left_commute)
  with size racy_chain_outside [OF assms(3) racy_serve.hyps(2) _ racy_serve.hyps(4) [unfolded \<sigma>]] IH(3)
  show ?case by (simp add: \<sigma>)
qed

text \<open>
  C23. A guest cannot win a race against the device. It may rewrite its memory between any two
  requests and, within a request, between the chain walk, the look at the header, the dispatch and
  the used ring. After any number of requests served like this, the next look at the available
  ring and the next request do not panic, and no byte outside the regions of the memory table is
  changed. The runs include every run of the server's own loop.
\<close>

theorem racing_guest_is_harmless:
  assumes "buffers_only H" and "passthrough_ok n (ses_fs s0)" and "vq_queue_size vq0 \<noteq> 0"
    and "racy_reach H mem (vq0, s0, h0, w0) k (vq, s, h, w)" and "n + 2 * Suc k < 2 ^ 64 - 1"
    and "guest_writes mem guest" and "pop_avail mem h vq = (p, vq')"
    and "racy_chain guest H mem vq' head (s, h, w) = (r, s', h', w')"
  shows "p \<noteq> Panic \<and> r \<noteq> Panic \<and> (\<forall>a. a \<notin> region_bytes mem \<longrightarrow> h' a = h0 a) \<and>
    (\<forall>fuel m vq2 \<sigma>2. process_loop fuel H mem vq0 0 (s0, h0, w0) = Some (Ok m, vq2, \<sigma>2) \<longrightarrow>
       racy_reach H mem (vq0, s0, h0, w0) m (vq2, \<sigma>2))"
proof -
  have inv: "passthrough_ok (n + 2 * k) (ses_fs s)" "vq_queue_size vq \<noteq> 0"
      "\<And>a. a \<notin> region_bytes mem \<Longrightarrow> h a = h0 a"
    using racy_reach_inv [OF assms(4) refl assms(1,2)] assms(3,5) by auto
  have "p \<noteq> Panic" "vq_queue_size vq' \<noteq> 0"
    using pop_avail_no_panic [OF inv(2), of mem h] pop_avail_size [of mem h vq] inv(2) assms(7) by auto
  moreover from this(2) have "r \<noteq> Panic"
    using racy_chain_safe [OF inv(1), of vq' guest H mem head h w] assms(5,8) by (auto simp: req_safe_def)
  moreover have "h' a = h0 a" if "a \<notin> region_bytes mem" for a
    using racy_chain_outside [OF assms(1,6) that assms(8)] inv(3) [OF that] by simp
  ultimately show ?thesis
    by (intro conjI allI impI) (assumption | rule process_loop_racy [OF racy_start])+
qed

text \<open>A guest that turns the first descriptor into a loop as soon as the device has popped it.\<close>

definition looping_guest :: "nat \<Rightarrow> heap \<Rightarrow> heap" where
  "looping_guest i h = (if i = 0 then store (1, 0) (le64 5000 @ le32 8 @ le16 1 @ le16 0) h else h)"

lemma looping_guest_writes: "guest_writes two_pages looping_guest"
  by (auto simp: guest_writes_def looping_guest_def store_def two_pages_def region_bytes_def slice_bytes_def)

theorem racing_guest_is_harmless_witness:
  "\<exists>s' h' w'. racy_chain looping_guest mem_host two_pages (virtqueue_new 8 8192 9000 9500) 0
       (session_new mem_fs, \<lambda>_. 0, mem_world0) = (Err (Virtqueue ChainTooLong), s', h', w') \<and> h' (9, 0) = 0"
proof -
  let ?vq = "virtqueue_new 8 8192 9000 9500" and ?h = "\<lambda>_. 0 :: u8"
  obtain r s' h' w' where run: "racy_chain looping_guest mem_host two_pages ?vq 0
      (session_new mem_fs, ?h, mem_world0) = (r, s', h', w')"
    by (metis surj_pair)
  have "read_desc two_pages (looping_guest 0 ?h) ?vq 0 = Ok \<lparr>d_addr = 5000, d_len = 8, d_flags = 1, d_next = 0\<rparr>"
    by code_simp
  then have "read_chain two_pages (looping_guest 0 ?h) ?vq 0 = Err ChainTooLong"
    by (rule looping_chain_is_refused) (simp_all add: flag_on_def VIRTQ_DESC_F_NEXT_def VIRTQ_DESC_F_INDIRECT_def)
  with run have "r = Err (Virtqueue ChainTooLong)"
    by (simp add: racy_chain_def Let_def)
  moreover have pop: "pop_avail two_pages ?h ?vq = (Ok None, ?vq)"
    by code_simp
  moreover have ok: "passthrough_ok 2 (ses_fs (session_new mem_fs))"
    using passthrough_ok_new [OF mem_passthrough_new] by (simp add: session_new_def)
  moreover have "(9, 0) \<notin> region_bytes two_pages" "vq_queue_size ?vq \<noteq> 0"
    by (simp_all add: two_pages_def region_bytes_def slice_bytes_def virtqueue_new_def)
  with racing_guest_is_harmless [OF vectored_io_buffers_only [OF mem_host_vectored_io] ok _
      racy_start _ looping_guest_writes pop run]
  have "h' (9, 0) = 0" by simp
  ultimately show ?thesis using run by blast
qed

end
