(* ===== verification/Session_Types.thy ===== *)
theory Session_Types
  imports Readdir_Paging
begin

text \<open>
  What the listings cached by a session belong to (\<open>fuse/dispatch.rs\<close>). A cached listing is
  typed: its handle has been issued, is not the handle of a file, and its entries are none of
  \<open>.\<close> and \<open>..\<close>. Every request keeps the session typed, because no operation of the engine
  gives an id that has been issued another meaning. The second part follows one listing through
  a run of requests.
\<close>

section \<open>How operations change the handles\<close>

text \<open>An operation is still when it leaves the handle table as it is.\<close>

definition fs_still :: "('w, 'a) fs_op \<Rightarrow> bool" where
  "fs_still m \<longleftrightarrow> (\<forall>fs w. handles (fst (snd (m (fs, w)))) = handles fs)"

text \<open>
  The handle table evolves when an id that has been issued keeps its handle or loses it.
\<close>

definition handles_evolve :: "handle_store \<Rightarrow> handle_store \<Rightarrow> bool" where
  "handles_evolve s s' \<longleftrightarrow> handle_next_id s \<le> handle_next_id s' \<and>
     (\<forall>h < handle_next_id s. handle_map s' h = handle_map s h \<or> handle_map s' h = None)"

definition fs_evolves :: "('w, 'a) fs_op \<Rightarrow> bool" where
  "fs_evolves m \<longleftrightarrow> (\<forall>fs w. handle_next_id (handles fs) \<noteq> - 1 \<longrightarrow>
     handles_evolve (handles fs) (handles (fst (snd (m (fs, w))))))"

named_theorems still \<open>operations that leave the handle table as it is\<close>

lemma fs_stillI:
  "(\<And>fs w r fs' w'. m (fs, w) = (r, fs', w') \<Longrightarrow> handles fs' = handles fs) \<Longrightarrow> fs_still m"
  by (simp add: fs_still_def) (metis prod.collapse)

lemma handles_evolve_refl [simp]: "handles_evolve s s"
  by (simp add: handles_evolve_def)

lemma fs_still_evolves: "fs_still m \<Longrightarrow> fs_evolves m"
  by (simp add: fs_still_def fs_evolves_def)

lemma fs_still_bind [still]:
  assumes "fs_still m" and "\<And>v. fs_still (f v)"
  shows "fs_still (fs_bind m f)"
proof (rule fs_stillI)
  fix fs w r fs' w'
  assume run: "fs_bind m f (fs, w) = (r, fs', w')"
  obtain r1 fs1 w1 where m1: "m (fs, w) = (r1, fs1, w1)" by (metis surj_pair)
  then have "handles fs1 = handles fs"
    using assms(1) unfolding fs_still_def by (metis fst_conv snd_conv)
  moreover have "handles (fst (snd (f v (fs1, w1)))) = handles fs1" for v
    using assms(2) by (simp add: fs_still_def)
  ultimately show "handles fs' = handles fs"
    using run m1 by (cases r1) (auto simp: fs_bind_def, metis fst_conv snd_conv)
qed

lemma fs_still_pure [still]:
  "fs_still (fs_return v)"
  "fs_still (fs_lift r)"
  "fs_still (fs_sys H call)"
  "fs_still (fs_inode i)"
  "fs_still (fs_with_file H h file_call)"
  "fs_still (fs_open_child H d name)"
  "fs_still (fs_register H parent name d st)"
  "fs_still (fs_forget H i count)"
  "fs_still (fs_note_rename H p nm np nn)"
  "fs_still (fs_readdir H h)"
  by (auto simp: fs_still_def fs_return_def fs_lift_def fs_sys_def fs_inode_def fs_with_file_def
      fs_open_child_def fs_register_def fs_forget_def fs_note_rename_def fs_readdir_def
      split: prod.splits sum.splits)

lemma fs_still_fdopendir [still]:
  "fs_still (\<lambda>(fs, w). case call w of
     (Inl e, w') \<Rightarrow> (Err (fs_error_from_nix e), fs, w') | (Inr _, w') \<Rightarrow> (Ok (), fs, w'))"
  by (auto simp: fs_still_def split: prod.splits sum.splits)

lemma fs_still_prod [still]: "(\<And>a b. fs_still (f a b)) \<Longrightarrow> fs_still (case v of (a, b) \<Rightarrow> f a b)"
  by (cases v) simp

lemma fs_still_if [still]: "fs_still m \<Longrightarrow> fs_still m' \<Longrightarrow> fs_still (if b then m else m')"
  by simp

lemma fs_still_option [still]:
  "fs_still m \<Longrightarrow> (\<And>v. fs_still (f v)) \<Longrightarrow> fs_still (case x of None \<Rightarrow> m | Some v \<Rightarrow> f v)"
  by (cases x) simp_all

lemma fs_still_lookup [still]: "fs_still (fs_lookup H parent name)"
  unfolding fs_lookup_def by (intro still)

lemma fs_still_getattr [still]: "fs_still (fs_getattr H i)"
  unfolding fs_getattr_def by (intro still)

lemma fs_still_parent_fd_name [still]: "fs_still (parent_fd_name data)"
  unfolding parent_fd_name_def by (intro still)

lemma fs_still_reopen [still]: "fs_still (reopen_via_parent H i flags)"
  unfolding reopen_via_parent_def by (intro still)

lemma fs_still_ops [still]:
  "fs_still (fs_setattr H i a)"
  "fs_still (fs_mkdir H parent name mode)"
  "fs_still (fs_unlink H parent name)"
  "fs_still (fs_rmdir H parent name)"
  "fs_still (fs_rename H parent name new_parent new_name)"
  "fs_still (fs_symlink H parent name target_path)"
  "fs_still (fs_readlink H i)"
  "fs_still (fs_link H i new_parent new_name)"
  "fs_still (fs_read H h offset sz)"
  "fs_still (fs_write H h offset data)"
  "fs_still (fs_fsync H h)"
  "fs_still (fs_statfs H i)"
  unfolding fs_setattr_def fs_setattr_size_def fs_setattr_named_def fs_mkdir_def fs_unlink_def
    fs_rmdir_def fs_rename_def fs_symlink_def fs_readlink_def fs_link_def fs_read_def fs_write_def
    fs_fsync_def fs_statfs_def
  by (intro still)+

text \<open>The five operations that do change it.\<close>

named_theorems evolves \<open>operations under which the handle table evolves\<close>

lemma fs_evolves_bind [evolves]:
  assumes "fs_still m" and "\<And>v. fs_evolves (f v)"
  shows "fs_evolves (fs_bind m f)"
proof -
  have "handles_evolve (handles fs) (handles (fst (snd (fs_bind m f (fs, w)))))"
    if room: "handle_next_id (handles fs) \<noteq> - 1" for fs w
  proof -
    obtain r1 fs1 w1 where m1: "m (fs, w) = (r1, fs1, w1)" by (metis surj_pair)
    have "handles fs1 = handles fs"
      using assms(1) m1 unfolding fs_still_def by (metis fst_conv snd_conv)
    then show ?thesis
      using assms(2) room m1 by (cases r1) (simp_all add: fs_bind_def fs_evolves_def, metis)
  qed
  then show ?thesis by (simp add: fs_evolves_def)
qed

lemma fs_evolves_insert [evolves]: "fs_evolves (fs_insert_handle H d)"
  by (auto simp: fs_evolves_def fs_insert_handle_def handle_store_insert_def Let_def
      handles_evolve_def dest: word_less_succ intro: less_imp_le)

lemma fs_evolves_insert_return [evolves]:
  "fs_evolves (fs_bind (fs_insert_handle H d) (\<lambda>h. fs_return (g h)))"
  using fs_evolves_insert [of H d]
  by (simp add: fs_evolves_def fs_bind_def fs_return_def fs_insert_handle_def split: prod.splits)
    blast

lemma fs_evolves_drop [evolves]: "fs_evolves (fs_drop_handle H h)"
  by (auto simp: fs_evolves_def fs_drop_handle_def handle_store_remove_def handles_evolve_def
      split: prod.splits result.splits)

lemma fs_evolves_prod [evolves]:
  "(\<And>a b. fs_evolves (f a b)) \<Longrightarrow> fs_evolves (case v of (a, b) \<Rightarrow> f a b)"
  by (cases v) simp

lemma fs_evolves_ops [evolves]:
  "fs_evolves (fs_open H i flags)"
  "fs_evolves (fs_opendir H i)"
  "fs_evolves (fs_create H parent name cflags mode)"
  "fs_evolves (fs_release H h)"
  "fs_evolves (fs_releasedir H h)"
  unfolding fs_open_def fs_opendir_def fs_create_def fs_release_def fs_releasedir_def
  by (rule evolves still)+

section \<open>Invariants of the session that follow the handles\<close>

definition handler_keeps :: "(session \<Rightarrow> bool) \<Rightarrow> 'w handler \<Rightarrow> bool" where
  "handler_keeps I h \<longleftrightarrow>
     (\<forall>s w. handle_store_ok (handles (ses_fs s)) \<longrightarrow> handle_next_id (handles (ses_fs s)) \<noteq> - 1 \<longrightarrow>
        I s \<longrightarrow> I (fst (snd (h (s, w)))))"

named_theorems keeping \<open>handlers that keep an invariant of the session\<close>

lemma handler_keepsI:
  assumes "\<And>s w. handle_store_ok (handles (ses_fs s)) \<Longrightarrow> handle_next_id (handles (ses_fs s)) \<noteq> - 1 \<Longrightarrow>
     I s \<Longrightarrow> I (fst (snd (h (s, w))))"
  shows "handler_keeps I h"
  using assms by (simp add: handler_keeps_def)

lemma handler_keeps_done [keeping]: "handler_keeps I (done_reply r)"
  by (simp add: handler_keeps_def done_reply_def)

lemma handler_keeps_try_parse [keeping]:
  "(\<And>v. handler_keeps I (f v)) \<Longrightarrow> handler_keeps I (try_parse H unique r f)"
  by (cases r) (simp_all add: handler_keeps_def try_parse_def)

lemma handler_keeps_prod [keeping]:
  "(\<And>a b. handler_keeps I (f a b)) \<Longrightarrow> handler_keeps I (case v of (a, b) \<Rightarrow> f a b)"
  by (cases v) simp

lemma handler_keeps_now [keeping]:
  "(\<And>t. handler_keeps I (f t)) \<Longrightarrow> handler_keeps I (ses_now H f)"
  by (simp add: handler_keeps_def ses_now_def split: prod.splits)

lemma handler_keeps_setattr_time [keeping]:
  "(\<And>t. handler_keeps I (f t)) \<Longrightarrow> handler_keeps I (setattr_time H now given sec ns f)"
  by (auto simp: setattr_time_def intro: keeping)

text \<open>
  The interface between the engine and whatever a session keeps about handles: an invariant
  that survives every step by which the engine's handle table evolves. Every arm of the
  dispatcher but the two that touch the cache then keeps it.
\<close>

locale handle_invariant =
  fixes I :: "session \<Rightarrow> bool"
  assumes evolve: "\<And>s fs'. I s \<Longrightarrow> handles_evolve (handles (ses_fs s)) (handles fs') \<Longrightarrow>
     I (s\<lparr>ses_fs := fs'\<rparr>)"
begin

lemma keeps_try_fs:
  assumes "fs_still m" and "\<And>v. handler_keeps I (f v)"
  shows "handler_keeps I (try_fs H unique m f)"
proof (rule handler_keepsI)
  fix s :: session and w
  assume pre: "handle_store_ok (handles (ses_fs s))" "handle_next_id (handles (ses_fs s)) \<noteq> - 1" "I s"
  obtain r fs' w' where m: "m (ses_fs s, w) = (r, fs', w')" by (metis surj_pair)
  then have same: "handles fs' = handles (ses_fs s)"
    using assms(1) unfolding fs_still_def by (metis fst_conv snd_conv)
  then have "I (s\<lparr>ses_fs := fs'\<rparr>)"
    using evolve [OF pre(3)] by simp
  with assms(2) m pre same show "I (fst (snd (try_fs H unique m f (s, w))))"
    by (cases r) (auto simp: try_fs_def handler_keeps_def)
qed

lemma keeps_try_fs_last:
  assumes "fs_evolves m"
  shows "handler_keeps I (try_fs H unique m (\<lambda>v. done_reply (g v)))"
proof (rule handler_keepsI)
  fix s :: session and w
  assume pre: "handle_next_id (handles (ses_fs s)) \<noteq> - 1" "I s"
  obtain r fs' w' where m: "m (ses_fs s, w) = (r, fs', w')" by (metis surj_pair)
  then have "handles_evolve (handles (ses_fs s)) (handles fs')"
    using assms pre(1) unfolding fs_evolves_def by (metis fst_conv snd_conv)
  then have "I (s\<lparr>ses_fs := fs'\<rparr>)" using evolve [OF pre(2)] by simp
  with m show "I (fst (snd (try_fs H unique m (\<lambda>v. done_reply (g v)) (s, w))))"
    by (cases r) (auto simp: try_fs_def done_reply_def)
qed

lemma keeps_replies:
  "fs_evolves m \<Longrightarrow> handler_keeps I (reply_empty H unique m)"
  "fs_evolves m' \<Longrightarrow> handler_keeps I (reply_handle H unique m')"
  "fs_still m'' \<Longrightarrow> handler_keeps I (reply_entry H unique m'')"
  unfolding reply_empty_def reply_handle_def reply_entry_def
  by (intro keeps_try_fs_last keeps_try_fs keeping; assumption)+

lemma keeps_batch_forget: "handler_keeps I (handle_batch_forget H unique body)"
proof -
  have "handler_keeps I
      (foldr (\<lambda>e f. try_fs H unique (fs_forget H (forget_nodeid e) (forget_one_nlookup e)) (\<lambda>_. f))
        entries (done_reply ReplyNone))" for entries
    by (induction entries) (auto intro: keeping keeps_try_fs still)
  then show ?thesis
    unfolding handle_batch_forget_def by (intro keeping)
qed

lemma keeps_create: "handler_keeps I (handle_create H unique nodeid body)"
proof -
  have "handler_keeps I (try_fs H unique (fs_create H nodeid name fl md)
      (\<lambda>(i, h, a). done_reply (ok_reply unique (entry_out i a @ open_out h))))" for name fl md
    using keeps_try_fs_last [OF fs_evolves_ops(3),
        of H unique H nodeid name fl md "\<lambda>(i, h, a). ok_reply unique (entry_out i a @ open_out h)"]
    by (simp add: case_prod_unfold)
  then show ?thesis
    unfolding handle_create_def by (intro keeping)
qed

lemma keeps_setattr: "handler_keeps I (handle_setattr H unique nodeid body)"
  unfolding handle_setattr_def Let_def by (intro keeping keeps_try_fs still)

lemma keeps_op:
  assumes "opc \<noteq> OpReaddir" and "opc \<noteq> OpReleasedir"
  shows "handler_keeps I (handle_op H opc unique nodeid body)"
proof (cases opc)
  case OpSymlink
  then show ?thesis
    by (auto simp: handle_op_def handle_symlink_def
        intro: keeping keeps_replies still split: list.splits)
next
  case OpCreate
  then show ?thesis by (simp add: handle_op_def keeps_create)
next
  case OpBatchForget
  then show ?thesis by (simp add: handle_op_def keeps_batch_forget)
next
  case OpSetattr
  then show ?thesis by (simp add: handle_op_def keeps_setattr)
qed (use assms in \<open>simp_all only: handle_op_defs opcode.case Let_def\<close>;
    (intro keeping keeps_replies keeps_try_fs still evolves fs_still_evolves; fail)?)+

end

section \<open>Typed sessions\<close>

definition listing_plain :: "dir_entry list \<Rightarrow> bool" where
  "listing_plain es \<longleftrightarrow> (\<forall>e \<in> set es. dent_name e \<noteq> [46] \<and> dent_name e \<noteq> [46, 46])"

definition session_typed :: "session \<Rightarrow> bool" where
  "session_typed s \<longleftrightarrow> (\<forall>h es. readdir_cache s h = Some es \<longrightarrow>
     h < handle_next_id (handles (ses_fs s)) \<and>
     (\<forall>d. handle_map (handles (ses_fs s)) h \<noteq> Some (FileHandle d)) \<and> listing_plain es)"

lemma readdir_collect_plain: "readdir_collect items = Ok es \<Longrightarrow> listing_plain es"
proof (induction items arbitrary: es rule: readdir_collect.induct)
  case 1
  then show ?case by (simp add: listing_plain_def)
next
  case (2 e xs)
  then show ?case by simp
next
  case (3 d xs)
  show ?case
  proof (cases "de_name d = [46] \<or> de_name d = [46, 46]")
    case True
    with 3 show ?thesis by simp
  next
    case False
    then obtain out where "readdir_collect xs = Ok out"
        "es = \<lparr>dent_name = de_name d, dent_ino = de_ino d, dent_kind = dirent_kind (de_type d),
           dent_next_offset = 0\<rparr> # out"
      using 3(3) by (cases "readdir_collect xs") simp_all
    with 3(2) [OF False] False show ?thesis
      by (simp add: listing_plain_def)
  qed
qed

interpretation typing: handle_invariant session_typed
proof
  fix s :: session and fs' :: passthrough_fs
  assume typed: "session_typed s" and ev: "handles_evolve (handles (ses_fs s)) (handles fs')"
  show "session_typed (s\<lparr>ses_fs := fs'\<rparr>)"
    unfolding session_typed_def
  proof (intro allI impI)
    fix h es
    assume "readdir_cache (s\<lparr>ses_fs := fs'\<rparr>) h = Some es"
    then have h: "h < handle_next_id (handles (ses_fs s))" "listing_plain es"
        "\<forall>d. handle_map (handles (ses_fs s)) h \<noteq> Some (FileHandle d)"
      using typed by (auto simp: session_typed_def)
    then have "handle_map (handles fs') h = handle_map (handles (ses_fs s)) h \<or>
        handle_map (handles fs') h = None" "h < handle_next_id (handles fs')"
      using ev by (auto simp: handles_evolve_def)
    with h show "h < handle_next_id (handles (ses_fs (s\<lparr>ses_fs := fs'\<rparr>))) \<and>
        (\<forall>d. handle_map (handles (ses_fs (s\<lparr>ses_fs := fs'\<rparr>))) h \<noteq> Some (FileHandle d)) \<and>
        listing_plain es"
      by auto
  qed
qed

text \<open>A listing comes from an open directory handle.\<close>

lemma fs_readdir_Ok:
  assumes "fs_readdir H h (fs, w) = (Ok es, fs', w')"
  shows "fs' = fs" and "\<exists>d. handle_map (handles fs) h = Some (DirHandle d)" and "listing_plain es"
  using assms readdir_collect_plain
  by (auto simp: fs_readdir_def handle_store_with_dir_def
      split: prod.splits option.splits handle_data.splits)

lemma fs_readdir_same: "fs_readdir H h (fs, w) = (r, fs', w') \<Longrightarrow> fs' = fs"
  by (simp add: fs_readdir_def split: prod.splits)

text \<open>The three ways a parsed \<open>READDIR\<close> can go, for the session.\<close>

lemma handle_readdir_session:
  assumes "read_in_from_bytes body = Ok r"
  shows "fst (snd (handle_readdir H unique body (s, w))) =
     (if read_offset r = 0 \<or> readdir_cache s (read_fh r) = None
      then case fs_readdir H (read_fh r) (ses_fs s, w) of
             (Ok es, _) \<Rightarrow> s\<lparr>readdir_cache := (readdir_cache s)(read_fh r \<mapsto> es)\<rparr>
           | _ \<Rightarrow> s
      else s)"
proof -
  obtain q fs' w' where run: "fs_readdir H (read_fh r) (ses_fs s, w) = (q, fs', w')"
    by (metis surj_pair)
  from fs_readdir_same [OF this] show ?thesis
    using assms run
    by (cases q) (simp_all add: handle_readdir_def try_parse_def try_fs_def done_reply_def Let_def)
qed

lemma typed_readdir: "handler_keeps session_typed (handle_readdir H unique body)"
proof (cases "read_in_from_bytes body")
  case (Ok r)
  show ?thesis
  proof (rule handler_keepsI)
    fix s :: session and w :: 'a
    assume ok: "handle_store_ok (handles (ses_fs s))" and typed: "session_typed s"
    have "session_typed (s\<lparr>readdir_cache := (readdir_cache s)(read_fh r \<mapsto> es)\<rparr>)"
      if "fs_readdir H (read_fh r) (ses_fs s, w) = (Ok es, fs', w')" for es fs' w'
      using fs_readdir_Ok [OF that] ok typed
      by (auto simp: session_typed_def handle_store_ok_def)
    with typed show "session_typed (fst (snd (handle_readdir H unique body (s, w))))"
      by (simp add: handle_readdir_session [OF Ok] split: prod.split result.split) blast
  qed
qed (simp_all add: handler_keeps_def handle_readdir_def try_parse_def)

lemma handler_keeps_releasedir:
  assumes inv: "handle_invariant I"
    and drop: "\<And>s rel. release_in_from_bytes body = Ok rel \<Longrightarrow> I s \<Longrightarrow>
      I (s\<lparr>readdir_cache := (readdir_cache s)(release_fh rel := None)\<rparr>)"
  shows "handler_keeps I (handle_releasedir H unique body)"
proof (cases "release_in_from_bytes body")
  case (Ok rel)
  have "handler_keeps I (try_fs H unique (fs_releasedir H (release_fh rel))
      (\<lambda>_. done_reply (ok_reply unique [])))"
    by (intro handle_invariant.keeps_try_fs_last [OF inv] evolves)
  then show ?thesis
    using drop [OF Ok] by (simp add: handler_keeps_def handle_releasedir_def try_parse_def Ok)
qed (simp_all add: handler_keeps_def handle_releasedir_def try_parse_def)

lemma typed_releasedir: "handler_keeps session_typed (handle_releasedir H unique body)"
  by (rule handler_keeps_releasedir [OF typing.handle_invariant_axioms])
    (simp add: session_typed_def)

lemma handler_keeps_session_handle:
  assumes "handle_invariant I"
    and "\<And>unique header. in_header_from_bytes b = Ok header \<Longrightarrow> opcode_from (ih_opcode header) = OpReaddir \<Longrightarrow>
      handler_keeps I (handle_readdir H unique (in_header_body b))"
    and "\<And>unique header. in_header_from_bytes b = Ok header \<Longrightarrow> opcode_from (ih_opcode header) = OpReleasedir \<Longrightarrow>
      handler_keeps I (handle_releasedir H unique (in_header_body b))"
  shows "handler_keeps I (session_handle H b)"
proof (cases "in_header_from_bytes b")
  case (Ok header)
  show ?thesis
  proof (cases "opcode_from (ih_opcode header) = OpReaddir \<or> opcode_from (ih_opcode header) = OpReleasedir")
    case True
    with assms(2,3) [of header] show ?thesis
      by (auto simp: session_handle_def handle_op_def Ok)
  next
    case False
    then show ?thesis
      by (simp add: session_handle_def Ok handle_invariant.keeps_op [OF assms(1)])
  qed
qed (simp_all add: session_handle_def handler_keeps_done, simp add: handler_keeps_def)

lemma typed_session_handle: "handler_keeps session_typed (session_handle H b)"
  using typing.handle_invariant_axioms typed_readdir typed_releasedir
  by (rule handler_keeps_session_handle)

text \<open>What every request of a run keeps, the run keeps.\<close>

lemma session_run_keeps:
  assumes "passthrough_ok n (ses_fs s)" and "\<forall>b \<in> set bs. rust_slice b"
    and "n + 2 * length bs < 2 ^ 64 - 1"
    and "\<And>b. b \<in> set bs \<Longrightarrow> handler_keeps I (session_handle H b)" and "I s"
  shows "\<exists>rs s' w'. session_run H bs (s, w) = (Some rs, s', w') \<and> list_all2 answers bs rs \<and>
     passthrough_ok (n + 2 * length bs) (ses_fs s') \<and> I s'"
  using assms
proof (induction bs arbitrary: n s w)
  case Nil
  then show ?case by simp
next
  case (Cons b bs)
  have b: "rust_slice b" "n + 2 < 2 ^ 64 - 1"
    using Cons.prems by auto
  obtain r s1 w1 where r: "session_handle H b (s, w) = (Some r, s1, w1)" "answers b r"
      and s1: "passthrough_ok (n + 2) (ses_fs s1)"
    using handler_safeE [OF handler_safe_session_handle [OF b(1)] Cons.prems(1) b(2)]
    unfolding answers_def by metis
  have "unat (handle_next_id (handles (ses_fs s))) \<le> n" "n < 2 ^ 64 - 1"
    using Cons.prems(1) b(2) by (simp_all add: passthrough_ok_def)
  then have hs: "handle_store_ok (handles (ses_fs s))" "handle_next_id (handles (ses_fs s)) \<noteq> - 1"
    using Cons.prems(1) not_max_of_bound by (simp_all add: passthrough_ok_def)
  have "I (fst (snd (session_handle H b (s, w))))"
    using Cons.prems(4) [of b] hs Cons.prems(5) by (simp add: handler_keeps_def)
  then have s1': "I s1" by (simp add: r(1))
  have rest: "\<forall>b \<in> set bs. rust_slice b" "n + 2 + 2 * length bs < 2 ^ 64 - 1"
    using Cons.prems(2,3) by simp_all
  have keep: "handler_keeps I (session_handle H c)" if "c \<in> set bs" for c
    using Cons.prems(4) [of c] that by simp
  obtain rs s2 w2 where "session_run H bs (s1, w1) = (Some rs, s2, w2)"
      "list_all2 answers bs rs" "passthrough_ok (n + 2 + 2 * length bs) (ses_fs s2)" "I s2"
    using Cons.IH [OF s1 rest keep s1', where w = w1] by blast
  with r have "session_run H (b # bs) (s, w) = (Some (r # rs), s2, w2)"
      "list_all2 answers (b # bs) (r # rs)"
      "passthrough_ok (n + 2 * length (b # bs)) (ses_fs s2)" "I s2"
    by (simp_all add: ac_simps)
  then show ?case by blast
qed

text \<open>
  C9. The tables of a session stay typed. After any requests, well formed or not, every cached
  directory listing belongs to a handle id that has been issued and is not the id of an open
  file, and none of its entries is \<open>.\<close> or \<open>..\<close>; the inode and handle tables are well formed.
\<close>

theorem session_stays_typed:
  assumes "passthrough_new H dir w0 = (Ok fs, w1)" and "\<forall>b \<in> set bs. rust_slice b"
    and "2 + 2 * length bs < 2 ^ 64 - 1"
  shows "\<exists>rs s' w'. session_run H bs (session_new fs, w1) = (Some rs, s', w') \<and>
     session_typed s' \<and> passthrough_ok (2 + 2 * length bs) (ses_fs s')"
proof -
  have "passthrough_ok 2 (ses_fs (session_new fs))" "session_typed (session_new fs)"
    using passthrough_ok_new [OF assms(1)] by (simp_all add: session_new_def session_typed_def)
  from session_run_keeps [OF this(1) assms(2,3) typed_session_handle this(2), where H = H and w = w1]
  show ?thesis
    by blast
qed

theorem session_stays_typed_witness:
  "\<exists>rs s' w'. session_run mem_host
       [fuse_request 27 2 1 (le32 0 @ le32 0), fuse_request 28 3 1 (le64 1 @ le64 0 @ le32 4096)]
       (session_new mem_fs, mem_world1) = (Some rs, s', w') \<and>
     session_typed s' \<and> passthrough_ok 6 (ses_fs s')"
  using session_stays_typed [OF mem_passthrough_new, of
      "[fuse_request 27 2 1 (le32 0 @ le32 0), fuse_request 28 3 1 (le64 1 @ le64 0 @ le32 4096)]"]
  by (simp add: rust_slice_def del: session_run.simps)

section \<open>One listing through a run of requests\<close>

text \<open>A \<open>READDIR\<close> request, as the dispatcher reads it.\<close>

definition readdir_request :: "bytes \<Rightarrow> (u64 \<times> read_in) option" where
  "readdir_request b =
     (case in_header_from_bytes b of
        Ok header \<Rightarrow>
          if opcode_from (ih_opcode header) = OpReaddir
          then case read_in_from_bytes (in_header_body b) of
                 Ok r \<Rightarrow> Some (ih_unique header, r) | _ \<Rightarrow> None
          else None
      | _ \<Rightarrow> None)"

text \<open>The requests that give up the listing of a handle: a new first page, and \<open>RELEASEDIR\<close>.\<close>

definition resets_listing :: "u64 \<Rightarrow> bytes \<Rightarrow> bool" where
  "resets_listing fh b =
     (case in_header_from_bytes b of
        Ok header \<Rightarrow>
          (case opcode_from (ih_opcode header) of
             OpReaddir \<Rightarrow>
               (case read_in_from_bytes (in_header_body b) of
                  Ok r \<Rightarrow> read_fh r = fh \<and> read_offset r = 0 | _ \<Rightarrow> False)
           | OpReleasedir \<Rightarrow>
               (case release_in_from_bytes (in_header_body b) of
                  Ok rel \<Rightarrow> release_fh rel = fh | _ \<Rightarrow> False)
           | _ \<Rightarrow> False)
      | _ \<Rightarrow> False)"

abbreviation listed :: "u64 \<Rightarrow> dir_entry list \<Rightarrow> session \<Rightarrow> bool" where
  "listed fh es s \<equiv> readdir_cache s fh = Some es"

interpretation tracking: handle_invariant "listed fh es" for fh es
  by unfold_locales simp

lemma listed_readdir:
  assumes "\<And>r. read_in_from_bytes body = Ok r \<Longrightarrow> \<not> (read_fh r = fh \<and> read_offset r = 0)"
  shows "handler_keeps (listed fh es) (handle_readdir H unique body)"
proof (cases "read_in_from_bytes body")
  case (Ok r)
  then show ?thesis
    using assms [OF Ok]
    by (simp add: handler_keeps_def handle_readdir_session split: prod.split result.split) auto
qed (simp_all add: handler_keeps_def handle_readdir_def try_parse_def)

lemma listed_session_handle:
  assumes "\<not> resets_listing fh b"
  shows "handler_keeps (listed fh es) (session_handle H b)"
proof (rule handler_keeps_session_handle [OF tracking.handle_invariant_axioms])
  fix unique header
  assume header: "in_header_from_bytes b = Ok header"
  show "handler_keeps (listed fh es) (handle_readdir H unique (in_header_body b))"
    if "opcode_from (ih_opcode header) = OpReaddir"
    using assms that by (intro listed_readdir) (simp add: resets_listing_def header)
  show "handler_keeps (listed fh es) (handle_releasedir H unique (in_header_body b))"
    if "opcode_from (ih_opcode header) = OpReleasedir"
    using assms that
    by (intro handler_keeps_releasedir [OF tracking.handle_invariant_axioms])
      (auto simp: resets_listing_def header)
qed

lemma session_handle_readdir:
  assumes "readdir_request b = Some (u, r)"
  shows "session_handle H b = handle_readdir H u (in_header_body b)"
    and "read_in_from_bytes (in_header_body b) = Ok r"
  using assms
  by (auto simp: readdir_request_def session_handle_def handle_op_def split: result.splits if_splits)

lemma first_page:
  assumes "readdir_request b = Some (u, r)" and "read_offset r = 0"
    and "fs_readdir H (read_fh r) (ses_fs s, w) = (Ok es, fs', w')"
  shows "session_handle H b (s, w) = (Some (ok_reply u (readdir_page (read_size r) 0 es)),
     s\<lparr>readdir_cache := (readdir_cache s)(read_fh r \<mapsto> es)\<rparr>, w')"
  using assms(2,3) fs_readdir_same [OF assms(3)]
  by (simp add: session_handle_readdir [OF assms(1)] handle_readdir_def try_parse_def try_fs_def
      done_reply_def Let_def)

lemma session_run_snoc:
  assumes "session_run H bs \<sigma> = (Some rs, \<sigma>')" and "session_handle H b \<sigma>' = (Some r, \<sigma>'')"
  shows "session_run H (bs @ [b]) \<sigma> = (Some (rs @ [r]), \<sigma>'')"
  using assms(1)
proof (induction bs arbitrary: \<sigma> rs)
  case Nil
  with assms(2) show ?case by simp
next
  case (Cons c cs)
  then show ?case by (auto split: prod.splits option.splits)
qed

text \<open>
  C20. A listing is a snapshot. Once the first page of a directory has been read, every later
  page of the same handle is cut from the listing taken then, whatever requests come in
  between, those that change the directory included, until the first page is read again or the
  handle is given back by \<open>RELEASEDIR\<close>.
\<close>

theorem listing_is_a_snapshot:
  assumes "passthrough_ok n (ses_fs s)" and "n + 2 * length bs < 2 ^ 64 - 1"
    and "\<forall>b \<in> set bs. rust_slice b"
    and "readdir_request b0 = Some (u0, r0)" and "read_offset r0 = 0"
    and "fs_readdir H (read_fh r0) (ses_fs s, w) = (Ok es, fs1, w1)"
    and "\<forall>b \<in> set bs. \<not> resets_listing (read_fh r0) b"
    and "readdir_request b = Some (u, r)" and "read_fh r = read_fh r0" and "read_offset r \<noteq> 0"
  shows "\<exists>rs s' w'. session_run H (b0 # bs @ [b]) (s, w) =
     (Some (ok_reply u0 (readdir_page (read_size r0) 0 es) # rs @
        [ok_reply u (readdir_page (read_size r) (read_offset r) es)]), s', w') \<and>
     list_all2 answers bs rs"
proof -
  let ?s1 = "s\<lparr>readdir_cache := (readdir_cache s)(read_fh r0 \<mapsto> es)\<rparr>"
  have s1: "passthrough_ok n (ses_fs ?s1)" "listed (read_fh r0) es ?s1"
    using assms(1) by simp_all
  have keep: "handler_keeps (listed (read_fh r0) es) (session_handle H c)" if "c \<in> set bs" for c
    using assms(7) that by (intro listed_session_handle) blast
  obtain rs s' w' where run: "session_run H bs (?s1, w1) = (Some rs, s', w')" "list_all2 answers bs rs"
      and cached: "readdir_cache s' (read_fh r0) = Some es"
    using session_run_keeps [OF s1(1) assms(3,2) keep s1(2), where w = w1] by blast
  have "session_handle H b (s', w') =
      (Some (ok_reply u (readdir_page (read_size r) (read_offset r) es)), s', w')"
    using readdir_cached_page [OF session_handle_readdir(2) [OF assms(8)] assms(10)] cached assms(9)
    by (simp add: session_handle_readdir(1) [OF assms(8)])
  from session_run_snoc [OF run(1) this] first_page [OF assms(4-6)] run(2) show ?thesis
    by simp
qed

text \<open>A directory with two entries and, between them, a dot entry, which is not listed.\<close>

definition listing_host :: "mem_world host" where
  "listing_host = mem_host\<lparr>sys_readdir := (\<lambda>d w.
     ([Inr \<lparr>de_name = name_f, de_ino = 11, de_type = Some DtFile\<rparr>,
       Inr \<lparr>de_name = [46], de_ino = 10, de_type = Some DtDirectory\<rparr>,
       Inr \<lparr>de_name = [103], de_ino = 12, de_type = None\<rparr>], w))\<rparr>"

theorem listing_is_a_snapshot_witness:
  "\<exists>rs s' w'. session_run listing_host
     [fuse_request 28 3 1 (le64 1 @ le64 0 @ le32 32), fuse_request 10 4 1 [102, 0],
      fuse_request 28 5 1 (le64 1 @ le64 1 @ le32 32)]
     (session_new (mem_fs\<lparr>handles := \<lparr>handle_map = [1 \<mapsto> DirHandle 4], handle_next_id = 2\<rparr>\<rparr>),
      mem_world1) =
     (Some (ok_reply 3 (le64 11 @ le64 1 @ le32 1 @ le32 8 @ [102, 0, 0, 0, 0, 0, 0, 0]) # rs @
        [ok_reply 5 (le64 12 @ le64 2 @ le32 1 @ le32 0 @ [103, 0, 0, 0, 0, 0, 0, 0])]), s', w')"
proof -
  let ?fs = "mem_fs\<lparr>handles := \<lparr>handle_map = [1 \<mapsto> DirHandle 4], handle_next_id = 2\<rparr>\<rparr>"
  let ?es = "[\<lparr>dent_name = [102], dent_ino = 11, dent_kind = Regular, dent_next_offset = 0\<rparr>,
      \<lparr>dent_name = [103], dent_ino = 12, dent_kind = Other, dent_next_offset = 0\<rparr>]"
  let ?b = "\<lambda>u off. fuse_request 28 u 1 (le64 1 @ le64 off @ le32 32)"
  have req: "readdir_request (?b u off) = Some (u, \<lparr>read_fh = 1, read_offset = off, read_size = 32\<rparr>)"
    for u off
    by (simp add: readdir_request_def fuse_request_raw in_header_from_bytes_eq rust_slice_def
        in_header_body_def IN_HEADER_LEN_def)
      (simp add: raw_request_def word_at_append_right opcode_from_def read_in_from_bytes_eq rust_slice_def)
  have list: "fs_readdir listing_host 1 (ses_fs (session_new ?fs), mem_world1) =
      (Ok ?es, ?fs, mem_world1)"
    by (simp add: session_new_def fs_readdir_def handle_store_with_dir_def listing_host_def
        dirent_kind_def)
  have ok: "passthrough_ok 2 (ses_fs (session_new ?fs))"
    using passthrough_ok_new [OF mem_passthrough_new]
    by (simp add: session_new_def passthrough_ok_def handle_store_ok_def)
  have keep: "\<not> resets_listing 1 (fuse_request 10 4 1 [102, 0])"
    by (simp add: resets_listing_def fuse_request_raw in_header_from_bytes_eq rust_slice_def
        IN_HEADER_LEN_def)
      (simp add: raw_request_def word_at_append_right opcode_from_def)
  have pad: "replicate 7 (0 :: u8) = [0, 0, 0, 0, 0, 0, 0]"
    by (simp add: numeral_eq_Suc)
  have "readdir_page 32 0 ?es = le64 11 @ le64 1 @ le32 1 @ le32 8 @ [102, 0, 0, 0, 0, 0, 0, 0]"
       "readdir_page 32 1 ?es = le64 12 @ le64 2 @ le32 1 @ le32 0 @ [103, 0, 0, 0, 0, 0, 0, 0]"
    by (simp_all add: readdir_page_eq dirent_size_def dirent_bytes_def DT_REG_def DT_UNKNOWN_def pad)
  with listing_is_a_snapshot [OF ok, of "[fuse_request 10 4 1 [102, 0]]" "?b 3 0" 3 _ listing_host
      mem_world1 ?es _ mem_world1 "?b 5 1" 5, OF _ _ req _ _ _ req] list keep
  show ?thesis
    by (simp add: rust_slice_def del: session_run.simps list_all2_Cons1) blast
qed

end
