(* ===== verification/Guest_Driver.thy ===== *)
theory Guest_Driver
  imports Queue_Service Control_Properties
begin

text \<open>
  The other side of the shared memory: the guest's driver, as the test support of
  \<open>vhost_user/server.rs\<close> has it (\<open>TestQueue\<close>). It sets up a vring over the control connection,
  places requests in buffers it allocates one after the other, links them into a descriptor chain,
  publishes the chain, kicks, waits to be called and reads the used ring. The theory composes this
  driver with the server: for the driver, a request put through guest memory and a turn of the
  event loop is a call of the session.
\<close>

section \<open>The driver\<close>

definition TEST_QUEUE_SIZE :: u16 where "TEST_QUEUE_SIZE = 64"

text \<open>
  The thread that runs the server is the server's state in what follows. The driver's own mapping
  of the memory file shows the same bytes as the server's, so one mapping stands for both.
\<close>

record test_queue =
  tq_guest_mem :: guest_memory
  tq_desc_addr :: u64
  tq_avail_addr :: u64
  tq_used_addr :: u64
  tq_call_r :: fd
  tq_kick_w :: fd
  tq_next_gpa :: u64
  tq_next_desc_idx :: u16
  tq_avail_idx :: u16

text \<open>A failed \<open>unwrap\<close> or assertion of the driver is \<open>None\<close>.\<close>

definition readable_buf :: "bytes \<Rightarrow> test_queue \<times> heap \<Rightarrow> ((u64 \<times> u32) \<times> test_queue \<times> heap) option" where
  "readable_buf data = (\<lambda>(tq, h).
     let addr = tq_next_gpa tq in
     case get_slice_mut (tq_guest_mem tq) Gpa addr (of_nat (length data)) of
       None \<Rightarrow> None
     | Some s \<Rightarrow> Some ((addr, of_nat (length data)),
                  tq\<lparr>tq_next_gpa := addr + of_nat (length data)\<rparr>, store (fst s) data h))"

definition writable_buf :: "u32 \<Rightarrow> test_queue \<Rightarrow> (u64 \<times> u32) \<times> test_queue" where
  "writable_buf len tq = ((tq_next_gpa tq, len), tq\<lparr>tq_next_gpa := tq_next_gpa tq + ucast len\<rparr>)"

text \<open>The loop of \<open>write_chain\<close>: one descriptor per segment, linked to the one after it.\<close>

fun write_descs :: "(u64 \<times> u32 \<times> bool) list \<Rightarrow> test_queue \<times> heap \<Rightarrow> (test_queue \<times> heap) option" where
  "write_descs [] (tq, h) = Some (tq, h)"
| "write_descs ((addr, len, writable) # segs) (tq, h) =
     (let idx = tq_next_desc_idx tq;
          flags = (if writable then 2 else 0) OR (if segs = [] then 0 else 1);
          nxt = (if segs = [] then 0 else idx + 1);
          off = tq_desc_addr tq + ucast idx * 16;
          mem = tq_guest_mem tq
      in case get_slice_mut mem User off 8 of
           None \<Rightarrow> None
         | Some s \<Rightarrow>
             (case mem_write_u32 mem User (off + 8) len (store (fst s) (le64 addr) h) of
                None \<Rightarrow> None
              | Some h1 \<Rightarrow>
                  (case mem_write_u16 mem User (off + 12) flags h1 of
                     None \<Rightarrow> None
                   | Some h2 \<Rightarrow>
                       (case mem_write_u16 mem User (off + 14) nxt h2 of
                          None \<Rightarrow> None
                        | Some h3 \<Rightarrow> write_descs segs (tq\<lparr>tq_next_desc_idx := idx + 1\<rparr>, h3)))))"

definition write_chain :: "(u64 \<times> u32 \<times> bool) list \<Rightarrow> test_queue \<times> heap \<Rightarrow> (u16 \<times> test_queue \<times> heap) option" where
  "write_chain segs = (\<lambda>(tq, h). map_option (\<lambda>\<sigma>. (tq_next_desc_idx tq, \<sigma>)) (write_descs segs (tq, h)))"

text \<open>
  The three parts of \<open>submit_and_wait\<close>: publishing the head, waiting for the call, and reading
  the last entry of the used ring.
\<close>

definition publish_head :: "u16 \<Rightarrow> test_queue \<times> heap \<Rightarrow> (test_queue \<times> heap) option" where
  "publish_head head = (\<lambda>(tq, h).
     let slot = tq_avail_idx tq mod TEST_QUEUE_SIZE;
         avail_idx = tq_avail_idx tq + 1
     in case mem_write_u16 (tq_guest_mem tq) User (tq_avail_addr tq + 4 + ucast slot * 2) head h of
          None \<Rightarrow> None
        | Some h1 \<Rightarrow>
            map_option (Pair (tq\<lparr>tq_avail_idx := avail_idx\<rparr>))
              (mem_write_u16 (tq_guest_mem tq) User (tq_avail_addr tq + 2) avail_idx h1))"

definition wait_for_call :: "'w vmm \<Rightarrow> fd \<Rightarrow> 'w \<Rightarrow> 'w option" where
  "wait_for_call V call_r w =
     (case sys_poll V [call_r] w of
        (Inr [revents], w1) \<Rightarrow> if revents = 0 then None else Some (snd (sys_read V call_r 64 w1))
      | _ \<Rightarrow> None)"

definition last_used :: "test_queue \<Rightarrow> heap \<Rightarrow> (u32 \<times> u32) option" where
  "last_used tq h =
     (case mem_read_u16 (tq_guest_mem tq) h User (tq_used_addr tq + 2) of
        None \<Rightarrow> None
      | Some used_idx \<Rightarrow>
          let slot = (used_idx - 1) mod TEST_QUEUE_SIZE;
              elem_off = tq_used_addr tq + 4 + ucast slot * 8
          in case mem_read_u32 (tq_guest_mem tq) h User elem_off of
               None \<Rightarrow> None
             | Some used_id \<Rightarrow>
                 map_option (Pair used_id) (mem_read_u32 (tq_guest_mem tq) h User (elem_off + 4)))"

text \<open>The server's thread wakes up in between; it takes one turn of its loop.\<close>

definition submit_and_wait ::
  "nat \<Rightarrow> 'w host \<Rightarrow> 'w vmm \<Rightarrow> u16 \<Rightarrow> test_queue \<times> 'w srv_state \<Rightarrow> ((u32 \<times> u32) \<times> test_queue \<times> 'w srv_state) option"
where
  "submit_and_wait fuel H V head = (\<lambda>(tq, srv, h, w).
     case publish_head head (tq, h) of
       None \<Rightarrow> None
     | Some (tq', h1) \<Rightarrow>
         (case server_turn fuel H V (srv, h1, snd (sys_write V (tq_kick_w tq) (le64 1) w)) of
            Some (Continue, srv', h2, w2) \<Rightarrow>
              (case wait_for_call V (tq_call_r tq) w2 of
                 None \<Rightarrow> None
               | Some w3 \<Rightarrow> map_option (\<lambda>u. (u, tq', srv', h2, w3)) (last_used tq' h2))
          | _ \<Rightarrow> None))"

section \<open>Setting up the queue\<close>

definition GPA_BASE :: u64 where "GPA_BASE = 0x40000000"
definition USER_BASE :: u64 where "USER_BASE = 0x7f00000000"

definition test_region :: memory_region where
  "test_region = \<lparr>guest_phys_addr = GPA_BASE, memory_size = push_bit 20 8,
     userspace_addr = USER_BASE, mmap_offset = 0\<rparr>"

definition test_desc_addr :: u64 where "test_desc_addr = USER_BASE + 0x1000"
definition test_avail_addr :: u64 where "test_avail_addr = test_desc_addr + ucast TEST_QUEUE_SIZE * 16"
definition test_used_addr :: u64 where "test_used_addr = test_avail_addr + 4 + ucast TEST_QUEUE_SIZE * 2 + 64"

text \<open>The messages of \<open>TestQueue::new\<close>, in order, with the descriptors that go with them.\<close>

definition test_handshake :: "fd \<Rightarrow> fd \<Rightarrow> fd \<Rightarrow> (request \<times> bytes \<times> fd list) list" where
  "test_handshake mem_file kick_r call_w =
     [(GetFeatures, [], []),
      (SetFeatures, u64_payload_to_bytes VIRTIO_FEATURES, []),
      (GetProtocolFeatures, [], []),
      (SetProtocolFeatures, u64_payload_to_bytes 0, []),
      (SetOwner, [], []),
      (SetMemTable, memory_regions_to_bytes [test_region], [mem_file]),
      set_num 1 (ucast TEST_QUEUE_SIZE),
      set_addr \<lparr>va_index = 1, va_flags = 0, va_descriptor = test_desc_addr, va_used = test_used_addr,
        va_avail = test_avail_addr, va_log = 0\<rparr>,
      set_base 1 0,
      (SetVringKick, vring_fd_payload_to_bytes \<lparr>vf_index = 1, vf_no_fd = False\<rparr>, [kick_r]),
      (SetVringCall, vring_fd_payload_to_bytes \<lparr>vf_index = 1, vf_no_fd = False\<rparr>, [call_w]),
      (SetVringEnable, vring_state_to_bytes \<lparr>vs_index = 1, vs_num = 1\<rparr>, [])]"

definition test_queue_new :: "guest_memory \<Rightarrow> fd \<Rightarrow> fd \<Rightarrow> test_queue" where
  "test_queue_new mem call_r kick_w =
     \<lparr>tq_guest_mem = mem, tq_desc_addr = test_desc_addr, tq_avail_addr = test_avail_addr,
      tq_used_addr = test_used_addr, tq_call_r = call_r, tq_kick_w = kick_w,
      tq_next_gpa = GPA_BASE + 0x100000, tq_next_desc_idx = 0, tq_avail_idx = 0\<rparr>"

section \<open>An exchange\<close>

text \<open>
  What each test then does: the request goes into readable buffers, the reply's room is reserved
  in writable ones, the chain of both is submitted, the id on the used ring is compared with the
  head, and the reply is read from the writable buffers, as far as the used ring says.
\<close>

fun readable_bufs :: "bytes list \<Rightarrow> test_queue \<times> heap \<Rightarrow> ((u64 \<times> u32) list \<times> test_queue \<times> heap) option" where
  "readable_bufs [] \<sigma> = Some ([], \<sigma>)"
| "readable_bufs (d # ds) \<sigma> =
     (case readable_buf d \<sigma> of
        None \<Rightarrow> None
      | Some (b, \<sigma>') \<Rightarrow> map_option (apfst (Cons b)) (readable_bufs ds \<sigma>'))"

fun writable_bufs :: "u32 list \<Rightarrow> test_queue \<Rightarrow> (u64 \<times> u32) list \<times> test_queue" where
  "writable_bufs [] tq = ([], tq)"
| "writable_bufs (n # ns) tq = (case writable_buf n tq of (b, tq') \<Rightarrow> apfst (Cons b) (writable_bufs ns tq'))"

definition exchange ::
  "nat \<Rightarrow> 'w host \<Rightarrow> 'w vmm \<Rightarrow> bytes list \<times> u32 list \<Rightarrow> test_queue \<times> 'w srv_state \<Rightarrow> (bytes \<times> test_queue \<times> 'w srv_state) option"
where
  "exchange fuel H V = (\<lambda>(ins, outs) (tq, srv, h, w).
     case readable_bufs ins (tq, h) of
       None \<Rightarrow> None
     | Some (rb, tq1, h1) \<Rightarrow>
         (case writable_bufs outs tq1 of (wb, tq2) \<Rightarrow>
          case write_chain (map (\<lambda>(a, n). (a, n, False)) rb @ map (\<lambda>(a, n). (a, n, True)) wb) (tq2, h1) of
            None \<Rightarrow> None
          | Some (head, tq3, h2) \<Rightarrow>
              (case submit_and_wait fuel H V head (tq3, srv, h2, w) of
                 None \<Rightarrow> None
               | Some ((used_id, used_len), tq4, srv', h3, w') \<Rightarrow>
                   if used_id \<noteq> ucast head then None
                   else map_option (\<lambda>ss. (take (unat used_len) (load_all h3 ss), tq4, srv', h3, w'))
                     (slices_of (tq_guest_mem tq4) (map (\<lambda>(a, n). (a, ucast n)) wb)))))"

fun conversation ::
  "nat \<Rightarrow> 'w host \<Rightarrow> 'w vmm \<Rightarrow> (bytes list \<times> u32 list) list \<Rightarrow> test_queue \<times> 'w srv_state
   \<Rightarrow> (bytes list \<times> test_queue \<times> 'w srv_state) option" where
  "conversation fuel H V [] \<sigma> = Some ([], \<sigma>)"
| "conversation fuel H V (x # xs) \<sigma> =
     (case exchange fuel H V x \<sigma> of
        None \<Rightarrow> None
      | Some (b, \<sigma>') \<Rightarrow> map_option (apfst (Cons b)) (conversation fuel H V xs \<sigma>'))"

section \<open>The buffers\<close>

text \<open>What is left of the driver's part of guest memory, as a range of addresses and of host memory.\<close>

definition arena :: "guest_memory \<Rightarrow> u64 \<Rightarrow> nat \<Rightarrow> host_ptr \<Rightarrow> bool" where
  "arena mem addr room p \<longleftrightarrow> room < 2 ^ 64 \<and> (0 < room \<longrightarrow> get_slice mem Gpa addr (of_nat room) = Some (p, room))"

lemma arena_take:
  assumes "regions_disjoint Gpa mem" and "arena mem addr room p" and "0 < n" and "n \<le> room"
  shows "get_slice mem Gpa addr (of_nat n) = Some (p, n)" and "arena mem (addr + of_nat n) (room - n) (ptr_add p n)"
proof -
  have whole: "room < 2 ^ 64" "get_slice mem Gpa addr (of_nat room) = Some (p, room)"
    using assms(2-4) by (simp_all add: arena_def)
  have fits: "unat (of_nat k :: u64) = k" if "k \<le> room" for k
    using whole(1) that by (simp add: unat_of_nat)
  note n = fits [OF assms(4)] fits [OF diff_le_self, of n]
  show "get_slice mem Gpa addr (of_nat n) = Some (p, n)"
    using get_slice_sub [OF assms(1) whole(2), of 0 "of_nat n"] n assms(3,4) by (simp add: ptr_add_def)
  show "arena mem (addr + of_nat n) (room - n) (ptr_add p n)"
    using get_slice_sub [OF assms(1) whole(2), of "of_nat n" "of_nat (room - n)"] n assms(4) whole(1)
    by (auto simp: arena_def)
qed

text \<open>Consecutive buffers: their addresses, and the host memory behind them.\<close>

fun bufs_from :: "u64 \<Rightarrow> u32 list \<Rightarrow> (u64 \<times> u32) list" where
  "bufs_from addr [] = []"
| "bufs_from addr (n # ns) = (addr, n) # bufs_from (addr + ucast n) ns"

fun slices_from :: "host_ptr \<Rightarrow> nat list \<Rightarrow> slices" where
  "slices_from p [] = []"
| "slices_from p (n # ns) = (p, n) # slices_from (ptr_add p n) ns"

lemma ptr_add_add [simp]: "ptr_add (ptr_add p a) b = ptr_add p (a + b)"
  by (simp add: ptr_add_def)

lemma load_plus: "load h (p, a + b) = load h (p, a) @ load h (ptr_add p a, b)"
proof -
  have "load h (p, a) = take a (load h (p, a + b))" "load h (ptr_add p a, b) = take b (drop a (load h (p, a + b)))"
    using load_sub [of 0 a "a + b" h p] load_sub [of a b "a + b" h p] by (simp_all add: ptr_add_def)
  then show ?thesis by simp
qed

lemma load_all_from: "load_all h (slices_from p ns) = load h (p, sum_list ns)"
proof (induction ns arbitrary: p)
  case Nil
  then show ?case by (simp add: load_def)
qed (simp add: load_plus)

lemma slices_len_from [simp]: "slices_len (slices_from p ns) = sum_list ns"
  by (induction ns arbitrary: p) simp_all

lemma slices_from_apart:
  assumes "slices_apart t (p, n)" and "sum_list ns \<le> n" and "u \<in> set (slices_from p ns)"
  shows "slices_apart t u"
  using assms
proof (induction ns arbitrary: p n)
  case (Cons k ns)
  show ?case
  proof (cases "u = (p, k)")
    case True
    with slices_apart_part [OF Cons.prems(1), of 0 k] Cons.prems(2) show ?thesis by (simp add: ptr_add_def)
  next
    case False
    with Cons.IH [of "ptr_add p k" "n - k"] slices_apart_part [OF Cons.prems(1), of k "n - k"] Cons.prems(2,3)
    show ?thesis by auto
  qed
qed simp

lemma all_apart_from: "all_apart (slices_from p ns)"
proof (induction ns arbitrary: p)
  case (Cons n ns)
  have "slices_apart (p, n) (ptr_add p n, sum_list ns)"
    by (simp add: slices_apart_def ptr_add_def)
  with slices_from_apart [OF this order_refl] Cons show ?case by simp
qed (simp add: all_apart_def)

lemma slices_of_bufs:
  assumes "regions_disjoint Gpa mem" and "arena mem addr room p" and "0 \<notin> set ns"
    and "sum_list (map unat ns) \<le> room"
  shows "slices_of mem (map (\<lambda>(a, n). (a, ucast n)) (bufs_from addr ns)) = Some (slices_from p (map unat ns))"
  using assms(2-)
proof (induction ns arbitrary: addr room p)
  case (Cons n ns)
  have pos: "0 < unat n" "unat n \<le> room" using Cons.prems(2,3) by (auto simp: unat_gt_0)
  note split = arena_take [OF assms(1) Cons.prems(1) pos]
  have "of_nat (unat n) = (ucast n :: u64)" by simp
  with split Cons.IH [OF split(2)] Cons.prems(2,3) show ?case by simp
qed simp

lemma arena_drop:
  assumes "regions_disjoint Gpa mem" and "arena mem addr room p" and "n \<le> room"
  shows "arena mem (addr + of_nat n) (room - n) (ptr_add p n)"
  using arena_take(2) [OF assms(1,2) _ assms(3)] assms(2) by (cases "n = 0") (simp_all add: ptr_add_def)

text \<open>Filling the readable buffers stores the request in one piece.\<close>

lemma readable_bufs_eq:
  assumes "regions_disjoint Gpa (tq_guest_mem tq)" and "arena (tq_guest_mem tq) (tq_next_gpa tq) room p"
    and "[] \<notin> set ds" and "\<forall>d \<in> set ds. length d < 2 ^ 32" and "length (concat ds) \<le> room"
  shows "readable_bufs ds (tq, h) = Some (bufs_from (tq_next_gpa tq) (map (\<lambda>d. of_nat (length d)) ds),
     tq\<lparr>tq_next_gpa := tq_next_gpa tq + of_nat (length (concat ds))\<rparr>, store p (concat ds) h)"
  using assms
proof (induction ds arbitrary: tq room p h)
  case (Cons d ds)
  let ?tq = "tq\<lparr>tq_next_gpa := tq_next_gpa tq + of_nat (length d)\<rparr>"
  have pos: "0 < length d" "length d \<le> room" using Cons.prems(3,5) by auto
  note split = arena_take [OF Cons.prems(1,2) pos]
  have "readable_bufs ds (?tq, store p d h) =
      Some (bufs_from (tq_next_gpa ?tq) (map (\<lambda>d. of_nat (length d)) ds),
        ?tq\<lparr>tq_next_gpa := tq_next_gpa ?tq + of_nat (length (concat ds))\<rparr>,
        store (ptr_add p (length d)) (concat ds) (store p d h))"
    using Cons.prems split(2) by (intro Cons.IH [where room = "room - length d"]) auto
  moreover have "ucast (of_nat (length d) :: u32) = (of_nat (length d) :: u64)"
    using Cons.prems(4) by (intro word_unat_eq_iff [THEN iffD2]) (simp add: unat_of_nat unsigned_ucast_eq take_bit_nat_eq_self)
  ultimately show ?case
    using split(1) by (simp add: readable_buf_def get_slice_mut_eq Let_def store_append add.assoc)
qed simp

lemma writable_bufs_eq:
  "writable_bufs ns tq = (bufs_from (tq_next_gpa tq) ns,
     tq\<lparr>tq_next_gpa := tq_next_gpa tq + of_nat (sum_list (map unat ns))\<rparr>)"
proof (induction ns arbitrary: tq)
  case (Cons n ns)
  have "of_nat (unat n) = (ucast n :: u64)" by simp
  with Cons show ?case by (simp add: writable_buf_def add.assoc)
qed simp

section \<open>The chain\<close>

text \<open>The descriptors \<open>write_chain\<close> writes, and their bytes.\<close>

fun descs_from :: "u16 \<Rightarrow> (u64 \<times> u32 \<times> bool) list \<Rightarrow> descriptor list" where
  "descs_from idx [] = []"
| "descs_from idx ((addr, len, writable) # segs) =
     \<lparr>d_addr = addr, d_len = len, d_flags = (if writable then 2 else 0) OR (if segs = [] then 0 else 1),
      d_next = (if segs = [] then 0 else idx + 1)\<rparr> # descs_from (idx + 1) segs"

definition desc_bytes :: "descriptor \<Rightarrow> bytes" where
  "desc_bytes d = le64 (d_addr d) @ le32 (d_len d) @ le16 (d_flags d) @ le16 (d_next d)"

definition desc_table_bytes :: "descriptor list \<Rightarrow> bytes" where
  "desc_table_bytes ds = concat (map desc_bytes ds)"

lemma length_desc_bytes [simp]: "length (desc_bytes d) = 16"
  by (simp add: desc_bytes_def)

lemma length_desc_table [simp]: "length (desc_table_bytes ds) = 16 * length ds"
  by (induction ds) (simp_all add: desc_table_bytes_def)

lemma length_descs_from [simp]: "length (descs_from idx segs) = length segs"
  by (induction idx segs rule: descs_from.induct) simp_all

lemma desc_table_Cons:
  "desc_table_bytes (descs_from idx (seg # segs)) =
     desc_bytes (hd (descs_from idx (seg # segs))) @ desc_table_bytes (descs_from (idx + 1) segs)"
  by (cases seg) (simp add: desc_table_bytes_def)

lemma desc_field:
  fixes idx :: u16
  assumes "regions_disjoint User mem" and "ring_at mem addr (16 * n) p" and "unat idx < n"
    and "d + unat m \<le> 16" and "0 < unat m"
  shows "get_slice mem User (addr + ucast idx * 16 + of_nat d) m = Some (ptr_add p (16 * unat idx + d), unat m)"
proof -
  have "unat (ucast idx * DESC_LEN + of_nat d) = 16 * unat idx + d"
    using assms(4) by (intro desc_offset) simp
  from ring_field [OF assms(1,2) this _ assms(5)] assms(3,4) show ?thesis
    by (simp add: DESC_LEN_def add.assoc)
qed

lemma write_desc_eq:
  assumes "regions_disjoint User (tq_guest_mem tq)" and "ring_at (tq_guest_mem tq) (tq_desc_addr tq) (16 * n) p"
    and "unat (tq_next_desc_idx tq) < n"
  shows "write_descs ((addr, len, wr) # segs) (tq, h) =
     write_descs segs (tq\<lparr>tq_next_desc_idx := tq_next_desc_idx tq + 1\<rparr>,
       store (ptr_add p (16 * unat (tq_next_desc_idx tq)))
         (desc_bytes (hd (descs_from (tq_next_desc_idx tq) ((addr, len, wr) # segs)))) h)"
proof -
  let ?o = "16 * unat (tq_next_desc_idx tq)"
  note field = desc_field [OF assms]
  have slices: "get_slice (tq_guest_mem tq) User (tq_desc_addr tq + ucast (tq_next_desc_idx tq) * 16) 8 = Some (ptr_add p ?o, 8)"
    "get_slice (tq_guest_mem tq) User (tq_desc_addr tq + ucast (tq_next_desc_idx tq) * 16 + 8) 4 = Some (ptr_add p (?o + 8), 4)"
    "get_slice (tq_guest_mem tq) User (tq_desc_addr tq + ucast (tq_next_desc_idx tq) * 16 + 12) 2 = Some (ptr_add p (?o + 12), 2)"
    "get_slice (tq_guest_mem tq) User (tq_desc_addr tq + ucast (tq_next_desc_idx tq) * 16 + 14) 2 = Some (ptr_add p (?o + 14), 2)"
    using field [of 0 8] field [of 8 4] field [of 12 2] field [of 14 2] by simp_all
  have "store (ptr_add p (?o + 14)) (le16 n') (store (ptr_add p (?o + 12)) (le16 f) (store (ptr_add p (?o + 8)) (le32 len)
      (store (ptr_add p ?o) (le64 addr) h))) = store (ptr_add p ?o) (le64 addr @ le32 len @ le16 f @ le16 n') h" for f n'
    by (simp add: store_append add.commute)
  with slices show ?thesis
    by (simp add: mem_write_u32_def mem_write_u16_def get_slice_mut_eq Let_def desc_bytes_def)
qed

lemma write_descs_eq:
  assumes "regions_disjoint User (tq_guest_mem tq)" and "ring_at (tq_guest_mem tq) (tq_desc_addr tq) (16 * n) p"
    and "unat (tq_next_desc_idx tq) + length segs \<le> n" and "n < 2 ^ 16"
  shows "write_descs segs (tq, h) = Some (tq\<lparr>tq_next_desc_idx := tq_next_desc_idx tq + of_nat (length segs)\<rparr>,
     store (ptr_add p (16 * unat (tq_next_desc_idx tq))) (desc_table_bytes (descs_from (tq_next_desc_idx tq) segs)) h)"
  using assms(1-3)
proof (induction segs arbitrary: tq h)
  case (Cons seg segs)
  obtain addr len wr where seg: "seg = (addr, len, wr)" by (metis surj_pair)
  let ?i = "tq_next_desc_idx tq" and ?tq = "tq\<lparr>tq_next_desc_idx := tq_next_desc_idx tq + 1\<rparr>"
  let ?d = "hd (descs_from ?i (seg # segs))"
  have small: "unat ?i < n" "unat ?i < 2 ^ 16 - 1" using Cons.prems(3) assms(4) by auto
  then have succ: "unat (?i + 1) = unat ?i + 1" by (simp add: unat_word_ariths)
  then have off: "16 * unat (?i + 1) = 16 * unat ?i + 16" by simp
  have "write_descs segs (?tq, store (ptr_add p (16 * unat ?i)) (desc_bytes ?d) h) =
     Some (?tq\<lparr>tq_next_desc_idx := ?i + 1 + of_nat (length segs)\<rparr>,
       store (ptr_add p (16 * unat (?i + 1))) (desc_table_bytes (descs_from (?i + 1) segs))
         (store (ptr_add p (16 * unat ?i)) (desc_bytes ?d) h))"
    using Cons.IH [of ?tq] Cons.prems succ by simp
  then show ?case
    using write_desc_eq [OF Cons.prems(1,2) small(1), of addr len wr segs h]
    unfolding desc_table_Cons off store_append by (simp add: seg add.assoc del: write_descs.simps descs_from.simps)
qed (simp add: desc_table_bytes_def)

text \<open>Reading the chain back.\<close>

lemma read_desc_bytes:
  assumes "regions_disjoint User mem" and "ring_at mem (vq_desc_addr vq) (16 * n) p" and "unat idx < n"
    and "load h (ptr_add p (16 * unat idx), 16) = desc_bytes d"
  shows "read_desc mem h vq idx = Ok d"
proof -
  note field = desc_field [OF assms(1-3)]
  have "get_slice mem User (vq_desc_addr vq + ucast idx * 16) 8 = Some (ptr_add p (16 * unat idx), 8)"
    using field [of 0 8] by simp
  moreover have part: "load h (ptr_add p (16 * unat idx + k), m) = take m (drop k (desc_bytes d))" if "k + m \<le> 16" for k m
    using load_sub [OF that, of h "ptr_add p (16 * unat idx)"] assms(4) by simp
  moreover note part [of 0 8] part [of 8 4] part [of 12 2] part [of 14 2]
  ultimately show ?thesis
    using field [of 8 4] field [of 12 2] field [of 14 2]
    by (simp add: read_desc_def DESC_LEN_def Let_def mem_read_u64_def mem_read_u32_def mem_read_u16_def desc_bytes_def)
qed

lemma desc_flags:
  fixes wr nxt :: bool
  assumes "d_flags d = (if wr then 2 else 0) OR (if nxt then 0 else 1)"
  shows "flag_on VIRTQ_DESC_F_WRITE d = wr" "flag_on VIRTQ_DESC_F_NEXT d = (\<not> nxt)" "\<not> flag_on VIRTQ_DESC_F_INDIRECT d"
  using assms by (simp_all add: flag_on_def VIRTQ_DESC_F_WRITE_def VIRTQ_DESC_F_NEXT_def VIRTQ_DESC_F_INDIRECT_def)

lemma written_path:
  assumes "regions_disjoint User mem" and "ring_at mem (vq_desc_addr vq) (16 * n) p" and "n < 2 ^ 16"
    and "unat idx + length segs \<le> n" and "segs \<noteq> []"
    and "load h (ptr_add p (16 * unat idx), 16 * length segs) = desc_table_bytes (descs_from idx segs)"
  shows "desc_path mem h vq idx (descs_from idx segs) \<and> path_within n idx (descs_from idx segs)"
  using assms(4-)
proof (induction segs arbitrary: idx)
  case (Cons seg segs)
  obtain addr len wr where seg: "seg = (addr, len, wr)" by (metis surj_pair)
  let ?d = "hd (descs_from idx (seg # segs))"
  have small: "unat idx < n" "unat idx < 2 ^ 16 - 1" using Cons.prems(1) assms(3) by auto
  then have succ: "unat (idx + 1) = unat idx + 1" by (simp add: unat_word_ariths)
  then have off: "16 * unat (idx + 1) = 16 * unat idx + 16" by simp
  have "load h (ptr_add p (16 * unat idx), 16) @ load h (ptr_add p (16 * unat (idx + 1)), 16 * length segs) =
      desc_bytes ?d @ desc_table_bytes (descs_from (idx + 1) segs)"
    using Cons.prems(3) load_plus [of h "ptr_add p (16 * unat idx)" 16 "16 * length segs"]
    unfolding desc_table_Cons off by simp
  then have parts: "load h (ptr_add p (16 * unat idx), 16) = desc_bytes ?d"
      "load h (ptr_add p (16 * unat (idx + 1)), 16 * length segs) = desc_table_bytes (descs_from (idx + 1) segs)"
    by (simp_all add: append_eq_append_conv)
  have "read_desc mem h vq idx = Ok ?d"
    using read_desc_bytes [OF assms(1,2) small(1) parts(1)] .
  moreover have "segs \<noteq> [] \<Longrightarrow> desc_path mem h vq (idx + 1) (descs_from (idx + 1) segs) \<and> path_within n (idx + 1) (descs_from (idx + 1) segs)"
    using Cons.IH [of "idx + 1"] Cons.prems(1) parts(2) succ by simp
  moreover have "flag_on VIRTQ_DESC_F_NEXT ?d = (segs \<noteq> [])" "\<not> flag_on VIRTQ_DESC_F_INDIRECT ?d"
    using desc_flags [of ?d wr "segs = []"] by (simp_all add: seg)
  ultimately show ?case
    using small(1) by (cases "segs = []") (auto simp: seg)
qed simp

lemma written_segments:
  "segments_of (flag_on VIRTQ_DESC_F_WRITE) (descs_from idx segs) = [(a, ucast n). (a, n, wr) \<leftarrow> segs, wr]"
  "segments_of (\<lambda>d. \<not> flag_on VIRTQ_DESC_F_WRITE d) (descs_from idx segs) = [(a, ucast n). (a, n, wr) \<leftarrow> segs, \<not> wr]"
proof (induction idx segs rule: descs_from.induct)
  case (2 idx addr len wr segs)
  note 2 desc_flags(1) [of "hd (descs_from idx ((addr, len, wr) # segs))" wr "segs = []"]
  then show "segments_of (flag_on VIRTQ_DESC_F_WRITE) (descs_from idx ((addr, len, wr) # segs)) =
        [(a, ucast n). (a, n, wr) \<leftarrow> (addr, len, wr) # segs, wr]"
      "segments_of (\<lambda>d. \<not> flag_on VIRTQ_DESC_F_WRITE d) (descs_from idx ((addr, len, wr) # segs)) =
        [(a, ucast n). (a, n, wr) \<leftarrow> (addr, len, wr) # segs, \<not> wr]"
    by (simp_all add: segments_of_def)
qed (simp_all add: segments_of_def)

section \<open>Publishing\<close>

text \<open>The queue the driver writes to, as the server has it.\<close>

definition queue_of :: "test_queue \<Rightarrow> virtqueue" where
  "queue_of tq = \<lparr>vq_desc_addr = tq_desc_addr tq, vq_avail_addr = tq_avail_addr tq, vq_used_addr = tq_used_addr tq,
     vq_queue_size = TEST_QUEUE_SIZE, vq_last_avail_idx = tq_avail_idx tq\<rparr>"

lemma queue_of_sel [simp]:
  "vq_desc_addr (queue_of tq) = tq_desc_addr tq" "vq_avail_addr (queue_of tq) = tq_avail_addr tq"
  "vq_used_addr (queue_of tq) = tq_used_addr tq" "vq_queue_size (queue_of tq) = 64"
  "vq_last_avail_idx (queue_of tq) = tq_avail_idx tq"
  by (simp_all add: queue_of_def TEST_QUEUE_SIZE_def)

definition publish_stores :: "host_ptr \<Rightarrow> u16 \<Rightarrow> u16 \<Rightarrow> heap \<Rightarrow> heap" where
  "publish_stores pa i head h =
     store (ptr_add pa 2) (le16 (i + 1)) (store (ptr_add pa (4 + 2 * unat (i mod 64))) (le16 head) h)"

lemma test_slot: "unat (i mod 64 :: u16) < 64"
  by (simp add: unat_mod)

lemma publish_head_eq:
  assumes "regions_disjoint User (tq_guest_mem tq)" and "ring_at (tq_guest_mem tq) (tq_avail_addr tq) 132 pa"
  shows "publish_head head (tq, h) =
     Some (tq\<lparr>tq_avail_idx := tq_avail_idx tq + 1\<rparr>, publish_stores pa (tq_avail_idx tq) head h)"
proof -
  let ?s = "tq_avail_idx tq mod 64"
  have "get_slice (tq_guest_mem tq) User (tq_avail_addr tq + (4 + ucast ?s * 2)) 2 = Some (ptr_add pa (4 + 2 * unat ?s), 2)"
    using ring_field [OF assms slot_offset(3) [of ?s], of 2] test_slot [of "tq_avail_idx tq"] by simp
  moreover have "get_slice (tq_guest_mem tq) User (tq_avail_addr tq + 2) 2 = Some (ptr_add pa 2, 2)"
    using ring_field [OF assms, of 2 2 2] by simp
  ultimately show ?thesis
    by (simp add: publish_head_def TEST_QUEUE_SIZE_def mem_write_u16_def get_slice_mut_eq Let_def publish_stores_def add.assoc)
qed

lemma publish_stores_ring:
  "ring_idx (publish_stores pa i head h) pa = i + 1"
  "avail_entry (publish_stores pa i head h) pa (unat (i mod 64)) = head"
  using load_store_apart [of "(ptr_add pa (4 + 2 * unat (i mod 64)), 2)" "ptr_add pa 2" "le16 (i + 1)"]
    load_store_same [of "ptr_add pa 2" "le16 (i + 1)"] load_store_same [of _ "le16 head"]
  by (simp_all add: ring_idx_def avail_entry_def publish_stores_def slices_apart_def ptr_add_def)

lemma load_publish:
  assumes "slices_apart s (pa, 132)"
  shows "load (publish_stores pa i head h) s = load h s"
proof -
  have "slices_apart s (ptr_add pa k, 2)" if "k + 2 \<le> 132" for k
    using assms that by (rule slices_apart_part)
  with test_slot [of i] show ?thesis by (simp add: publish_stores_def load_store_apart)
qed

section \<open>One exchange\<close>

text \<open>The job a request becomes, and memory once the driver has published it.\<close>

definition request_segs :: "u64 \<Rightarrow> bytes list \<times> u32 list \<Rightarrow> (u64 \<times> u32 \<times> bool) list" where
  "request_segs addr = (\<lambda>(ins, outs).
     map (\<lambda>(a, n). (a, n, False)) (bufs_from addr (map (\<lambda>d. of_nat (length d)) ins)) @
     map (\<lambda>(a, n). (a, n, True)) (bufs_from (addr + of_nat (length (concat ins))) outs))"

definition request_job :: "test_queue \<Rightarrow> host_ptr \<Rightarrow> bytes list \<times> u32 list \<Rightarrow> job" where
  "request_job tq pb x = \<lparr>job_head = tq_next_desc_idx tq,
     job_descs = descs_from (tq_next_desc_idx tq) (request_segs (tq_next_gpa tq) x),
     job_in = slices_from pb (map length (fst x)),
     job_out = slices_from (ptr_add pb (length (concat (fst x)))) (map unat (snd x))\<rparr>"

definition request_heap ::
  "test_queue \<Rightarrow> host_ptr \<Rightarrow> host_ptr \<Rightarrow> host_ptr \<Rightarrow> bytes list \<times> u32 list \<Rightarrow> heap \<Rightarrow> heap" where
  "request_heap tq pd pa pb x h =
     publish_stores pa (tq_avail_idx tq) (tq_next_desc_idx tq)
       (store (ptr_add pd (16 * unat (tq_next_desc_idx tq)))
         (desc_table_bytes (descs_from (tq_next_desc_idx tq) (request_segs (tq_next_gpa tq) x)))
         (store pb (concat (fst x)) h))"

text \<open>What an exchange takes of the driver's memory and descriptors.\<close>

definition request_size :: "bytes list \<times> u32 list \<Rightarrow> nat" where
  "request_size x = length (concat (fst x)) + sum_list (map unat (snd x))"

definition request_descs :: "bytes list \<times> u32 list \<Rightarrow> nat" where
  "request_descs x = length (fst x) + length (snd x)"

text \<open>
  A request in non-empty buffers, with room for less than 4 GiB of reply. A \<open>READ\<close> has room for the header and all the bytes it asks
  for.
\<close>

definition request_ok :: "bytes list \<times> u32 list \<Rightarrow> bool" where
  "request_ok = (\<lambda>(ins, outs). (ins \<noteq> [] \<or> outs \<noteq> []) \<and> [] \<notin> set ins \<and> (\<forall>d \<in> set ins. length d < 2 ^ 32) \<and>
     0 \<notin> set outs \<and> sum_list (map unat outs) < 2 ^ 32 \<and>
     (opcode_from (u32_at 4 (concat ins)) = OpRead \<and> 60 \<le> length (concat ins) \<longrightarrow>
        OUT_HEADER_LEN + unat (u32_at 56 (concat ins)) \<le> sum_list (map unat outs)))"

text \<open>The driver and the server agree on the queue, and the driver has memory left.\<close>

definition driver_ready ::
  "test_queue \<Rightarrow> heap \<Rightarrow> host_ptr \<Rightarrow> host_ptr \<Rightarrow> host_ptr \<Rightarrow> host_ptr \<Rightarrow> nat \<Rightarrow> bool" where
  "driver_ready tq h pd pa pu pb room \<longleftrightarrow>
     vring_mapped (tq_guest_mem tq) (queue_of tq) pd pa pu \<and>
     arena (tq_guest_mem tq) (tq_next_gpa tq) room pb \<and> room < 2 ^ 63 \<and>
     all_apart [(pd, 1024), (pa, 132), (pu, 516), (pb, room)] \<and> ring_idx h pa = tq_avail_idx tq"

lemma request_segs_parts:
  "[(a, ucast n :: u64). (a, n, wr) \<leftarrow> request_segs addr x, wr] =
     map (\<lambda>(a, n). (a, ucast n :: u64)) (bufs_from (addr + of_nat (length (concat (fst x)))) (snd x))"
  "[(a, ucast n :: u64). (a, n, wr) \<leftarrow> request_segs addr x, \<not> wr] =
     map (\<lambda>(a, n). (a, ucast n :: u64)) (bufs_from addr (map (\<lambda>d. of_nat (length d)) (fst x)))"
proof -
  have "[(a, ucast n :: u64). (a, n, wr) \<leftarrow> map (\<lambda>(a, n). (a, n, w)) bs, wr] = (if w then map (\<lambda>(a, n). (a, ucast n :: u64)) bs else [])"
    "[(a, ucast n :: u64). (a, n, wr) \<leftarrow> map (\<lambda>(a, n). (a, n, w)) bs, \<not> wr] = (if w then [] else map (\<lambda>(a, n). (a, ucast n :: u64)) bs)"
    for w and bs :: "(u64 \<times> u32) list"
    by (induction bs) auto
  then show "[(a, ucast n :: u64). (a, n, wr) \<leftarrow> request_segs addr x, wr] =
        map (\<lambda>(a, n). (a, ucast n :: u64)) (bufs_from (addr + of_nat (length (concat (fst x)))) (snd x))"
      "[(a, ucast n :: u64). (a, n, wr) \<leftarrow> request_segs addr x, \<not> wr] =
        map (\<lambda>(a, n). (a, ucast n :: u64)) (bufs_from addr (map (\<lambda>d. of_nat (length d)) (fst x)))"
    by (simp_all add: request_segs_def case_prod_beta)
qed

lemma length_bufs_from [simp]: "length (bufs_from a ns) = length ns"
  by (induction ns arbitrary: a) simp_all

lemma length_request_segs [simp]: "length (request_segs addr x) = request_descs x"
  by (cases x) (simp add: request_segs_def request_descs_def)

lemma driver_readyD:
  assumes "driver_ready tq h pd pa pu pb room"
  shows "regions_disjoint Gpa (tq_guest_mem tq)" "regions_disjoint User (tq_guest_mem tq)"
    "ring_at (tq_guest_mem tq) (tq_desc_addr tq) (16 * 64) pd" "ring_at (tq_guest_mem tq) (tq_avail_addr tq) 132 pa"
    "ring_at (tq_guest_mem tq) (tq_used_addr tq) 516 pu"
    "arena (tq_guest_mem tq) (tq_next_gpa tq) room pb" "room < 2 ^ 63" "ring_idx h pa = tq_avail_idx tq"
    "slices_apart (pd, 1024) (pa, 132)" "slices_apart (pd, 1024) (pu, 516)" "slices_apart (pd, 1024) (pb, room)"
    "slices_apart (pa, 132) (pu, 516)" "slices_apart (pa, 132) (pb, room)" "slices_apart (pu, 516) (pb, room)"
    "vring_mapped (tq_guest_mem tq) (queue_of tq) pd pa pu"
  using assms by (simp_all add: driver_ready_def vring_mapped_def)

lemma request_path:
  assumes ready: "driver_ready tq h pd pa pu pb room" and ok: "request_ok x"
    and room: "unat (tq_next_desc_idx tq) + request_descs x \<le> 64"
  shows "desc_path (tq_guest_mem tq) (request_heap tq pd pa pb x h) (queue_of tq) (tq_next_desc_idx tq)
      (job_descs (request_job tq pb x))"
    and "path_within 64 (tq_next_desc_idx tq) (job_descs (request_job tq pb x))"
proof -
  let ?h = "request_heap tq pd pa pb x h" and ?i = "tq_next_desc_idx tq" and ?segs = "request_segs (tq_next_gpa tq) x"
  note D = driver_readyD [OF ready]
  have "slices_apart (ptr_add pd (16 * unat ?i), 16 * request_descs x) (pa, 132)"
    using slices_apart_first [OF D(9)] room by simp
  then have table: "load ?h (ptr_add pd (16 * unat ?i), 16 * length ?segs) = desc_table_bytes (descs_from ?i ?segs)"
    using load_publish load_store_same [of "ptr_add pd (16 * unat ?i)" "desc_table_bytes (descs_from ?i ?segs)"]
    by (simp add: request_heap_def)
  have "ring_at (tq_guest_mem tq) (vq_desc_addr (queue_of tq)) (16 * 64) pd"
    using D(3) by simp
  moreover have "?segs \<noteq> []"
    using ok by (cases x) (auto simp: request_ok_def request_segs_def dest: arg_cong [where f = length])
  ultimately show "desc_path (tq_guest_mem tq) ?h (queue_of tq) ?i (job_descs (request_job tq pb x))"
      "path_within 64 ?i (job_descs (request_job tq pb x))"
    using written_path [OF D(2) _ _ _ _ table, where n = 64 and vq = "queue_of tq"] room by (simp_all add: request_job_def)
qed

lemma request_bytes:
  assumes "driver_ready tq h pd pa pu pb room" and "request_size x \<le> room"
    and "unat (tq_next_desc_idx tq) + request_descs x \<le> 64"
  shows "job_request (request_heap tq pd pa pb x h) (request_job tq pb x) = concat (fst x)"
proof -
  let ?n = "length (concat (fst x))" and ?i = "tq_next_desc_idx tq"
  note D = driver_readyD [OF assms(1)]
  have "?n \<le> room" using assms(2) by (simp add: request_size_def)
  then have sub: "slices_apart t (pb, ?n)" if "slices_apart t (pb, room)" for t
    using slices_apart_part [OF that, of 0] by (simp add: ptr_add_def)
  have "slices_apart (pb, ?n) (pa, 132)" "slices_apart (pb, ?n) (ptr_add pd (16 * unat ?i), 16 * request_descs x)"
    using sub [OF D(13)] slices_apart_part [of "(pb, ?n)" pd 1024 "16 * unat ?i"] sub [OF D(11)] assms(3)
    by (simp_all add: slices_apart_sym)
  then have "load (request_heap tq pd pa pb x h) (pb, ?n) = concat (fst x)"
    using load_store_same [of pb "concat (fst x)" h] by (simp add: request_heap_def load_publish load_store_apart)
  then show ?thesis
    by (simp add: job_request_def request_job_def load_all_from length_concat)
qed

lemma request_apart:
  assumes "driver_ready tq h pd pa pu pb room" and "request_size x \<le> room"
  shows "areas_apart 64 pd pa pu [request_job tq pb x]"
proof -
  let ?n = "length (concat (fst x))" and ?m = "sum_list (map unat (snd x))" and ?j = "request_job tq pb x"
  note D = driver_readyD [OF assms(1)]
  have len: "?n + ?m \<le> room" using assms(2) by (simp add: request_size_def)
  have ins: "slices_apart t u" if "slices_apart t (pb, room)" "u \<in> set (job_in ?j)" for t u
    using slices_from_apart [OF that(1), of "map length (fst x)"] that(2) len
    by (simp add: request_job_def length_concat)
  have outs: "slices_apart t u" if "slices_apart t (ptr_add pb ?n, ?m)" "u \<in> set (job_out ?j)" for t u
    using slices_from_apart [OF that(1) order_refl] that(2) by (simp add: request_job_def)
  have part: "slices_apart t (ptr_add pb ?n, ?m)" if "slices_apart t (pb, room)" for t
    using that len by (rule slices_apart_part)
  have "slices_apart (pb, ?n) (ptr_add pb ?n, ?m)" by (simp add: slices_apart_def ptr_add_def)
  then have between: "slices_apart u t" if "u \<in> set (job_in ?j)" "t \<in> set (job_out ?j)" for u t
    using outs [of "(pb, ?n)" t] slices_from_apart [of t pb ?n "map length (fst x)" u] that slices_apart_sym
    by (simp add: request_job_def length_concat)
  have "all_apart (job_out ?j)" by (simp add: request_job_def all_apart_from)
  moreover have "slices_apart t (pu, 516)" if "t \<in> set (job_in ?j)" for t
    using ins [OF D(14) that] by (subst slices_apart_sym)
  moreover note outs [OF part [OF D(11)]] outs [OF part [OF D(13)]] outs [OF part [OF D(14)]]
  ultimately show ?thesis
    using D(10,12) between by (auto simp: areas_apart_def driver_area_def device_area_def)
qed

lemma buf_lens:
  assumes "[] \<notin> set ins" and "\<forall>d \<in> set ins. length d < 2 ^ 32"
  shows "map unat (map (\<lambda>d. of_nat (length d) :: u32) ins) = map length ins"
    and "0 \<notin> set (map (\<lambda>d. of_nat (length d) :: u32) ins)"
proof -
  have len: "unat (of_nat (length d) :: u32) = length d" if "d \<in> set ins" for d
    using assms(2) that by (simp add: unat_of_nat)
  then show "map unat (map (\<lambda>d. of_nat (length d) :: u32) ins) = map length ins" by simp
  have "(of_nat (length d) :: u32) \<noteq> 0" if "d \<in> set ins" for d
    using len [OF that] assms(1) that by (metis length_0_conv unsigned_0)
  then show "0 \<notin> set (map (\<lambda>d. of_nat (length d) :: u32) ins)" by (metis (no_types, lifting) imageE list.set_map)
qed

lemma request_laid_out:
  assumes ready: "driver_ready tq h pd pa pu pb room" and ok: "request_ok x"
    and room: "request_size x \<le> room" "unat (tq_next_desc_idx tq) + request_descs x \<le> 64"
  shows "job_laid_out (tq_guest_mem tq) (request_heap tq pd pa pb x h) (queue_of tq) (request_job tq pb x)"
    and "job_fits (request_heap tq pd pa pb x h) (request_job tq pb x)"
    and "published (request_heap tq pd pa pb x h) pa 64 (tq_avail_idx tq) [request_job tq pb x]"
proof -
  let ?j = "request_job tq pb x" and ?mem = "tq_guest_mem tq"
  obtain ins outs where x: "x = (ins, outs)" by (cases x)
  note D = driver_readyD [OF ready]
  have ok': "[] \<notin> set ins" "\<forall>d \<in> set ins. length d < 2 ^ 32" "0 \<notin> set outs"
    using ok by (simp_all add: x request_ok_def)
  have len: "length (concat ins) + sum_list (map unat outs) \<le> room"
    using room(1) by (simp add: x request_size_def)
  note lens = buf_lens [OF ok'(1,2)]
  have "slices_of ?mem (dc_readable (job_chain ?j)) = Some (job_in ?j)"
    using slices_of_bufs [OF D(1,6) lens(2), unfolded lens(1)] len
    by (simp add: job_chain_def request_job_def written_segments request_segs_parts x length_concat)
  moreover have "slices_of ?mem (dc_writable (job_chain ?j)) = Some (job_out ?j)"
    using slices_of_bufs [OF D(1) arena_drop [OF D(1,6), of "length (concat ins)"] ok'(3)] len
    by (simp add: job_chain_def request_job_def written_segments request_segs_parts x)
  moreover have "length (job_descs ?j) \<le> MAX_CHAIN_LEN"
    using room(2) by (simp add: request_job_def MAX_CHAIN_LEN_def)
  ultimately show "job_laid_out ?mem (request_heap tq pd pa pb x h) (queue_of tq) ?j"
    using request_path [OF ready ok room(2)] by (simp add: job_laid_out_def) (simp add: request_job_def)
  show "job_fits (request_heap tq pd pa pb x h) ?j"
  proof -
    have "slices_len (job_out ?j) = sum_list (map unat outs)" by (simp add: request_job_def x)
    then show ?thesis
      unfolding job_fits_def request_bytes [OF ready room]
      using ok len D(7) by (auto simp: request_ok_def x rust_slice_def)
  qed
  show "published (request_heap tq pd pa pb x h) pa 64 (tq_avail_idx tq) [?j]"
    by (simp add: request_heap_def publish_stores_ring) (simp add: request_job_def)
qed

text \<open>The driver's calls up to the kick leave memory like this.\<close>

definition tq_after :: "bytes list \<times> u32 list \<Rightarrow> test_queue \<Rightarrow> test_queue" where
  "tq_after x tq = tq\<lparr>tq_next_gpa := tq_next_gpa tq + of_nat (request_size x),
     tq_next_desc_idx := tq_next_desc_idx tq + of_nat (request_descs x), tq_avail_idx := tq_avail_idx tq + 1\<rparr>"

lemma driver_writes:
  assumes ready: "driver_ready tq h pd pa pu pb room" and ok: "request_ok x"
    and room: "request_size x \<le> room" "unat (tq_next_desc_idx tq) + request_descs x \<le> 64"
  obtains tq1 h1 tq3 h2 where
    "readable_bufs (fst x) (tq, h) = Some (bufs_from (tq_next_gpa tq) (map (\<lambda>d. of_nat (length d)) (fst x)), tq1, h1)"
    "writable_bufs (snd x) tq1 = (bufs_from (tq_next_gpa tq + of_nat (length (concat (fst x)))) (snd x),
       tq1\<lparr>tq_next_gpa := tq_next_gpa tq1 + of_nat (sum_list (map unat (snd x)))\<rparr>)"
    "write_chain (request_segs (tq_next_gpa tq) x)
       (tq1\<lparr>tq_next_gpa := tq_next_gpa tq1 + of_nat (sum_list (map unat (snd x)))\<rparr>, h1) = Some (tq_next_desc_idx tq, tq3, h2)"
    "publish_head (tq_next_desc_idx tq) (tq3, h2) = Some (tq_after x tq, request_heap tq pd pa pb x h)"
    "tq_kick_w tq3 = tq_kick_w tq" "tq_call_r tq3 = tq_call_r tq"
proof -
  obtain ins outs where x: "x = (ins, outs)" by (cases x)
  note D = driver_readyD [OF ready]
  let ?tq1 = "tq\<lparr>tq_next_gpa := tq_next_gpa tq + of_nat (length (concat ins))\<rparr>"
  let ?tq2 = "?tq1\<lparr>tq_next_gpa := tq_next_gpa ?tq1 + of_nat (sum_list (map unat outs))\<rparr>"
  let ?h1 = "store pb (concat ins) h"
  let ?tq3 = "?tq2\<lparr>tq_next_desc_idx := tq_next_desc_idx tq + of_nat (request_descs x)\<rparr>"
  let ?h2 = "store (ptr_add pd (16 * unat (tq_next_desc_idx tq)))
      (desc_table_bytes (descs_from (tq_next_desc_idx tq) (request_segs (tq_next_gpa tq) x))) ?h1"
  show thesis
  proof
    show "readable_bufs (fst x) (tq, h) = Some (bufs_from (tq_next_gpa tq) (map (\<lambda>d. of_nat (length d)) (fst x)), ?tq1, ?h1)"
      using readable_bufs_eq [OF D(1,6), of ins h] ok room(1) by (simp add: x request_ok_def request_size_def)
    show "writable_bufs (snd x) ?tq1 = (bufs_from (tq_next_gpa tq + of_nat (length (concat (fst x)))) (snd x),
        ?tq1\<lparr>tq_next_gpa := tq_next_gpa ?tq1 + of_nat (sum_list (map unat (snd x)))\<rparr>)"
      by (simp add: writable_bufs_eq x)
    show "write_chain (request_segs (tq_next_gpa tq) x)
        (?tq1\<lparr>tq_next_gpa := tq_next_gpa ?tq1 + of_nat (sum_list (map unat (snd x)))\<rparr>, ?h1) = Some (tq_next_desc_idx tq, ?tq3, ?h2)"
      using write_descs_eq [of ?tq2 64 pd "request_segs (tq_next_gpa tq) x" ?h1] D(2,3) room(2)
      by (simp add: write_chain_def x)
    show "publish_head (tq_next_desc_idx tq) (?tq3, ?h2) = Some (tq_after x tq, request_heap tq pd pa pb x h)"
      using publish_head_eq [of ?tq3 pa "tq_next_desc_idx tq" ?h2] D(2,4)
      by (simp add: tq_after_def request_heap_def request_size_def x add.assoc)
  qed simp_all
qed

section \<open>The turn\<close>

text \<open>
  The wake-ups, as documented of eventfds and pipes: after the driver's kick, with nothing on the
  control connection, \<open>poll\<close> reports the kick descriptor, which is drained by as many reads as
  the fuel allows; after the server's notification, \<open>poll\<close> reports the call descriptor.
\<close>

definition kick_world :: "'w vmm \<Rightarrow> fd \<Rightarrow> fd \<Rightarrow> fd \<Rightarrow> 'w \<Rightarrow> (u16 list sysret \<times> 'w)" where
  "kick_world V conn kick_r kick_w w = sys_poll V [conn, kick_r] (snd (sys_write V kick_w (le64 1) w))"

definition woken :: "nat \<Rightarrow> 'w vmm \<Rightarrow> fd \<Rightarrow> fd \<Rightarrow> fd \<Rightarrow> 'w \<Rightarrow> 'w" where
  "woken fuel V conn kick_r kick_w w =
     (case drain_fd fuel V kick_r (snd (kick_world V conn kick_r kick_w w)) of Some w' \<Rightarrow> w' | None \<Rightarrow> w)"

definition called :: "'w vmm \<Rightarrow> fd \<Rightarrow> fd \<Rightarrow> 'w \<Rightarrow> 'w" where
  "called V call_r call_w w = snd (sys_read V call_r 64 (snd (sys_poll V [call_r] (notify V call_w w))))"

definition wake_ups :: "nat \<Rightarrow> 'w vmm \<Rightarrow> fd \<Rightarrow> fd \<Rightarrow> fd \<Rightarrow> fd \<Rightarrow> fd \<Rightarrow> bool" where
  "wake_ups fuel V conn kick_r kick_w call_r call_w \<longleftrightarrow>
     (\<forall>w. fst (kick_world V conn kick_r kick_w w) = Inr [0, POLLIN] \<and>
        drain_fd fuel V kick_r (snd (kick_world V conn kick_r kick_w w)) \<noteq> None) \<and>
     (\<forall>w. \<exists>e. e \<noteq> 0 \<and> fst (sys_poll V [call_r] (notify V call_w w)) = Inr [e])"

text \<open>A server whose vring \<open>i\<close> is the driver's, with its descriptors, and no other vring in use.\<close>

definition server_wired :: "nat \<Rightarrow> fd \<Rightarrow> fd \<Rightarrow> fd \<Rightarrow> test_queue \<Rightarrow> server \<Rightarrow> bool" where
  "server_wired i conn kick_r call_w tq srv \<longleftrightarrow>
     srv_conn srv = conn \<and> srv_mem srv = Some (tq_guest_mem tq) \<and> kick_slots (srv_vrings srv) = [(i, kick_r)] \<and>
     i < length (srv_vrings srv) \<and> slot_vq (srv_vrings srv ! i) = Some (queue_of tq) \<and>
     slot_call_fd (srv_vrings srv ! i) = Some call_w"

lemma kick_slots_set_vq:
  assumes "i < length slots"
  shows "kick_slots (slots[i := (slots ! i)\<lparr>slot_vq := v\<rparr>]) = kick_slots slots"
proof -
  let ?f = "\<lambda>(i, s). case slot_kick_fd s of Some d \<Rightarrow> if slot_enabled s then [(i, d)] else [] | None \<Rightarrow> []"
  have "map ?f (enumerate 0 (slots[i := (slots ! i)\<lparr>slot_vq := v\<rparr>])) ! k = map ?f (enumerate 0 slots) ! k" if "k < length slots" for k
    using that assms by (cases "k = i") (simp_all add: nth_enumerate_eq cong: option.case_cong)
  then have "map ?f (enumerate 0 (slots[i := (slots ! i)\<lparr>slot_vq := v\<rparr>])) = map ?f (enumerate 0 slots)"
    by (intro nth_equalityI) simp_all
  then show ?thesis unfolding kick_slots_def by (rule arg_cong)
qed

lemma server_turn_kicked:
  assumes "server_wired i conn kick_r call_w tq srv" and "wake_ups fuel V conn kick_r kick_w call_r call_w"
    and "process_vring fuel H V i (srv, h, woken fuel V conn kick_r kick_w w) = Some (Ok (), \<sigma>)"
  shows "server_turn fuel H V (srv, h, snd (sys_write V kick_w (le64 1) w)) = Some (Continue, \<sigma>)"
proof -
  obtain w1 where poll: "sys_poll V [conn, kick_r] (snd (sys_write V kick_w (le64 1) w)) = (Inr [0, POLLIN], w1)"
    using assms(2) by (metis wake_ups_def kick_world_def prod.collapse)
  then obtain w2 where "drain_fd fuel V kick_r w1 = Some w2" "woken fuel V conn kick_r kick_w w = w2"
    using assms(2) unfolding wake_ups_def woken_def kick_world_def by (metis option.exhaust option.simps(5) snd_conv)
  with poll assms(1,3) show ?thesis
    by (simp add: server_wired_def server_turn_def Let_def turn_polled_def turn_kicks_def POLLIN_def split: prod.splits)
qed

lemma last_used_ring:
  assumes "regions_disjoint User (tq_guest_mem tq)" and "ring_at (tq_guest_mem tq) (tq_used_addr tq) 516 pu"
  shows "last_used tq h = Some (used_entry h pu (unat ((ring_idx h pu - 1) mod 64)))"
proof -
  let ?s = "(ring_idx h pu - 1) mod 64"
  have "get_slice (tq_guest_mem tq) User (tq_used_addr tq + 2) 2 = Some (ptr_add pu 2, 2)"
    using ring_field [OF assms, of 2 2 2] by simp
  moreover have "get_slice (tq_guest_mem tq) User (tq_used_addr tq + (4 + ucast ?s * 8)) 4 = Some (ptr_add pu (4 + 8 * unat ?s), 4)"
      "get_slice (tq_guest_mem tq) User (tq_used_addr tq + (8 + ucast ?s * 8)) 4 = Some (ptr_add pu (8 + 8 * unat ?s), 4)"
    using ring_field [OF assms slot_offset(4) [of ?s], of 4] ring_field [OF assms slot_offset(5) [of ?s], of 4]
      test_slot [of "ring_idx h pu - 1"] by simp_all
  moreover have "tq_used_addr tq + 4 + ucast ?s * 8 + 4 = tq_used_addr tq + (8 + ucast ?s * 8)" by simp
  ultimately show ?thesis
    by (simp add: last_used_def TEST_QUEUE_SIZE_def mem_read_u16_def mem_read_u32_def Let_def used_entry_def
        add.assoc flip: ring_idx_def)
qed

text \<open>One request through guest memory is one call of the session.\<close>

lemma vring_answers:
  assumes ready: "driver_ready tq h pd pa pu pb room" and wired: "server_wired i conn kick_r call_w tq srv"
    and ok: "request_ok x" and room: "request_size x \<le> room" "unat (tq_next_desc_idx tq) + request_descs x \<le> 64"
    and io: "vectored_io H" and fuel: "1 < fuel"
    and handle: "session_handle H (concat (fst x)) (srv_session srv, w) = (Some r, s', w')"
  shows "process_vring fuel H V i (srv, request_heap tq pd pa pb x h, w) = Some (Ok (),
     srv\<lparr>srv_session := s', srv_vrings := (srv_vrings srv)[i := (srv_vrings srv ! i)\<lparr>slot_vq := Some (queue_of (tq_after x tq))\<rparr>]\<rparr>,
     serve pu 64 (request_job tq pb x) r (request_heap tq pd pa pb x h), notify V call_w w')"
proof -
  let ?h = "request_heap tq pd pa pb x h" and ?j = "request_job tq pb x" and ?vq = "queue_of tq"
  note laid = request_laid_out [OF ready ok room] and bytes = request_bytes [OF ready room]
  have "vring_mapped (tq_guest_mem tq) ?vq pd pa pu" by (rule driver_readyD(15) [OF ready])
  moreover have "areas_apart (vq_queue_size ?vq) pd pa pu [?j]"
    using request_apart [OF ready room(1)] by simp
  moreover have "published ?h pa (vq_queue_size ?vq) (vq_last_avail_idx ?vq) [?j]" using laid(3) by simp
  moreover have "session_run H (map (job_request ?h) [?j]) (srv_session srv, w) = (Some [r], s', w')"
    using handle by (simp add: bytes)
  ultimately have "process_loop fuel H (tq_guest_mem tq) ?vq 0 (srv_session srv, ?h, w) =
     Some (Ok 1, ?vq\<lparr>vq_last_avail_idx := tq_avail_idx tq + 1\<rparr>, s', serve_all pu 64 [?j] [r] ?h, w')"
    using process_loop_serves [where js = "[?j]" and rs = "[r]" and k = 0, OF _ io] laid(1,2) fuel by simp
  moreover have "?vq\<lparr>vq_last_avail_idx := tq_avail_idx tq + 1\<rparr> = queue_of (tq_after x tq)"
    by (simp add: queue_of_def tq_after_def)
  ultimately show ?thesis
    using wired by (simp add: process_vring_def server_wired_def Let_def serve_all_def)
qed

lemma exchange_ready:
  assumes ready: "driver_ready tq h pd pa pu pb room" and room: "request_size x \<le> room"
  shows "driver_ready (tq_after x tq) (serve pu 64 (request_job tq pb x) r (request_heap tq pd pa pb x h))
     pd pa pu (ptr_add pb (request_size x)) (room - request_size x)"
proof -
  let ?n = "request_size x" and ?j = "request_job tq pb x"
  note D = driver_readyD [OF ready]
  have part: "slices_apart t (ptr_add pb ?n, room - ?n)" if "slices_apart t (pb, room)" for t
    using slices_apart_part [OF that] room by simp
  have "slices_apart (pa, 132) t" if "t \<in> set (job_out ?j)" for t
    using request_apart [OF ready room] that by (simp add: areas_apart_def driver_area_def device_area_def)
  then have "load (serve pu 64 ?j r (request_heap tq pd pa pb x h)) (pa, 132) = load (request_heap tq pd pa pb x h) (pa, 132)"
    using D(12) by (intro load_serve) simp_all
  from load_part [OF this, of 2 2]
  have "ring_idx (serve pu 64 ?j r (request_heap tq pd pa pb x h)) pa = ring_idx (request_heap tq pd pa pb x h) pa"
    by (simp add: ring_idx_def)
  also have "\<dots> = tq_avail_idx tq + 1"
    by (simp add: request_heap_def publish_stores_ring)
  finally have "ring_idx (serve pu 64 ?j r (request_heap tq pd pa pb x h)) pa = tq_avail_idx tq + 1" .
  moreover have "arena (tq_guest_mem tq) (tq_next_gpa tq + of_nat ?n) (room - ?n) (ptr_add pb ?n)"
    by (rule arena_drop [OF D(1,6) room])
  moreover have "vring_mapped (tq_guest_mem tq) (queue_of (tq_after x tq)) pd pa pu"
    using D(15) by (simp add: vring_mapped_def) (simp add: queue_of_def tq_after_def)
  ultimately show ?thesis
    using D(7,9,10,12) part [OF D(11)] part [OF D(13)] part [OF D(14)]
    by (simp add: driver_ready_def tq_after_def) (simp add: all_apart_def)
qed

lemma wait_called:
  assumes "wake_ups fuel V conn kick_r kick_w call_r call_w"
  shows "wait_for_call V call_r (notify V call_w w) = Some (called V call_r call_w w)"
proof -
  obtain e where "e \<noteq> 0" "fst (sys_poll V [call_r] (notify V call_w w)) = Inr [e]"
    using assms unfolding wake_ups_def by blast
  moreover obtain x w1 where "sys_poll V [call_r] (notify V call_w w) = (x, w1)" by fastforce
  ultimately show ?thesis by (simp add: wait_for_call_def called_def)
qed

lemma driver_reads:
  fixes r :: reply
  assumes ready: "driver_ready tq h pd pa pu pb room" and ok: "request_ok x"
    and room: "request_size x \<le> room" "unat (tq_next_desc_idx tq) + request_descs x \<le> 64"
  defines "h' \<equiv> serve pu 64 (request_job tq pb x) r (request_heap tq pd pa pb x h)"
  shows "\<exists>n. last_used (tq_after x tq) h' = Some (ucast (tq_next_desc_idx tq), n) \<and>
     take (unat n) (load_all h' (job_out (request_job tq pb x))) = take (sum_list (map unat (snd x))) (reply_bytes r)"
proof -
  let ?j = "request_job tq pb x" and ?h = "request_heap tq pd pa pb x h" and ?m = "sum_list (map unat (snd x))"
  let ?n = "min (length (reply_bytes r)) ?m"
  note D = driver_readyD [OF ready]
  have "all_apart ((pu, 4 + 8 * unat (64 :: u16)) # job_out ?j)"
    using request_apart [OF ready room(1)] by (simp add: areas_apart_def device_area_def)
  note served = serve_ring [where r = r and h = ?h, OF _ this, folded h'_def]
  have "slices_len (job_out ?j) = ?m" "job_head ?j = tq_next_desc_idx tq" by (simp_all add: request_job_def)
  then have used: "used_entry h' pu (unat (ring_idx ?h pu mod 64)) = (ucast (tq_next_desc_idx tq), of_nat ?n)"
      "take ?n (load_all h' (job_out ?j)) = take ?n (reply_bytes r)"
    using served(2) by (simp_all add: job_done_def Let_def)
  have "last_used (tq_after x tq) h' = Some (ucast (tq_next_desc_idx tq), of_nat ?n)"
    using last_used_ring [of "tq_after x tq" pu h'] D(2,5) served(1) used(1) by (simp add: tq_after_def)
  moreover have "unat (of_nat ?n :: u32) = ?n"
    using ok by (cases x) (simp add: request_ok_def unat_of_nat min_def)
  moreover have "take ?n (reply_bytes r) = take ?m (reply_bytes r)" by (simp add: min_def)
  ultimately show ?thesis
    using used(2) by (intro exI [of _ "of_nat ?n"]) simp
qed

lemma exchange_answers:
  assumes ready: "driver_ready tq h pd pa pu pb room" and wired: "server_wired i conn kick_r call_w tq srv"
    and wake: "wake_ups fuel V conn kick_r (tq_kick_w tq) (tq_call_r tq) call_w"
    and ok: "request_ok x" and room: "request_size x \<le> room" "unat (tq_next_desc_idx tq) + request_descs x \<le> 64"
    and io: "vectored_io H" and fuel: "1 < fuel"
    and handle: "session_handle H (concat (fst x)) (srv_session srv, woken fuel V conn kick_r (tq_kick_w tq) w) = (Some r, s', w')"
  shows "\<exists>srv' h'. exchange fuel H V x (tq, srv, h, w) =
       Some (take (sum_list (map unat (snd x))) (reply_bytes r), tq_after x tq, srv', h', called V (tq_call_r tq) call_w w') \<and>
     srv_session srv' = s' \<and> server_wired i conn kick_r call_w (tq_after x tq) srv' \<and>
     driver_ready (tq_after x tq) h' pd pa pu (ptr_add pb (request_size x)) (room - request_size x)"
proof -
  let ?j = "request_job tq pb x" and ?h = "request_heap tq pd pa pb x h"
  let ?wb = "bufs_from (tq_next_gpa tq + of_nat (length (concat (fst x)))) (snd x)" and ?h' = "serve pu 64 ?j r ?h"
  define srv' where "srv' = srv\<lparr>srv_session := s',
    srv_vrings := (srv_vrings srv)[i := (srv_vrings srv ! i)\<lparr>slot_vq := Some (queue_of (tq_after x tq))\<rparr>]\<rparr>"
  obtain ins outs where x: "x = (ins, outs)" by (cases x)
  obtain tq1 h1 tq3 h2 where drv: "readable_bufs (fst x) (tq, h) = Some (bufs_from (tq_next_gpa tq) (map (\<lambda>d. of_nat (length d)) (fst x)), tq1, h1)"
    "writable_bufs (snd x) tq1 = (?wb, tq1\<lparr>tq_next_gpa := tq_next_gpa tq1 + of_nat (sum_list (map unat (snd x)))\<rparr>)"
    "write_chain (request_segs (tq_next_gpa tq) x)
       (tq1\<lparr>tq_next_gpa := tq_next_gpa tq1 + of_nat (sum_list (map unat (snd x)))\<rparr>, h1) = Some (tq_next_desc_idx tq, tq3, h2)"
    "publish_head (tq_next_desc_idx tq) (tq3, h2) = Some (tq_after x tq, ?h)"
    "tq_kick_w tq3 = tq_kick_w tq" "tq_call_r tq3 = tq_call_r tq"
    by (rule driver_writes [OF ready ok room])
  obtain n where n: "last_used (tq_after x tq) ?h' = Some (ucast (tq_next_desc_idx tq), n)"
      "take (unat n) (load_all ?h' (job_out ?j)) = take (sum_list (map unat (snd x))) (reply_bytes r)"
    using driver_reads [OF ready ok room] by blast
  have "server_turn fuel H V (srv, ?h, snd (sys_write V (tq_kick_w tq) (le64 1) w)) = Some (Continue, srv', ?h', notify V call_w w')"
    unfolding srv'_def by (rule server_turn_kicked [OF wired wake vring_answers [OF ready wired ok room io fuel handle]])
  then have submit: "submit_and_wait fuel H V (tq_next_desc_idx tq) (tq3, srv, h2, w) =
      Some ((ucast (tq_next_desc_idx tq), n), tq_after x tq, srv', ?h', called V (tq_call_r tq) call_w w')"
    using drv(4-6) wait_called [OF wake] n(1) by (simp add: submit_and_wait_def)
  have "slices_of (tq_guest_mem tq) (map (\<lambda>(a, n). (a, ucast n)) ?wb) = Some (job_out ?j)"
    using request_laid_out(1) [OF ready ok room]
    by (simp add: job_laid_out_def job_chain_def) (simp add: request_job_def written_segments request_segs_parts)
  then have "exchange fuel H V x (tq, srv, h, w) =
      Some (take (sum_list (map unat (snd x))) (reply_bytes r), tq_after x tq, srv', ?h', called V (tq_call_r tq) call_w w')"
    using drv(1-3) submit n(2) by (simp add: exchange_def x request_segs_def) (simp add: tq_after_def)
  moreover have "server_wired i conn kick_r call_w (tq_after x tq) srv'"
    using wired kick_slots_set_vq by (simp add: srv'_def server_wired_def) (simp add: tq_after_def)
  moreover have "srv_session srv' = s'" by (simp add: srv'_def)
  ultimately show ?thesis
    using exchange_ready [OF ready room(1)] by blast
qed

end
