(* ===== verification/End_To_End.thy ===== *)
theory End_To_End
  imports Guest_Driver
begin

text \<open>
  From the first message on the control connection to the last reply in guest memory: the
  handshake of \<open>TestQueue::new\<close> leaves a server the driver can talk to, and from then on every
  exchange through the vring is a call of the session.
\<close>

section \<open>A conversation\<close>

text \<open>
  The specification: the session is called with one request after the other. What the wake-ups do
  to the world before and after each call is given by two functions.
\<close>

fun answered_run ::
  "'w host \<Rightarrow> ('w \<Rightarrow> 'w) \<Rightarrow> ('w \<Rightarrow> 'w) \<Rightarrow> bytes list \<Rightarrow> session \<times> 'w \<Rightarrow> reply list option \<times> session \<times> 'w" where
  "answered_run H wake call [] \<sigma> = (Some [], \<sigma>)"
| "answered_run H wake call (b # bs) (s, w) =
     (case session_handle H b (s, wake w) of
        (None, \<sigma>') \<Rightarrow> (None, \<sigma>')
      | (Some r, s', w') \<Rightarrow>
          (case answered_run H wake call bs (s', call w') of (rs, \<sigma>'') \<Rightarrow> (map_option (Cons r) rs, \<sigma>'')))"

lemma answered_run_id: "answered_run H id id bs \<sigma> = session_run H bs \<sigma>"
  by (induction bs arbitrary: \<sigma>) (auto split: prod.splits option.splits)

text \<open>What the driver sees of a reply: as much as the buffers it gave have room for.\<close>

definition visible :: "bytes list \<times> u32 list \<Rightarrow> reply \<Rightarrow> bytes" where
  "visible x r = take (sum_list (map unat (snd x))) (reply_bytes r)"

lemma session_handle_total:
  assumes "passthrough_ok n (ses_fs s)" and "rust_slice b" and "n + 2 < 2 ^ 64 - 1"
  shows "\<exists>r s' w'. session_handle H b (s, w) = (Some r, s', w') \<and> answers b r \<and> passthrough_ok (n + 2) (ses_fs s')"
  using session_run_safe [OF assms(1), of "[b]" H w] assms(2,3)
  by (auto simp: list_all2_Cons1 split: prod.splits option.splits)

lemma conversation_answers:
  assumes "wake_ups fuel V conn kick_r kick_w call_r call_w" and "vectored_io H" and "1 < fuel"
    and "driver_ready tq h pd pa pu pb room" and "server_wired i conn kick_r call_w tq srv"
    and "tq_kick_w tq = kick_w" and "tq_call_r tq = call_r" and "\<forall>x \<in> set xs. request_ok x"
    and "sum_list (map request_size xs) \<le> room" and "unat (tq_next_desc_idx tq) + sum_list (map request_descs xs) \<le> 64"
    and "passthrough_ok n (ses_fs (srv_session srv))" and "n + 2 * length xs < 2 ^ 64 - 1"
  shows "\<exists>rs s' w' tq' srv' h'.
     answered_run H (woken fuel V conn kick_r kick_w) (called V call_r call_w) (map (\<lambda>x. concat (fst x)) xs) (srv_session srv, w) =
       (Some rs, s', w') \<and>
     list_all2 (\<lambda>x. answers (concat (fst x))) xs rs \<and>
     conversation fuel H V xs (tq, srv, h, w) = Some (map2 visible xs rs, tq', srv', h', w') \<and> srv_session srv' = s'"
  using assms(4-)
proof (induction xs arbitrary: tq h pb room srv n w)
  case (Cons x xs)
  note D = driver_readyD [OF Cons.prems(1)]
  have x: "request_ok x" "request_size x \<le> room" "unat (tq_next_desc_idx tq) + request_descs x \<le> 64"
    using Cons.prems(5-7) by simp_all
  have ids: "n + 2 < 2 ^ 64 - 1" using Cons.prems(9) by simp
  have "rust_slice (concat (fst x))"
    using x(2) D(7) by (simp add: rust_slice_def request_size_def)
  then obtain r s1 w1 where r: "session_handle H (concat (fst x)) (srv_session srv, woken fuel V conn kick_r kick_w w) = (Some r, s1, w1)"
      "answers (concat (fst x)) r" "passthrough_ok (n + 2) (ses_fs s1)"
    using session_handle_total [OF Cons.prems(8) _ ids, of "concat (fst x)" H "woken fuel V conn kick_r kick_w w"] by blast
  have handle: "session_handle H (concat (fst x)) (srv_session srv, woken fuel V conn kick_r (tq_kick_w tq) w) = (Some r, s1, w1)"
    and wake: "wake_ups fuel V conn kick_r (tq_kick_w tq) (tq_call_r tq) call_w"
    using r(1) assms(1) Cons.prems(3,4) by simp_all
  obtain srv1 h1 where ex: "exchange fuel H V x (tq, srv, h, w) =
        Some (visible x r, tq_after x tq, srv1, h1, called V call_r call_w w1)"
      "srv_session srv1 = s1" "server_wired i conn kick_r call_w (tq_after x tq) srv1"
      "driver_ready (tq_after x tq) h1 pd pa pu (ptr_add pb (request_size x)) (room - request_size x)"
    using exchange_answers [OF Cons.prems(1,2) wake x assms(2,3) handle] unfolding visible_def Cons.prems(4) by blast
  have idx: "unat (tq_next_desc_idx (tq_after x tq)) = unat (tq_next_desc_idx tq) + request_descs x"
    using x(3) by (simp add: tq_after_def unat_word_ariths unat_of_nat)
  have "tq_kick_w (tq_after x tq) = kick_w" "tq_call_r (tq_after x tq) = call_r"
    using Cons.prems(3,4) by (simp_all add: tq_after_def)
  moreover have "\<forall>x \<in> set xs. request_ok x" "sum_list (map request_size xs) \<le> room - request_size x"
      "unat (tq_next_desc_idx (tq_after x tq)) + sum_list (map request_descs xs) \<le> 64"
      "n + 2 + 2 * length xs < 2 ^ 64 - 1"
    using Cons.prems(5-7,9) idx by auto
  ultimately obtain rs s' w' tq' srv' h' where
      "answered_run H (woken fuel V conn kick_r kick_w) (called V call_r call_w) (map (\<lambda>x. concat (fst x)) xs)
         (s1, called V call_r call_w w1) = (Some rs, s', w')"
      "list_all2 (\<lambda>x. answers (concat (fst x))) xs rs"
      "conversation fuel H V xs (tq_after x tq, srv1, h1, called V call_r call_w w1) = Some (map2 visible xs rs, tq', srv', h', w')"
      "srv_session srv' = s'"
    using Cons.IH [OF ex(4,3), of "n + 2" "called V call_r call_w w1"] r(3) unfolding ex(2) by blast
  with r ex(1) show ?case by simp
qed simp

section \<open>The handshake\<close>

text \<open>What the server looks like after the messages of \<open>TestQueue::new\<close>.\<close>

definition handshake_mem :: "host_ptr \<Rightarrow> guest_memory" where
  "handshake_mem base = [\<lparr>rg_gpa = GPA_BASE, rg_user_addr = USER_BASE, rg_len = push_bit 20 8, rg_ptr = base,
     rg_mmap_base = base, rg_mmap_len = push_bit 20 8\<rparr>]"

definition handshake_server :: "fd \<Rightarrow> session \<Rightarrow> host_ptr \<Rightarrow> fd \<Rightarrow> fd \<Rightarrow> server" where
  "handshake_server conn s base kick_r call_w =
     \<lparr>srv_conn = conn, srv_mem = Some (handshake_mem base),
      srv_vrings = [vring_slot_default,
        \<lparr>slot_queue_size = Some TEST_QUEUE_SIZE, slot_pending_avail_base = 0,
         slot_vq = Some (virtqueue_new TEST_QUEUE_SIZE test_desc_addr test_avail_addr test_used_addr),
         slot_kick_fd = Some kick_r, slot_call_fd = Some call_w, slot_enabled = True\<rparr>],
      srv_session = s\<rparr>"

lemma handle_requests_Cons:
  "handle_requests H V ((r, payload, fds) # ms) \<sigma> = (Ok (), \<sigma>'') \<Longrightarrow>
   \<exists>\<sigma>'. handle_request H V r payload fds \<sigma> = (Ok (), \<sigma>') \<and> handle_requests H V ms \<sigma>' = (Ok (), \<sigma>'')"
  by (auto split: prod.splits result.splits)

lemma ctl_reply_Ok: "ctl_reply V r body (srv, w) = (Ok (), srv', w') \<Longrightarrow> srv' = srv"
  by (auto simp: ctl_reply_def split: prod.splits)

lemma set_test_mem:
  assumes "ctl_set_mem_table V (memory_regions_to_bytes [test_region]) [d] (srv, w) = (Ok (), srv', w')" and "srv_mem srv = None"
  shows "\<exists>base. srv' = srv\<lparr>srv_mem := Some (handshake_mem base)\<rparr>"
proof -
  have "memory_regions_from_bytes (memory_regions_to_bytes [test_region]) = Ok [test_region]"
    using memory_regions_round_trip [of "[test_region]" "[]"] by simp
  then show ?thesis
    using assms by (auto simp: ctl_set_mem_table_def ctl_try_def map_regions_def map_one_def test_region_def handshake_mem_def
        ptr_add_def Let_def split: if_splits prod.splits sum.splits result.splits)
qed

lemma handle_skipped:
  "handle_requests H V ((SetFeatures, u64_payload_to_bytes v, []) # ms) \<sigma> = handle_requests H V ms \<sigma>"
  "handle_requests H V ((SetProtocolFeatures, b, []) # ms) \<sigma> = handle_requests H V ms \<sigma>"
  "handle_requests H V ((SetOwner, b, []) # ms) \<sigma> = handle_requests H V ms \<sigma>"
  using u64_payload.dec_enc [of v "[]"] by (simp_all add: handle_request_def ctl_try_def ctl_done_def)

lemma handle_enable:
  "handle_requests H V ((SetVringEnable, vring_state_to_bytes \<lparr>vs_index = i, vs_num = n\<rparr>, []) # ms) (srv, w) =
     handle_requests H V ms (update_slot (unat i) (\<lambda>s. s\<lparr>slot_enabled := (n \<noteq> 0)\<rparr>) srv, w)"
  using vring_state.dec_enc [of _ "[]"] by (simp add: handle_request_def ctl_try_def ctl_slot_def)

lemma handle_new_fd:
  assumes "slot_at srv (unat i) = Some slot"
  shows "slot_kick_fd slot = None \<Longrightarrow>
      handle_requests H V ((SetVringKick, vring_fd_payload_to_bytes \<lparr>vf_index = i, vf_no_fd = False\<rparr>, [d]) # ms) (srv, w) =
      handle_requests H V ms (update_slot (unat i) (\<lambda>s. s\<lparr>slot_kick_fd := Some d\<rparr>) srv, w)"
    and "slot_call_fd slot = None \<Longrightarrow>
      handle_requests H V ((SetVringCall, vring_fd_payload_to_bytes \<lparr>vf_index = i, vf_no_fd = False\<rparr>, [d]) # ms) (srv, w) =
      handle_requests H V ms (update_slot (unat i) (\<lambda>s. s\<lparr>slot_call_fd := Some d\<rparr>) srv, w)"
  using assms vring_fd_payload.dec_enc [of "\<lparr>vf_index = i, vf_no_fd = False\<rparr>" "[]"]
  by (simp_all add: handle_request_def ctl_try_def ctl_set_kick_def ctl_set_call_def take_fd_def close_opt_def)

lemma handshake_vring:
  "handle_requests H V (drop 6 (test_handshake mem_file kick_r call_w)) (server_new conn s\<lparr>srv_mem := Some (handshake_mem base)\<rparr>, w) =
     (Ok (), handshake_server conn s base kick_r call_w, w)"
proof -
  let ?vq = "virtqueue_new TEST_QUEUE_SIZE test_desc_addr test_avail_addr test_used_addr"
  let ?slot = "\<lambda>k c e. \<lparr>slot_queue_size = Some TEST_QUEUE_SIZE, slot_pending_avail_base = 0, slot_vq = Some ?vq,
      slot_kick_fd = k, slot_call_fd = c, slot_enabled = e\<rparr>"
  let ?srv = "\<lambda>sl. \<lparr>srv_conn = conn, srv_mem = Some (handshake_mem base), srv_vrings = [vring_slot_default, sl], srv_session = s\<rparr>"
  have new: "server_new conn s\<lparr>srv_mem := Some (handshake_mem base)\<rparr> = ?srv vring_slot_default"
    by (simp add: server_new_def NUM_QUEUES_def numeral_2_eq_2)
  have upd: "update_slot (Suc 0) f (?srv sl) = ?srv (f sl)" for f sl
    by (simp add: update_slot_def)
  have at: "slot_at (?srv sl) (Suc 0) = Some sl" for sl
    by (simp add: slot_at_def)
  have built: "set_vring_base 0 (maybe_build \<lparr>va_index = 1, va_flags = 0, va_descriptor = test_desc_addr, va_used = test_used_addr,
      va_avail = test_avail_addr, va_log = 0\<rparr> (vring_slot_default\<lparr>slot_queue_size := Some TEST_QUEUE_SIZE\<rparr>)) = ?slot None None False"
    by (simp add: maybe_build_def set_vring_base_def vring_slot_default_def set_avail_base_def virtqueue_new_def)
  have size: "(ucast (ucast TEST_QUEUE_SIZE :: u32) :: u16) = TEST_QUEUE_SIZE"
    by (simp add: TEST_QUEUE_SIZE_def)
  show ?thesis
    unfolding new test_handshake_def
    by (simp add: handle_set_slot upd built size handle_new_fd at handle_enable del: handle_requests.simps(2))
      (simp add: handshake_server_def)
qed

lemma handshake_result:
  assumes "handle_requests H V (test_handshake mem_file kick_r call_w) (server_new conn s, w0) = (Ok (), srv, w)"
  shows "\<exists>base. srv = handshake_server conn s base kick_r call_w"
proof -
  let ?srv = "server_new conn s"
  define rest where "rest = drop 6 (test_handshake mem_file kick_r call_w)"
  have "test_handshake mem_file kick_r call_w = (GetFeatures, [], []) # (SetFeatures, u64_payload_to_bytes VIRTIO_FEATURES, []) #
      (GetProtocolFeatures, [], []) # (SetProtocolFeatures, u64_payload_to_bytes 0, []) # (SetOwner, [], []) #
      (SetMemTable, memory_regions_to_bytes [test_region], [mem_file]) # rest"
    by (simp add: test_handshake_def rest_def)
  from handle_requests_Cons [OF assms [unfolded this]] obtain srv1 w1
    where 1: "handle_request H V GetFeatures [] [] (?srv, w0) = (Ok (), srv1, w1)"
      "handle_requests H V ((GetProtocolFeatures, [], []) # (SetProtocolFeatures, u64_payload_to_bytes 0, []) # (SetOwner, [], []) #
         (SetMemTable, memory_regions_to_bytes [test_region], [mem_file]) # rest) (srv1, w1) = (Ok (), srv, w)"
    unfolding handle_skipped by (metis surj_pair)
  from handle_requests_Cons [OF 1(2)] obtain srv2 w2
    where 2: "handle_request H V GetProtocolFeatures [] [] (srv1, w1) = (Ok (), srv2, w2)"
      "handle_requests H V ((SetMemTable, memory_regions_to_bytes [test_region], [mem_file]) # rest) (srv2, w2) = (Ok (), srv, w)"
    unfolding handle_skipped by (metis surj_pair)
  from handle_requests_Cons [OF 2(2)] obtain srv3 w3
    where 3: "handle_request H V SetMemTable (memory_regions_to_bytes [test_region]) [mem_file] (srv2, w2) = (Ok (), srv3, w3)"
      "handle_requests H V rest (srv3, w3) = (Ok (), srv, w)"
    by (metis surj_pair)
  have "srv2 = ?srv"
    using 1(1) 2(1) by (auto simp: handle_request_def dest!: ctl_reply_Ok)
  then obtain base where "srv3 = ?srv\<lparr>srv_mem := Some (handshake_mem base)\<rparr>"
    using set_test_mem [of V mem_file ?srv w2 srv3 w3] 3(1) by (auto simp: handle_request_def)
  with 3(2) have "srv = handshake_server conn s base kick_r call_w" by (simp add: rest_def handshake_vring)
  then show ?thesis by blast
qed

section \<open>Ready to talk\<close>

lemma handshake_base [simp]:
  "rg_gpa (hd (handshake_mem base)) = 0x40000000" "rg_user_addr (hd (handshake_mem base)) = 0x7f00000000"
  by (simp_all add: handshake_mem_def GPA_BASE_def USER_BASE_def)

lemma handshake_slice:
  assumes "unat (base_for sp (hd (handshake_mem base))) + k = unat a" and "k + unat n \<le> 8388608"
  shows "get_slice (handshake_mem base) sp a n = Some (ptr_add base k, unat n)"
proof -
  have "in_region sp a n (hd (handshake_mem base))"
    using assms by (simp add: in_region_iff) (simp add: handshake_mem_def push_bit_eq_mult)
  moreover from in_region_offset [OF this] assms(1) have "unat (a - base_for sp (hd (handshake_mem base))) = k" by simp
  ultimately show ?thesis
    by (simp add: get_slice_def find_region_def) (simp add: handshake_mem_def)
qed

lemma handshake_layout:
  "ring_at (handshake_mem base) test_desc_addr 1024 (ptr_add base 4096)"
  "ring_at (handshake_mem base) test_avail_addr 132 (ptr_add base 5120)"
  "ring_at (handshake_mem base) test_used_addr 516 (ptr_add base 5316)"
  "arena (handshake_mem base) (GPA_BASE + 0x100000) 7340032 (ptr_add base 1048576)"
  using handshake_slice [of User base 4096 test_desc_addr 1024] handshake_slice [of User base 5120 test_avail_addr 132]
    handshake_slice [of User base 5316 test_used_addr 516] handshake_slice [of Gpa base 1048576 "GPA_BASE + 0x100000" 7340032]
  by (simp_all add: ring_at_def arena_def test_desc_addr_def test_avail_addr_def
      test_used_addr_def TEST_QUEUE_SIZE_def GPA_BASE_def USER_BASE_def)

lemma handshake_disjoint: "regions_disjoint sp (handshake_mem base)"
  by (cases sp) (simp_all add: regions_disjoint_def handshake_mem_def GPA_BASE_def USER_BASE_def push_bit_eq_mult)

lemma handshake_ready:
  assumes "mem_read_u16 (handshake_mem base) h User (test_avail_addr + 2) = Some 0"
  shows "driver_ready (test_queue_new (handshake_mem base) call_r kick_w) h (ptr_add base 4096) (ptr_add base 5120)
     (ptr_add base 5316) (ptr_add base 1048576) 7340032"
proof -
  have "get_slice (handshake_mem base) User (test_avail_addr + 2) 2 = Some (ptr_add (ptr_add base 5120) 2, 2)"
    using ring_field [OF handshake_disjoint handshake_layout(2), of 2 2 2] by simp
  with assms have "ring_idx h (ptr_add base 5120) = 0"
    by (simp add: mem_read_u16_def ring_idx_def)
  with handshake_disjoint handshake_layout show ?thesis
    by (simp add: driver_ready_def vring_mapped_def test_queue_new_def)
      (simp add: all_apart_def slices_apart_def ptr_add_def)
qed

lemma handshake_wired:
  "server_wired 1 conn kick_r call_w (test_queue_new (handshake_mem base) call_r kick_w) (handshake_server conn s base kick_r call_w)"
  by (simp add: server_wired_def handshake_server_def test_queue_new_def queue_of_def virtqueue_new_def kick_slots_def vring_slot_default_def)

lemma request_descs_pos: "request_ok x \<Longrightarrow> 0 < request_descs x"
  by (auto simp: request_ok_def request_descs_def)

text \<open>After the handshake the driver has 7 MiB and 64 descriptors to work with.\<close>

lemma handshake_starts:
  assumes "handle_requests H V (test_handshake mem_file kick_r call_w) (server_new conn s, w0) = (Ok (), srv, w)"
    and "srv_mem srv = Some mem" and "mem_read_u16 mem h User (test_avail_addr + 2) = Some 0"
  obtains pd pa pu pb where "driver_ready (test_queue_new mem call_r kick_w) h pd pa pu pb 7340032"
    and "server_wired 1 conn kick_r call_w (test_queue_new mem call_r kick_w) srv" and "srv_session srv = s"
proof -
  obtain base where srv: "srv = handshake_server conn s base kick_r call_w"
    using handshake_result [OF assms(1)] by blast
  then have mem: "mem = handshake_mem base"
    using assms(2) by (simp add: handshake_server_def)
  have "srv_session srv = s" by (simp add: srv handshake_server_def)
  with that handshake_ready [OF assms(3) [unfolded mem]] handshake_wired show ?thesis
    unfolding mem srv by blast
qed

lemma requests_few:
  assumes "\<forall>x \<in> set xs. request_ok x" and "sum_list (map request_descs xs) \<le> 64" and "n + 2 * 64 < m"
  shows "n + 2 * length xs < m"
proof -
  have "length xs \<le> sum_list (map request_descs xs)"
    using assms(1) by (induction xs) (auto dest!: request_descs_pos)
  then show ?thesis using assms(2,3) by simp
qed

lemma fresh_queue [simp]:
  "tq_kick_w (test_queue_new mem call_r kick_w) = kick_w" "tq_call_r (test_queue_new mem call_r kick_w) = call_r"
  "tq_next_desc_idx (test_queue_new mem call_r kick_w) = 0"
  by (simp_all add: test_queue_new_def)

text \<open>
  C4. A guest that sets up a vring and puts its requests on it is answered as if it called the
  session directly. After the handshake of the driver, for any requests in any pieces, with reply
  buffers in any pieces, one request after the other: every turn of the event loop that a kick
  starts goes on, the id on the used ring is the chain's head, and the bytes the guest finds in its
  buffers are the session's answer, as far as there is room, each of them a proper answer to its
  request. The hypotheses: the host's vectored I/O and the wake-ups behave as documented, the
  memory is new, buffers are not empty, a \<open>READ\<close> has room for the header and all it asks for, and
  the requests fit the 64 descriptors and 7 MiB the driver has.
\<close>

theorem guest_is_answered:
  assumes "passthrough_ok n (ses_fs s)" and "n + 2 * 64 < 2 ^ 64 - 1"
    and "handle_requests H V (test_handshake mem_file kick_r call_w) (server_new conn s, w0) = (Ok (), srv, w)"
    and "srv_mem srv = Some mem" and "mem_read_u16 mem h User (test_avail_addr + 2) = Some 0"
    and "wake_ups fuel V conn kick_r kick_w call_r call_w" and "vectored_io H" and "1 < fuel"
    and "\<forall>x \<in> set xs. request_ok x" and "sum_list (map request_size xs) \<le> 7 * 2 ^ 20" and "sum_list (map request_descs xs) \<le> 64"
  shows "\<exists>rs s' w' tq' srv' h'.
     answered_run H (woken fuel V conn kick_r kick_w) (called V call_r call_w) (map (\<lambda>x. concat (fst x)) xs) (s, w) =
       (Some rs, s', w') \<and>
     list_all2 (\<lambda>x. answers (concat (fst x))) xs rs \<and>
     conversation fuel H V xs (test_queue_new mem call_r kick_w, srv, h, w) = Some (map2 visible xs rs, tq', srv', h', w') \<and>
     srv_session srv' = s'"
proof -
  let ?tq = "test_queue_new mem call_r kick_w"
  obtain pd pa pu pb where start: "driver_ready ?tq h pd pa pu pb 7340032" "server_wired 1 conn kick_r call_w ?tq srv"
      "srv_session srv = s"
    using handshake_starts [OF assms(3-5)] by blast
  have "passthrough_ok n (ses_fs (srv_session srv))" "sum_list (map request_size xs) \<le> 7340032"
      "unat (tq_next_desc_idx ?tq) + sum_list (map request_descs xs) \<le> 64"
    using assms(1,10,11) start(3) by simp_all
  from conversation_answers [OF assms(6-8) start(1,2) fresh_queue(1,2) assms(9) this(2,3,1) requests_few [OF assms(9,11,2)]]
  show ?thesis by (simp add: start(3))
qed

section \<open>The first request\<close>

text \<open>The \<open>INIT\<close> request the driver of the source's tests starts with.\<close>

definition init_request :: "u64 \<Rightarrow> bytes" where
  "init_request unique =
     (let body = writer_u32 0 (writer_u32 0 (writer_u32 45 (writer_u32 7 writer_new)));
          w = writer_u32 (of_nat (IN_HEADER_LEN + length body)) writer_new;
          w = writer_u32 26 w;
          w = writer_u64 unique w;
          w = writer_u64 0 w;
          w = writer_u32 0 (writer_u32 0 (writer_u32 0 w));
          w = writer_u32 0 w
      in writer_bytes body w)"

lemma init_request_raw: "init_request u = raw_request 56 26 u 0 (le32 7 @ le32 45 @ le32 0 @ le32 0)"
  by (simp add: init_request_def raw_request_def writer_defs IN_HEADER_LEN_def Let_def)

lemma init_answer: "session_handle H (init_request u) \<sigma> = (Some (ok_reply u (init_out 0)), \<sigma>)"
proof -
  have "init_in_from_bytes (le32 7 @ le32 45 @ le32 0 @ le32 0) =
      Ok \<lparr>init_major = 7, init_minor = 45, init_max_readahead = 0, init_flags = 0\<rparr>"
    by (simp add: init_in_from_bytes_eq rust_slice_def word_at_append_right)
  then show ?thesis
    by (simp add: init_request_raw session_handle_raw opcode_from_def handle_op_def try_parse_def done_reply_def)
qed

text \<open>A front-end whose control connection, descriptor 9, is quiet, and all of whose wake-ups arrive.\<close>

definition driver_vmm :: "mem_world vmm" where
  "driver_vmm = mem_vmm\<lparr>sys_poll := (\<lambda>ds w. (Inr (map (\<lambda>d. if d = 9 then 0 else POLLIN) ds), w))\<rparr>"

lemma driver_vmm_sel [simp]:
  "page_size driver_vmm = 4096" "sys_mmap driver_vmm d m off w = (Inr (unat d, unat off), w)"
  "sys_send_with_fd driver_vmm = mem_send" "sys_read driver_vmm d n w = (Inr [], w)"
  "sys_write driver_vmm d b w = (Inr (length b), w)"
  "sys_poll driver_vmm ds w = (Inr (map (\<lambda>d. if d = 9 then 0 else POLLIN) ds), w)"
  by (simp_all add: driver_vmm_def)

lemma driver_vmm_wakes: "wake_ups 2 driver_vmm 9 21 23 24 22"
proof -
  have "drain_fd 2 driver_vmm d w = Some w" for d w
    using drain_fd.simps(2) [of 1 driver_vmm d w] by (simp add: numeral_2_eq_2)
  then show ?thesis by (simp add: wake_ups_def kick_world_def notify_def POLLIN_def)
qed

lemma driver_vmm_reply: "\<exists>w'. ctl_reply driver_vmm r b (srv, w) = (Ok (), srv, w') \<and> mw_file w' = mw_file w"
proof -
  obtain w' where "send_loop driver_vmm (msg_header_to_bytes (msg_header_reply r (of_nat (length b))) @ b) [] 0 w = (Ok (), w')"
      "mw_file w' = mw_file w"
    using mem_send_loop [of driver_vmm 0 "msg_header_to_bytes (msg_header_reply r (of_nat (length b))) @ b"] by auto
  then show ?thesis by (simp add: ctl_reply_def server_reply_def connection_send_def)
qed

lemma driver_vmm_handshake:
  "\<exists>w. handle_requests mem_host driver_vmm (test_handshake 20 21 22) (server_new 9 s, w0) =
     (Ok (), handshake_server 9 s (20, 0) 21 22, w) \<and> mw_file w = mw_file w0"
proof -
  let ?srv = "server_new 9 s"
  define rest where "rest = drop 6 (test_handshake 20 21 22)"
  have hs: "test_handshake 20 21 22 = (GetFeatures, [], []) # (SetFeatures, u64_payload_to_bytes VIRTIO_FEATURES, []) #
      (GetProtocolFeatures, [], []) # (SetProtocolFeatures, u64_payload_to_bytes 0, []) # (SetOwner, [], []) #
      (SetMemTable, memory_regions_to_bytes [test_region], [20]) # rest"
    by (simp add: test_handshake_def rest_def)
  obtain w1 where 1: "handle_request mem_host driver_vmm GetFeatures [] [] (?srv, w0) = (Ok (), ?srv, w1)"
      "mw_file w1 = mw_file w0"
    using driver_vmm_reply [of GetFeatures "u64_payload_to_bytes VIRTIO_FEATURES" ?srv w0] by (auto simp: handle_request_def)
  obtain w2 where 2: "handle_request mem_host driver_vmm GetProtocolFeatures [] [] (?srv, w1) = (Ok (), ?srv, w2)"
      "mw_file w2 = mw_file w1"
    using driver_vmm_reply [of GetProtocolFeatures "u64_payload_to_bytes PROTOCOL_FEATURES" ?srv w1] by (auto simp: handle_request_def)
  have "memory_regions_from_bytes (memory_regions_to_bytes [test_region]) = Ok [test_region]"
    using memory_regions_round_trip [of "[test_region]" "[]"] by simp
  then have 3: "handle_request mem_host driver_vmm SetMemTable (memory_regions_to_bytes [test_region]) [20] (?srv, w2) =
      (Ok (), ?srv\<lparr>srv_mem := Some (handshake_mem (20, 0))\<rparr>, w2)"
    by (simp add: handle_request_def ctl_set_mem_table_def ctl_try_def map_regions_def map_one_def test_region_def
        handshake_mem_def ptr_add_def Let_def)
  have "handle_requests mem_host driver_vmm (test_handshake 20 21 22) (?srv, w0) =
      handle_requests mem_host driver_vmm rest (?srv\<lparr>srv_mem := Some (handshake_mem (20, 0))\<rparr>, w2)"
    by (simp only: hs handle_skipped handle_requests.simps(2) [of _ _ GetFeatures] handle_requests.simps(2) [of _ _ GetProtocolFeatures]
        handle_requests.simps(2) [of _ _ SetMemTable] 1(1) 2(1) 3 prod.case result.case)
  also have "\<dots> = (Ok (), handshake_server 9 s (20, 0) 21 22, w2)"
    unfolding rest_def by (rule handshake_vring)
  finally show ?thesis using 1(2) 2(2) by auto
qed

lemma fresh_ring: "mem_read_u16 (handshake_mem (20, 0)) (\<lambda>_. 0) User (test_avail_addr + 2) = Some 0"
  using ring_field [OF handshake_disjoint handshake_layout(2) [of "(20, 0)"], of 2 2 2]
  by (simp add: mem_read_u16_def load_def upt_rec)

text \<open>The test \<open>full_handshake_and_one_request_over_a_real_socket\<close>, with its assertions.\<close>

theorem guest_is_answered_witness:
  "\<exists>w reply \<sigma>. handle_requests mem_host driver_vmm (test_handshake 20 21 22) (server_new 9 (session_new mem_fs), mem_world1) =
       (Ok (), handshake_server 9 (session_new mem_fs) (20, 0) 21 22, w) \<and>
     conversation 2 mem_host driver_vmm [([init_request 1], [4096])]
       (test_queue_new (handshake_mem (20, 0)) 24 23, handshake_server 9 (session_new mem_fs) (20, 0) 21 22, \<lambda>_. 0, w) =
       Some ([reply], \<sigma>) \<and>
     length reply = INIT_OUT_LEN + OUT_HEADER_LEN \<and> u32_at 4 reply = 0 \<and> u32_at OUT_HEADER_LEN reply = 7"
proof -
  let ?srv = "handshake_server 9 (session_new mem_fs) (20, 0) 21 22" and ?x = "([init_request 1], [4096])"
  obtain w where hs: "handle_requests mem_host driver_vmm (test_handshake 20 21 22) (server_new 9 (session_new mem_fs), mem_world1) =
      (Ok (), ?srv, w)"
    using driver_vmm_handshake by blast
  have mem: "srv_mem ?srv = Some (handshake_mem (20, 0))" by (simp add: handshake_server_def)
  have ok: "passthrough_ok 2 (ses_fs (session_new mem_fs))"
    using passthrough_ok_new [OF mem_passthrough_new] by (simp add: session_new_def)
  have x: "\<forall>x \<in> set [?x]. request_ok x"
    by (simp add: request_ok_def init_request_raw) (simp add: raw_request_def word_at_append_right opcode_from_def)
  obtain rs s' w' tq' srv' h' where
    run: "answered_run mem_host (woken 2 driver_vmm 9 21 23) (called driver_vmm 24 22) (map (\<lambda>x. concat (fst x)) [?x]) (session_new mem_fs, w) =
       (Some rs, s', w')" and
    conv: "conversation 2 mem_host driver_vmm [?x] (test_queue_new (handshake_mem (20, 0)) 24 23, ?srv, \<lambda>_. 0, w) =
       Some (map2 visible [?x] rs, tq', srv', h', w')"
    using guest_is_answered [OF ok _ hs mem fresh_ring driver_vmm_wakes mem_host_vectored_io _ x]
    by (auto simp: request_size_def request_descs_def init_request_raw)
  from run have "rs = [ok_reply 1 (init_out 0)]"
    by (simp add: init_answer)
  moreover have "length (out_header_reply 1 0 (init_out 0)) = 80"
    by (simp add: length_out_header_reply length_init_out INIT_OUT_LEN_def)
  moreover have "u32_at 16 (out_header_reply 1 0 (init_out 0)) = 7"
    by (simp add: out_header_reply_eq init_out_def writer_defs Let_def word_at_append_right INIT_OUT_LEN_def)
  ultimately show ?thesis
    using hs conv by (auto simp: visible_def ok_reply_def out_header_reply_fields INIT_OUT_LEN_def OUT_HEADER_LEN_def simp del: conversation.simps)
qed

end
