(* ===== verification/Guest_Data.thy ===== *)
theory Guest_Data
  imports End_To_End Engine_Limits
begin

text \<open>
  File data on its way through the whole daemon: the guest's driver puts a \<open>WRITE\<close> and then a
  \<open>READ\<close> on the vring, in as many buffers as it likes, and finds in its memory what it wrote. It
  is the statement behind the zero-copy tests of \<open>vhost_user/server.rs\<close>, for any data, offset
  and division into buffers.
\<close>

section \<open>The requests of the tests\<close>

definition write_request_header :: "u64 \<Rightarrow> u64 \<Rightarrow> u64 \<Rightarrow> u32 \<Rightarrow> bytes" where
  "write_request_header unique fh offset sz =
     (let body = writer_u32 sz (writer_u64 offset (writer_u64 fh writer_new));
          body = writer_u32 0 body;
          body = writer_u64 0 body;
          body = writer_u32 0 (writer_u32 0 body);
          w = writer_u32 (of_nat (IN_HEADER_LEN + length body)) writer_new;
          w = writer_u32 16 w;
          w = writer_u64 unique w;
          w = writer_u64 1 w;
          w = writer_u32 0 (writer_u32 0 (writer_u32 0 w));
          w = writer_u32 0 w
      in writer_bytes body w)"

definition read_request_header :: "u64 \<Rightarrow> u64 \<Rightarrow> u64 \<Rightarrow> u32 \<Rightarrow> bytes" where
  "read_request_header unique fh offset sz =
     (let body = writer_u32 sz (writer_u64 offset (writer_u64 fh writer_new));
          body = writer_u32 0 body;
          body = writer_u64 0 body;
          body = writer_u32 0 (writer_u32 0 body);
          w = writer_u32 (of_nat (IN_HEADER_LEN + length body)) writer_new;
          w = writer_u32 15 w;
          w = writer_u64 unique w;
          w = writer_u64 1 w;
          w = writer_u32 0 (writer_u32 0 (writer_u32 0 w));
          w = writer_u32 0 w
      in writer_bytes body w)"

lemma write_request_raw:
  "write_request_header u fh off (of_nat (length data)) @ data = raw_request 80 16 u 1 (write_body fh off data)"
  by (simp add: write_request_header_def raw_request_def write_body_def writer_defs IN_HEADER_LEN_def Let_def)

lemma read_request_raw: "read_request_header u fh off sz = raw_request 80 15 u 1 (read_body fh off sz)"
proof -
  have "le32 0 @ le64 0 @ le32 0 @ le32 0 = replicate 20 (0 :: u8)"
    by (simp add: numeral_eq_Suc)
  then show ?thesis
    by (simp add: read_request_header_def raw_request_def read_body_def writer_defs IN_HEADER_LEN_def Let_def)
qed

lemma session_write:
  assumes "length data < 2 ^ 32" and "handle_map (handles (ses_fs s)) fh = Some (FileHandle d)"
    and "sys_pwrite H d data off w = (Inr n, w')"
  shows "session_handle H (write_request_header u fh off (of_nat (length data)) @ data) (s, w) =
    (Some (ok_reply u (write_out (of_nat n))), s, w')"
proof -
  have "length (write_body fh off data) < 2 ^ 62" using assms(1) by (simp add: write_body_def)
  then show ?thesis
    by (simp add: write_request_raw session_handle_raw opcode_from_def handle_op_write [OF assms])
qed

lemma session_read:
  assumes "handle_map (handles (ses_fs s)) fh = Some (FileHandle d)"
    and "sys_pread H d (unat sz) off w = (Inr data, w')"
  shows "session_handle H (read_request_header u fh off sz) (s, w) = (Some (ok_reply u data), s, w')"
  by (simp add: read_request_raw session_handle_raw read_body_def opcode_from_def)
    (simp add: handle_op_read [OF assms, unfolded read_body_def])

section \<open>Through guest memory and back\<close>

text \<open>Waking up the other side does not change what the file behind a descriptor holds.\<close>

definition wakes_spare_file :: "'w host \<Rightarrow> fd \<Rightarrow> ('w \<Rightarrow> 'w) \<Rightarrow> ('w \<Rightarrow> 'w) \<Rightarrow> bool" where
  "wakes_spare_file H d wake call \<longleftrightarrow>
     (\<forall>n off w. fst (sys_pread H d n off (wake (call w))) = fst (sys_pread H d n off w))"

lemma answered_write_read:
  assumes "read_after_write H rdwr" and "rdwr d (wake w)" and "wakes_spare_file H d wake call"
    and "handle_map (handles (ses_fs s)) fh = Some (FileHandle d)" and "length data < 2 ^ 32"
    and "sys_pwrite H d data off (wake w) = (Inr n, w1)" and "unat sz \<le> n"
  shows "\<exists>w2. answered_run H wake call
     [write_request_header u1 fh off (of_nat (length data)) @ data, read_request_header u2 fh off sz] (s, w) =
     (Some [ok_reply u1 (write_out (of_nat n)), ok_reply u2 (take (unat sz) data)], s, w2)"
proof -
  obtain w2 where "sys_pread H d (unat sz) off w1 = (Inr (take (unat sz) data), w2)"
    using assms(1,2,6,7) unfolding read_after_write_def by blast
  then have "fst (sys_pread H d (unat sz) off (wake (call w1))) = Inr (take (unat sz) data)"
    using assms(3) by (simp add: wakes_spare_file_def)
  then obtain w3 where "sys_pread H d (unat sz) off (wake (call w1)) = (Inr (take (unat sz) data), w3)"
    by (metis prod.collapse)
  from session_read [OF assms(4) this] session_write [OF assms(5,4,6)] show ?thesis
    by simp
qed

text \<open>
  C12. A guest reads back what it wrote, through the whole daemon. After the driver's handshake, a
  \<open>WRITE\<close> of any data to an open file, put on the vring in any number of buffers, is answered with
  the number of bytes the host took, and a \<open>READ\<close> that follows, at the same offset and for no more
  than was taken, leaves exactly these bytes behind the reply's header in the buffers given for
  it, however they are divided. Both requests take the zero-copy path between file and guest
  memory. The handle's descriptor is open for reading and writing and not in append mode
  (\<open>rdwr\<close>), which is what the law of \<open>pread\<close> after \<open>pwrite\<close> asks for; the other hypotheses are
  those of the conversation, and that wake-ups do not change the file.
\<close>

theorem guest_reads_what_it_wrote:
  assumes "passthrough_ok n (ses_fs s)" and "n + 2 * 64 < 2 ^ 64 - 1"
    and "handle_requests H V (test_handshake mem_file kick_r call_w) (server_new conn s, w0) = (Ok (), srv, w)"
    and "srv_mem srv = Some mem" and "mem_read_u16 mem h User (test_avail_addr + 2) = Some 0"
    and "wake_ups fuel V conn kick_r kick_w call_r call_w" and "vectored_io H" and "1 < fuel"
    and "read_after_write H rdwr" and "rdwr d (woken fuel V conn kick_r kick_w w)"
    and "wakes_spare_file H d (woken fuel V conn kick_r kick_w) (called V call_r call_w)"
    and "handle_map (handles (ses_fs s)) fh = Some (FileHandle d)"
    and "sys_pwrite H d data off (woken fuel V conn kick_r kick_w w) = (Inr k, w1)" and "unat sz \<le> k"
    and "concat ins1 = write_request_header u1 fh off (of_nat (length data)) @ data"
    and "concat ins2 = read_request_header u2 fh off sz"
    and "\<forall>x \<in> set [(ins1, outs1), (ins2, outs2)]. request_ok x" and "24 \<le> sum_list (map unat outs1)"
    and "sum_list (map request_size [(ins1, outs1), (ins2, outs2)]) \<le> 7 * 2 ^ 20"
    and "sum_list (map request_descs [(ins1, outs1), (ins2, outs2)]) \<le> 64"
  shows "\<exists>\<sigma>. conversation fuel H V [(ins1, outs1), (ins2, outs2)] (test_queue_new mem call_r kick_w, srv, h, w) =
     Some ([out_header_reply u1 0 (write_out (of_nat k)), out_header_reply u2 0 (take (unat sz) data)], \<sigma>)"
proof -
  let ?tq = "test_queue_new mem call_r kick_w" and ?xs = "[(ins1, outs1), (ins2, outs2)]"
  obtain pd pa pu pb where start: "driver_ready ?tq h pd pa pu pb 7340032" "server_wired 1 conn kick_r call_w ?tq srv"
      "srv_session srv = s"
    using handshake_starts [OF assms(3-5)] by blast
  have "passthrough_ok n (ses_fs (srv_session srv))" "sum_list (map request_size ?xs) \<le> 7340032"
      "unat (tq_next_desc_idx ?tq) + sum_list (map request_descs ?xs) \<le> 64"
    using assms(1,19,20) start(3) by simp_all
  from conversation_answers [OF assms(6-8) start(1,2) fresh_queue(1,2) assms(17) this(2,3,1) requests_few [OF assms(17,20,2)], of w]
  obtain rs s' w' tq' srv' h' where run: "answered_run H (woken fuel V conn kick_r kick_w) (called V call_r call_w)
        [concat ins1, concat ins2] (s, w) = (Some rs, s', w')"
      and conv: "conversation fuel H V ?xs (?tq, srv, h, w) = Some (map2 visible ?xs rs, tq', srv', h', w')"
    unfolding start(3) by auto
  have "length (concat ins1) \<le> 7340032" using assms(19) by (simp add: request_size_def)
  then have "length data < 2 ^ 32" by (simp add: assms(15))
  from answered_write_read [OF assms(9-12) this assms(13,14), of u1 u2] run
  have rs: "rs = [ok_reply u1 (write_out (of_nat k)), ok_reply u2 (take (unat sz) data)]"
    by (auto simp only: assms(15,16) prod.inject option.inject)
  have "request_ok (ins2, outs2)" using assms(17) by simp
  then have "16 + unat sz \<le> sum_list (map unat outs2)"
    unfolding request_ok_def prod.case assms(16)
    by (simp add: read_request_raw OUT_HEADER_LEN_def)
      (simp add: raw_request_def read_body_def word_at_append_right opcode_from_def)
  then show ?thesis
    using conv assms(18)
    by (simp add: rs visible_def ok_reply_def length_out_header_reply write_out_def writer_defs
        del: conversation.simps)
qed

theorem guest_reads_what_it_wrote_witness:
  "\<exists>w \<sigma>. let s = session_new (mem_fs\<lparr>handles := \<lparr>handle_map = [1 \<mapsto> FileHandle 4], handle_next_id = 2\<rparr>\<rparr>) in
     handle_requests mem_host driver_vmm (test_handshake 20 21 22) (server_new 9 s, mem_world1) =
       (Ok (), handshake_server 9 s (20, 0) 21 22, w) \<and>
     conversation 2 mem_host driver_vmm
       [([write_request_header 2 1 1 5, [97, 98], [99, 100, 101]], [64]), ([read_request_header 3 1 1 4], [18, 200])]
       (test_queue_new (handshake_mem (20, 0)) 24 23, handshake_server 9 s (20, 0) 21 22, \<lambda>_. 0, w) =
       Some ([out_header_reply 2 0 (write_out 5), out_header_reply 3 0 [97, 98, 99, 100]], \<sigma>)"
proof -
  let ?s = "session_new (mem_fs\<lparr>handles := \<lparr>handle_map = [1 \<mapsto> FileHandle 4], handle_next_id = 2\<rparr>\<rparr>)"
  let ?srv = "handshake_server 9 ?s (20, 0) 21 22" and ?data = "[97, 98, 99, 100, 101] :: bytes"
  let ?xs = "[([write_request_header 2 1 1 5, [97, 98], [99, 100, 101]], [64]), ([read_request_header 3 1 1 4], [18, 200 :: u32])]"
  obtain w where hs: "handle_requests mem_host driver_vmm (test_handshake 20 21 22) (server_new 9 ?s, mem_world1) = (Ok (), ?srv, w)"
      "mw_file w = Some [104, 105]"
    using driver_vmm_handshake [of ?s mem_world1] by (auto simp: mem_world0_def)
  have mem: "srv_mem ?srv = Some (handshake_mem (20, 0))" by (simp add: handshake_server_def)
  have ok: "passthrough_ok 2 (ses_fs ?s)"
    using passthrough_ok_new [OF mem_passthrough_new]
    by (simp add: session_new_def passthrough_ok_def handle_store_ok_def)
  have drain: "drain_fd 2 driver_vmm d w = Some w" for d w
    using drain_fd.simps(2) [of 1 driver_vmm d w] by (simp add: numeral_2_eq_2)
  have quiet: "woken 2 driver_vmm 9 21 23 = id" "called driver_vmm 24 22 = id"
    by (simp_all add: fun_eq_iff woken_def called_def kick_world_def notify_def drain)
  then have spare: "wakes_spare_file mem_host 4 (woken 2 driver_vmm 9 21 23) (called driver_vmm 24 22)"
    by (simp add: wakes_spare_file_def)
  have fh: "handle_map (handles (ses_fs ?s)) 1 = Some (FileHandle 4)" by (simp add: session_new_def)
  obtain w1 where wr: "sys_pwrite mem_host 4 ?data 1 (woken 2 driver_vmm 9 21 23 w) = (Inr 5, w1)"
    by (simp add: quiet mem_pwrite_def hs(2))
  have len: "length (write_request_header 2 1 1 5) = 80" "length (read_request_header 3 1 1 4) = 80"
    by (simp_all add: write_request_header_def read_request_header_def writer_defs Let_def)
  have ins: "concat [write_request_header 2 1 1 5, [97, 98], [99, 100, 101]] =
      write_request_header 2 1 1 (of_nat (length ?data)) @ ?data" by simp
  have op: "opcode_from (u32_at 4 (write_request_header 2 1 1 5 @ ?data)) = OpWrite"
    using write_request_raw [of 2 1 1 ?data] by (simp add: raw_request_def word_at_append_right opcode_from_def)
  have "u32_at 56 (read_request_header 3 1 1 4) = 4"
    by (simp add: read_request_raw raw_request_def read_body_def word_at_append_right)
  then have x: "\<forall>x \<in> set ?xs. request_ok x"
    using op len by (auto simp: request_ok_def OUT_HEADER_LEN_def)
  have "\<exists>\<sigma>. conversation 2 mem_host driver_vmm ?xs (test_queue_new (handshake_mem (20, 0)) 24 23, ?srv, \<lambda>_. 0, w) =
      Some ([out_header_reply 2 0 (write_out (of_nat 5)), out_header_reply 3 0 (take (unat (4 :: u32)) ?data)], \<sigma>)"
    by (rule guest_reads_what_it_wrote [OF ok _ hs(1) mem fresh_ring driver_vmm_wakes mem_host_vectored_io _
          mem_host_read_after_write _ spare fh wr _ ins _ x])
      (simp_all add: len request_size_def request_descs_def quiet hs(2))
  with hs(1) show ?thesis
    by (auto simp: Let_def simp del: conversation.simps)
qed

end
