(* ===== verification/Unit_Tests.thy ===== *)
theory Unit_Tests
  imports Dispatch Virtqueue
begin

text \<open>
  The tests the source has beside its code, as definitions over the model: the cursor, the
  vhost-user messages, the FUSE wire format, the errno table, guest memory and the virtqueue. A
  test is the conjunction of its assertions, with a failed \<open>unwrap\<close> counting as false, and a
  lemma shows that it holds. They tie the model to the behaviour the code is tested for. Where a
  test leaves something to the machine (where memory is mapped, which errno numbers the host
  has), the lemma is for every choice.
\<close>

section \<open>The cursor (fuse/bytes.rs)\<close>

definition reader_writer_roundtrip :: bool where
  "reader_writer_roundtrip \<longleftrightarrow>
     (let bytes = writer_cstr [104, 105] (writer_u16 3 (writer_u64 2 (writer_u32 1 writer_new))) in
      bind (reader_u32 (reader_new bytes)) (\<lambda>(a, r).
      bind (reader_u64 r) (\<lambda>(b, r).
      bind (reader_u16 r) (\<lambda>(c, r).
      bind (reader_cstr r) (\<lambda>(d, r). Ok (a, b, c, d))))) = Ok (1, 2, 3, [104, 105]))"

definition reader_reports_truncation_instead_of_panicking :: bool where
  "reader_reports_truncation_instead_of_panicking \<longleftrightarrow>
     reader_u32 (reader_new [1, 2, 3]) = Err Truncated"

definition pad_to_is_a_noop_if_already_long_enough :: bool where
  "pad_to_is_a_noop_if_already_long_enough \<longleftrightarrow>
     writer_pad_to 2 (writer_bytes [1, 2, 3, 4] writer_new) = [1, 2, 3, 4]"

lemma cursor_tests:
  "reader_writer_roundtrip"
  "reader_reports_truncation_instead_of_panicking"
  "pad_to_is_a_noop_if_already_long_enough"
proof -
  let ?b = "le32 1 @ le64 2 @ le16 3 @ [104, 105, 0]"
  have "writer_cstr [104, 105] (writer_u16 3 (writer_u64 2 (writer_u32 1 writer_new))) = ?b"
    by (simp add: writer_defs)
  moreover have "rust_slice ?b" by (simp add: rust_slice_def)
  ultimately show "reader_writer_roundtrip"
    by (simp add: reader_writer_roundtrip_def reader_defs cursor word_at_append_right)
  show "reader_reports_truncation_instead_of_panicking"
    by (simp add: reader_reports_truncation_instead_of_panicking_def reader_defs cursor rust_slice_def)
  show "pad_to_is_a_noop_if_already_long_enough"
    by (simp add: pad_to_is_a_noop_if_already_long_enough_def writer_defs)
qed

section \<open>Messages (vhost\_user/header.rs, payload.rs)\<close>

definition header_roundtrip :: bool where
  "header_roundtrip \<longleftrightarrow>
     (let h = msg_header_new GetFeatures 0 8;
          h2 = msg_header_from_bytes (msg_header_to_bytes h)
      in h = h2 \<and> msg_header_request h2 = Ok GetFeatures \<and> \<not> msg_header_is_reply h2)"

definition reply_sets_flag :: bool where
  "reply_sets_flag \<longleftrightarrow>
     (let h = msg_header_reply GetFeatures 8
      in msg_header_is_reply h \<and> mh_flags h AND FLAG_VERSION_1 = FLAG_VERSION_1)"

definition unknown_request_is_an_error_not_a_panic :: bool where
  "unknown_request_is_an_error_not_a_panic \<longleftrightarrow>
     (let h = msg_header_from_bytes (msg_header_to_bytes (msg_header_new GetFeatures 0 0));
          raw = h\<lparr>mh_request := 9999\<rparr>
      in msg_header_request raw = Err (UnknownRequest 9999))"

definition u64_payload_roundtrip :: bool where
  "u64_payload_roundtrip \<longleftrightarrow>
     (let p = 0xdeadbeef00001234 in u64_payload_from_bytes (u64_payload_to_bytes p) = Ok p)"

definition vring_state_roundtrip :: bool where
  "vring_state_roundtrip \<longleftrightarrow>
     (let s = \<lparr>vs_index = 3, vs_num = 256\<rparr> in vring_state_from_bytes (vring_state_to_bytes s) = Ok s)"

definition vring_addr_roundtrip :: bool where
  "vring_addr_roundtrip \<longleftrightarrow>
     (let a = \<lparr>va_index = 1, va_flags = 0, va_descriptor = 0x1000, va_used = 0x2000,
               va_avail = 0x3000, va_log = 0\<rparr>
      in vring_addr_from_bytes (vring_addr_to_bytes a) = Ok a)"

definition vring_fd_payload_mask :: bool where
  "vring_fd_payload_mask \<longleftrightarrow>
     (let p = \<lparr>vf_index = 2, vf_no_fd = True\<rparr>; p2 = \<lparr>vf_index = 5, vf_no_fd = False\<rparr>
      in vring_fd_payload_from_bytes (vring_fd_payload_to_bytes p) = Ok p \<and>
         vring_fd_payload_from_bytes (vring_fd_payload_to_bytes p2) = Ok p2)"

definition memory_regions_roundtrip :: bool where
  "memory_regions_roundtrip \<longleftrightarrow>
     (let regions =
            [\<lparr>guest_phys_addr = 0, memory_size = 0x100000000, userspace_addr = 0x7f0000000000,
              mmap_offset = 0\<rparr>,
             \<lparr>guest_phys_addr = 0x100000000, memory_size = 0x2000, userspace_addr = 0x7f0000010000,
              mmap_offset = 0x1000\<rparr>]
      in memory_regions_from_bytes (memory_regions_to_bytes regions) = Ok regions)"

definition truncated_payload_is_an_error :: bool where
  "truncated_payload_is_an_error \<longleftrightarrow>
     u64_payload_from_bytes [1, 2, 3] = Err Truncated \<and>
     vring_state_from_bytes [1, 2, 3] = Err Truncated \<and>
     memory_regions_from_bytes [1, 0, 0, 0, 0, 0, 0, 0] = Err Truncated"

lemma header_tests:
  "header_roundtrip"
  "reply_sets_flag"
  "unknown_request_is_an_error_not_a_panic"
  by (simp_all add: header_roundtrip_def reply_sets_flag_def unknown_request_is_an_error_not_a_panic_def
      msg_header_round_trip msg_header_request_def msg_header_new_def msg_header_reply_def
      msg_header_is_reply_def request_try_from_def FLAG_VERSION_1_def FLAG_REPLY_def Let_def)

lemma payload_tests:
  "u64_payload_roundtrip"
  "vring_state_roundtrip"
  "vring_addr_roundtrip"
  "vring_fd_payload_mask"
  "memory_regions_roundtrip"
  "truncated_payload_is_an_error"
proof -
  show "u64_payload_roundtrip" "vring_state_roundtrip" "vring_addr_roundtrip" "vring_fd_payload_mask"
    using u64_payload.dec_enc [where rest = "[]"] vring_state.dec_enc [where rest = "[]"]
      vring_addr.dec_enc [where rest = "[]"] vring_fd_payload.dec_enc [where rest = "[]"]
    by (simp_all add: u64_payload_roundtrip_def vring_state_roundtrip_def vring_addr_roundtrip_def
        vring_fd_payload_mask_def)
  show "memory_regions_roundtrip"
    using memory_regions_round_trip [where rest = "[]"]
    by (simp add: memory_regions_roundtrip_def Let_def)
  have "u32_at 0 [1, 0, 0, 0, 0, 0, 0, 0] = 1"
    by (simp add: word_at_def slice_of_def)
  then have "memory_regions_from_bytes [1, 0, 0, 0, 0, 0, 0, 0] = Err Truncated"
    by (simp add: memory_regions_from_bytes_def)
  then show "truncated_payload_is_an_error"
    by (simp add: truncated_payload_is_an_error_def u64_payload.dec_short vring_state.dec_short)
qed

section \<open>FUSE replies (fuse/wire.rs)\<close>

definition init_out_advertises_max_pages_matching_max_write :: bool where
  "init_out_advertises_max_pages_matching_max_write \<longleftrightarrow>
     (let bytes = init_out 0 in
      length bytes = INIT_OUT_LEN \<and>
      (case bind (reader_u32 (reader_new bytes)) (\<lambda>(_, r).
            bind (reader_u32 r) (\<lambda>(minor, r).
            bind (reader_u32 r) (\<lambda>(_, r).
            bind (reader_u32 r) (\<lambda>(flags, r).
            bind (reader_u16 r) (\<lambda>(_, r).
            bind (reader_u16 r) (\<lambda>(_, r).
            bind (reader_u32 r) (\<lambda>(max_write, r).
            bind (reader_u32 r) (\<lambda>(_, r).
            bind (reader_u16 r) (\<lambda>(max_pages, r).
            Ok (minor, flags, max_write, max_pages)))))))))) of
         Ok (minor, flags, max_write, max_pages) \<Rightarrow>
           28 \<le> minor \<and> flags AND FUSE_MAX_PAGES \<noteq> 0 \<and> max_write = MAX_WRITE \<and>
           ucast max_pages * ASSUMED_GUEST_PAGE_SIZE = MAX_WRITE
       | _ \<Rightarrow> False))"

definition success_header_only_matches_reply_except_for_len :: bool where
  "success_header_only_matches_reply_except_for_len \<longleftrightarrow>
     (let via_reply = out_header_reply 0xabcd 0 [];
          via_header_only = out_header_success_header_only 0xabcd (16 + 4096)
      in length via_reply = OUT_HEADER_LEN \<and> length via_header_only = OUT_HEADER_LEN \<and>
         drop 4 via_reply = drop 4 via_header_only \<and> u32_at 0 via_header_only = 16 + 4096)"

lemma init_out_bytes:
  "init_out m = le32 7 @ le32 31 @ le32 m @ le32 0x00410001 @ le16 (- 1) @ le16 (((- 1) div 4) * 3) @
     le32 0x100000 @ le32 1 @ le16 256 @ le16 0 @ le32 0 @ le32 0 @ le16 0 @ replicate 22 0"
  by (simp add: init_out_def writer_defs INIT_OUT_LEN_def INIT_OUT_MINOR_def MAX_WRITE_def FUSE_WRITEBACK_CACHE_def
      FUSE_ASYNC_READ_def FUSE_MAX_PAGES_def ASSUMED_GUEST_PAGE_SIZE_def Let_def)

lemma wire_tests:
  "init_out_advertises_max_pages_matching_max_write"
  "success_header_only_matches_reply_except_for_len"
proof -
  have "rust_slice (init_out 0)" "length (init_out 0) = 64"
    by (simp_all add: init_out_bytes rust_slice_def)
  then show "init_out_advertises_max_pages_matching_max_write"
    by (simp add: init_out_advertises_max_pages_matching_max_write_def INIT_OUT_LEN_def reader_defs cursor)
      (simp add: init_out_bytes word_at_append_right MAX_WRITE_def FUSE_MAX_PAGES_def ASSUMED_GUEST_PAGE_SIZE_def)
  show "success_header_only_matches_reply_except_for_len"
    by (simp add: success_header_only_matches_reply_except_for_len_def out_header_reply_eq
        out_header_success_header_only_def writer_defs OUT_HEADER_LEN_def)
qed

section \<open>The errno table (fuse/linux\_errno.rs)\<close>

definition common_low_errnos_match_posix_standard_values :: "errno_table \<Rightarrow> bool" where
  "common_low_errnos_match_posix_standard_values tbl \<longleftrightarrow>
     to_linux_errno tbl (tbl ENOENT) = 2 \<and> to_linux_errno tbl (tbl EACCES) = 13 \<and>
     to_linux_errno tbl (tbl EEXIST) = 17 \<and> to_linux_errno tbl (tbl EINVAL) = 22 \<and>
     to_linux_errno tbl (tbl ENOTDIR) = 20 \<and> to_linux_errno tbl (tbl EISDIR) = 21 \<and>
     to_linux_errno tbl (tbl EROFS) = 30"

definition enosys_is_always_linux_38 :: "errno_table \<Rightarrow> bool" where
  "enosys_is_always_linux_38 tbl \<longleftrightarrow> to_linux_errno tbl (tbl ENOSYS) = 38"

definition unmapped_errno_falls_back_to_eio_not_a_raw_passthrough :: "errno_table \<Rightarrow> bool" where
  "unmapped_errno_falls_back_to_eio_not_a_raw_passthrough tbl \<longleftrightarrow> to_linux_errno tbl 999999 = 5"

lemma errno_tests:
  assumes "errno_table_ok tbl"
  shows "common_low_errnos_match_posix_standard_values tbl" and "enosys_is_always_linux_38 tbl"
    and "999999 \<notin> range tbl \<Longrightarrow> unmapped_errno_falls_back_to_eio_not_a_raw_passthrough tbl"
  by (simp_all add: common_low_errnos_match_posix_standard_values_def enosys_is_always_linux_38_def
      unmapped_errno_falls_back_to_eio_not_a_raw_passthrough_def to_linux_errno_named [OF assms]
      to_linux_errno_unmapped)

section \<open>Guest memory (vhost\_user/memory.rs)\<close>

text \<open>The result of the anonymous \<open>mmap\<close> is the first argument.\<close>

definition new_anonymous_for_test ::
  "i32 + host_ptr \<Rightarrow> u64 \<Rightarrow> u64 \<Rightarrow> u64 \<Rightarrow> (guest_memory, io_error) result" where
  "new_anonymous_for_test mapped gpa user_addr len =
     (case mapped of
        Inl e \<Rightarrow> Err (OsError e)
      | Inr base \<Rightarrow>
          Ok [\<lparr>rg_gpa = gpa, rg_user_addr = user_addr, rg_len = len, rg_ptr = base,
               rg_mmap_base = base, rg_mmap_len = len\<rparr>])"

text \<open>A test that needs memory: false when there is none.\<close>

definition with_memory ::
  "i32 + host_ptr \<Rightarrow> u64 \<Rightarrow> u64 \<Rightarrow> u64 \<Rightarrow> (guest_memory \<Rightarrow> bool) \<Rightarrow> bool" where
  "with_memory mapped gpa user_addr len test =
     (case new_anonymous_for_test mapped gpa user_addr len of Ok mem \<Rightarrow> test mem | _ \<Rightarrow> False)"

definition anonymous_region_roundtrip :: "i32 + host_ptr \<Rightarrow> heap \<Rightarrow> bool" where
  "anonymous_region_roundtrip mapped h = with_memory mapped 0x1000 0x1000 4096 (\<lambda>mem.
     case mem_write_u32 mem Gpa 0x1000 0xdeadbeef h of
       None \<Rightarrow> False
     | Some h1 \<Rightarrow>
         mem_read_u32 mem h1 Gpa 0x1000 = Some 0xdeadbeef \<and>
         (case mem_write_u16 mem Gpa 0x1ffe 0x1234 h1 of
            None \<Rightarrow> False
          | Some h2 \<Rightarrow> mem_read_u16 mem h2 Gpa 0x1ffe = Some 0x1234))"

definition out_of_range_returns_none :: "i32 + host_ptr \<Rightarrow> heap \<Rightarrow> bool" where
  "out_of_range_returns_none mapped h = with_memory mapped 0x1000 0x1000 4096 (\<lambda>mem.
     mem_read_u32 mem h Gpa 0x500 = None \<and> mem_read_u32 mem h Gpa 0x2000 = None \<and>
     mem_read_u64 mem h Gpa 0x1ffc = None)"

definition slice_access :: "i32 + host_ptr \<Rightarrow> heap \<Rightarrow> bool" where
  "slice_access mapped h = with_memory mapped 0x1000 0x1000 4096 (\<lambda>mem.
     let data = [104, 101, 108, 108, 111, 44, 32, 118, 105, 114, 116, 105, 111] in
     case get_slice_mut mem Gpa 0x1000 (of_nat (length data)) of
       None \<Rightarrow> False
     | Some s \<Rightarrow>
         map_option (load (store (fst s) data h)) (get_slice mem Gpa 0x1000 (of_nat (length data))) =
           Some data)"

definition gpa_and_user_address_spaces_are_independent :: "i32 + host_ptr \<Rightarrow> heap \<Rightarrow> bool" where
  "gpa_and_user_address_spaces_are_independent mapped h =
     with_memory mapped 0x40000000 0x7f00000000 4096 (\<lambda>mem.
     case mem_write_u32 mem Gpa 0x40000000 111 h of
       None \<Rightarrow> False
     | Some h1 \<Rightarrow>
         mem_read_u32 mem h1 Gpa 0x40000000 = Some 111 \<and> mem_read_u32 mem h1 User 0x40000000 = None \<and>
         (case mem_write_u32 mem User 0x7f00000000 222 h1 of
            None \<Rightarrow> False
          | Some h2 \<Rightarrow>
              mem_read_u32 mem h2 User 0x7f00000000 = Some 222 \<and>
              mem_read_u32 mem h2 Gpa 0x7f00000000 = None))"

text \<open>Translation and access in memory of one region.\<close>

lemmas one_region = new_anonymous_for_test_def get_slice_def get_slice_mut_def find_region_def in_region_def

lemma load_store_within:
  assumes "fst q = fst p" and "snd p \<le> snd q" and "snd q + m \<le> snd p + length d"
  shows "load (store p d h) (q, m) = take m (drop (snd q - snd p) d)"
proof -
  have "q = ptr_add p (snd q - snd p)" using assms(1,2) by (simp add: ptr_add_def prod_eq_iff)
  then show ?thesis
    using load_sub [of "snd q - snd p" m "length d" "store p d h" p] assms(2,3) by simp
qed

lemmas heap_eval = load_store_within load_store_apart slices_apart_def ptr_add_def

lemma memory_tests:
  "anonymous_region_roundtrip (Inr base) h"
  "out_of_range_returns_none (Inr base) h"
  "slice_access (Inr base) h"
  "gpa_and_user_address_spaces_are_independent (Inr base) h"
  by (simp_all add: anonymous_region_roundtrip_def out_of_range_returns_none_def slice_access_def
      gpa_and_user_address_spaces_are_independent_def with_memory_def one_region mem_read_u16_def
      mem_read_u32_def mem_read_u64_def mem_write_u16_def mem_write_u32_def heap_eval Let_def)

section \<open>The virtqueue (vhost\_user/virtqueue.rs)\<close>

definition vq_test_queue :: "i32 + host_ptr \<Rightarrow> u16 \<Rightarrow> (guest_memory \<times> virtqueue) option" where
  "vq_test_queue mapped queue_size =
     (let gpa = 0x10000;
          desc_addr = gpa;
          avail_addr = desc_addr + ucast queue_size * DESC_LEN;
          used_addr = avail_addr + AVAIL_RING_OFFSET + ucast queue_size * 2 + 2;
          total = push_bit 20 1
      in case new_anonymous_for_test mapped gpa gpa total of
           Ok mem \<Rightarrow> Some (mem, virtqueue_new queue_size desc_addr avail_addr used_addr)
         | _ \<Rightarrow> None)"

definition write_desc ::
  "guest_memory \<Rightarrow> virtqueue \<Rightarrow> u16 \<Rightarrow> u64 \<Rightarrow> u32 \<Rightarrow> u16 \<Rightarrow> u16 \<Rightarrow> heap \<Rightarrow> heap option" where
  "write_desc mem vq idx addr len flags nxt h =
     (let off = vq_desc_addr vq + ucast idx * DESC_LEN in
      Option.bind (get_slice_mut mem User off DESC_LEN) (\<lambda>s.
      Option.bind (mem_write_u32 mem User (off + 8) len (store (fst s) (le64 addr) h)) (\<lambda>h.
      Option.bind (mem_write_u16 mem User (off + 12) flags h) (\<lambda>h.
      mem_write_u16 mem User (off + 14) nxt h))))"

definition publish_avail :: "guest_memory \<Rightarrow> virtqueue \<Rightarrow> u16 \<Rightarrow> u16 \<Rightarrow> u16 \<Rightarrow> heap \<Rightarrow> heap option" where
  "publish_avail mem vq slot head new_idx h =
     (let ring_off = vq_avail_addr vq + AVAIL_RING_OFFSET + ucast slot * 2 in
      Option.bind (mem_write_u16 mem User ring_off head h) (\<lambda>h.
      mem_write_u16 mem User (vq_avail_addr vq + 2) new_idx h))"

text \<open>\<open>get\_slice\_mut(AddrSpace::Gpa, addr, n).unwrap().copy\_from\_slice(data)\<close>.\<close>

definition place :: "guest_memory \<Rightarrow> u64 \<Rightarrow> bytes \<Rightarrow> heap \<Rightarrow> heap option" where
  "place mem addr data h =
     map_option (\<lambda>s. store (fst s) data h) (get_slice_mut mem Gpa addr (of_nat (length data)))"

text \<open>A test on a new queue; anonymous memory starts out zeroed.\<close>

definition on_queue ::
  "i32 + host_ptr \<Rightarrow> u16 \<Rightarrow> (guest_memory \<Rightarrow> virtqueue \<Rightarrow> heap \<Rightarrow> bool option) \<Rightarrow> bool" where
  "on_queue mapped queue_size test =
     (Option.bind (vq_test_queue mapped queue_size) (\<lambda>(mem, vq). test mem vq (\<lambda>_. 0)) = Some True)"

definition pop_avail_returns_none_when_empty :: "i32 + host_ptr \<Rightarrow> bool" where
  "pop_avail_returns_none_when_empty mapped = on_queue mapped 8 (\<lambda>mem vq h.
     Some (fst (pop_avail mem h vq) = Ok None))"

definition single_request_response_chain_roundtrip :: "i32 + host_ptr \<Rightarrow> bool" where
  "single_request_response_chain_roundtrip mapped = on_queue mapped 8 (\<lambda>mem vq h.
     let req_addr = vq_used_addr vq + 4096;
         resp_addr = req_addr + 256;
         response = [97, 32, 102, 105, 110, 101, 32, 114, 101, 115, 112, 111, 110, 115, 101]
     in Option.bind (write_desc mem vq 0 req_addr 5 VIRTQ_DESC_F_NEXT 1 h) (\<lambda>h.
        Option.bind (write_desc mem vq 1 resp_addr 64 VIRTQ_DESC_F_WRITE 0 h) (\<lambda>h.
        Option.bind (place mem req_addr [104, 101, 108, 108, 111] h) (\<lambda>h.
        Option.bind (publish_avail mem vq 0 0 1 h) (\<lambda>h.
        case pop_avail mem h vq of
          (Ok (Some head), vq) \<Rightarrow>
            (case (read_chain mem h vq head, pop_avail mem h vq) of
               (Ok chain, (Ok again, _)) \<Rightarrow>
                 (case scatter_writable mem chain response h of
                    (Ok written, h2) \<Rightarrow>
                      (case push_used mem vq head written h2 of
                         (Ok _, h3) \<Rightarrow>
                           Some (head = 0 \<and> again = None \<and>
                             dc_readable chain = [(req_addr, 5)] \<and> dc_writable chain = [(resp_addr, 64)] \<and>
                             gather_readable mem h chain = Ok [104, 101, 108, 108, 111] \<and>
                             unat written = length response \<and>
                             map_option (load h2) (get_slice mem Gpa resp_addr (of_nat (length response))) =
                               Some response \<and>
                             mem_read_u16 mem h3 User (vq_used_addr vq + 2) = Some 1)
                       | _ \<Rightarrow> None)
                  | _ \<Rightarrow> None)
             | _ \<Rightarrow> None)
        | _ \<Rightarrow> None)))))"

definition push_used_advances_index_and_records_head_and_len :: "i32 + host_ptr \<Rightarrow> bool" where
  "push_used_advances_index_and_records_head_and_len mapped = on_queue mapped 4 (\<lambda>mem vq h.
     case push_used mem vq 2 42 h of
       (Ok _, h1) \<Rightarrow>
         (case push_used mem vq 3 7 h1 of
            (Ok _, h2) \<Rightarrow>
              (let elem_off = vq_used_addr vq + USED_RING_OFFSET;
                   elem_off2 = vq_used_addr vq + USED_RING_OFFSET + USED_ELEM_LEN
               in Some (mem_read_u16 mem h1 User (vq_used_addr vq + 2) = Some 1 \<and>
                    mem_read_u32 mem h1 User elem_off = Some 2 \<and>
                    mem_read_u32 mem h1 User (elem_off + 4) = Some 42 \<and>
                    mem_read_u16 mem h2 User (vq_used_addr vq + 2) = Some 2 \<and>
                    mem_read_u32 mem h2 User elem_off2 = Some 3 \<and>
                    mem_read_u32 mem h2 User (elem_off2 + 4) = Some 7))
          | _ \<Rightarrow> None)
     | _ \<Rightarrow> None)"

text \<open>
  Three readable segments, \<open>foo\<close>, \<open>bar\<close> and \<open>baz\<close>, in three descriptors; several tests start
  from them. With the chain comes the memory they are in.
\<close>

definition three_segment_readable_chain ::
  "guest_memory \<Rightarrow> virtqueue \<Rightarrow> heap \<Rightarrow> (desc_chain \<times> heap) option" where
  "three_segment_readable_chain mem vq h =
     (let a = vq_used_addr vq + 4096;
          b = a + 64;
          c = b + 64
      in Option.bind (write_desc mem vq 0 a 3 VIRTQ_DESC_F_NEXT 1 h) (\<lambda>h.
         Option.bind (write_desc mem vq 1 b 3 VIRTQ_DESC_F_NEXT 2 h) (\<lambda>h.
         Option.bind (write_desc mem vq 2 c 3 0 0 h) (\<lambda>h.
         Option.bind (place mem a [102, 111, 111] h) (\<lambda>h.
         Option.bind (place mem b [98, 97, 114] h) (\<lambda>h.
         Option.bind (place mem c [98, 97, 122] h) (\<lambda>h.
         Some (\<lparr>dc_head = 0, dc_readable = [(a, 3), (b, 3), (c, 3)], dc_writable = []\<rparr>, h))))))))"

definition multi_descriptor_readable_chain_is_gathered_in_order :: "i32 + host_ptr \<Rightarrow> bool" where
  "multi_descriptor_readable_chain_is_gathered_in_order mapped = on_queue mapped 8 (\<lambda>mem vq h.
     let a = vq_used_addr vq + 4096;
         b = a + 64;
         c = b + 64
     in Option.bind (write_desc mem vq 0 a 3 VIRTQ_DESC_F_NEXT 1 h) (\<lambda>h.
        Option.bind (write_desc mem vq 1 b 3 VIRTQ_DESC_F_NEXT 2 h) (\<lambda>h.
        Option.bind (write_desc mem vq 2 c 3 0 0 h) (\<lambda>h.
        Option.bind (place mem a [102, 111, 111] h) (\<lambda>h.
        Option.bind (place mem b [98, 97, 114] h) (\<lambda>h.
        Option.bind (place mem c [98, 97, 122] h) (\<lambda>h.
        Option.bind (publish_avail mem vq 0 0 1 h) (\<lambda>h.
        case pop_avail mem h vq of
          (Ok (Some head), vq) \<Rightarrow>
            Some (bind (read_chain mem h vq head) (gather_readable mem h) =
              Ok [102, 111, 111, 98, 97, 114, 98, 97, 122])
        | _ \<Rightarrow> None))))))))"

definition indirect_descriptor_is_rejected :: "i32 + host_ptr \<Rightarrow> bool" where
  "indirect_descriptor_is_rejected mapped = on_queue mapped 4 (\<lambda>mem vq h.
     Option.bind (write_desc mem vq 0 0x1234 16 VIRTQ_DESC_F_INDIRECT 0 h) (\<lambda>h.
     Option.bind (publish_avail mem vq 0 0 1 h) (\<lambda>h.
     case pop_avail mem h vq of
       (Ok (Some head), vq) \<Rightarrow> Some (read_chain mem h vq head = Err IndirectUnsupported)
     | _ \<Rightarrow> None)))"

definition gather_readable_prefix_stops_at_max_len_across_segments :: "i32 + host_ptr \<Rightarrow> bool" where
  "gather_readable_prefix_stops_at_max_len_across_segments mapped = on_queue mapped 8 (\<lambda>mem vq h.
     Option.bind (three_segment_readable_chain mem vq h) (\<lambda>(chain, h).
     Some (gather_readable_prefix mem h chain 0 = Ok [] \<and>
       gather_readable_prefix mem h chain 2 = Ok [102, 111] \<and>
       gather_readable_prefix mem h chain 3 = Ok [102, 111, 111] \<and>
       gather_readable_prefix mem h chain 5 = Ok [102, 111, 111, 98, 97] \<and>
       gather_readable_prefix mem h chain 100 = Ok [102, 111, 111, 98, 97, 114, 98, 97, 122])))"

text \<open>The bytes an I/O vector covers.\<close>

definition iovecs_to_vec :: "heap \<Rightarrow> iovec list \<Rightarrow> bytes" where
  "iovecs_to_vec h iov = concat (map (load h) iov)"

text \<open>The tests of \<open>iovecs\_from\<close> on the three segments differ in what they skip and how much they take.\<close>

definition iovecs_test :: "i32 + host_ptr \<Rightarrow> u64 \<Rightarrow> u64 \<Rightarrow> (heap \<Rightarrow> iovec list \<Rightarrow> bool) \<Rightarrow> bool" where
  "iovecs_test mapped skip max_total check = on_queue mapped 8 (\<lambda>mem vq h.
     Option.bind (three_segment_readable_chain mem vq h) (\<lambda>(chain, h).
     case iovecs_from mem (dc_readable chain) skip max_total False of
       Ok iov \<Rightarrow> Some (check h iov)
     | _ \<Rightarrow> None))"

definition iovecs_from_with_no_skip_covers_all_segments :: "i32 + host_ptr \<Rightarrow> bool" where
  "iovecs_from_with_no_skip_covers_all_segments mapped = iovecs_test mapped 0 9 (\<lambda>h iov.
     length iov = 3 \<and> iovecs_to_vec h iov = [102, 111, 111, 98, 97, 114, 98, 97, 122])"

definition iovecs_from_skip_within_first_segment :: "i32 + host_ptr \<Rightarrow> bool" where
  "iovecs_from_skip_within_first_segment mapped = iovecs_test mapped 1 8 (\<lambda>h iov.
     iovecs_to_vec h iov = [111, 111, 98, 97, 114, 98, 97, 122])"

definition iovecs_from_skip_exactly_one_full_segment :: "i32 + host_ptr \<Rightarrow> bool" where
  "iovecs_from_skip_exactly_one_full_segment mapped = iovecs_test mapped 3 6 (\<lambda>h iov.
     length iov = 2 \<and> iovecs_to_vec h iov = [98, 97, 114, 98, 97, 122])"

definition iovecs_from_skip_spanning_multiple_segments :: "i32 + host_ptr \<Rightarrow> bool" where
  "iovecs_from_skip_spanning_multiple_segments mapped = iovecs_test mapped 4 5 (\<lambda>h iov.
     iovecs_to_vec h iov = [97, 114, 98, 97, 122])"

definition iovecs_from_max_total_truncates_mid_segment :: "i32 + host_ptr \<Rightarrow> bool" where
  "iovecs_from_max_total_truncates_mid_segment mapped = iovecs_test mapped 0 4 (\<lambda>h iov.
     iovecs_to_vec h iov = [102, 111, 111, 98])"

definition iovecs_from_skip_and_max_total_combined :: "i32 + host_ptr \<Rightarrow> bool" where
  "iovecs_from_skip_and_max_total_combined mapped = iovecs_test mapped 3 2 (\<lambda>h iov.
     iovecs_to_vec h iov = [98, 97])"

definition iovecs_from_skip_past_everything_yields_empty :: "i32 + host_ptr \<Rightarrow> bool" where
  "iovecs_from_skip_past_everything_yields_empty mapped = iovecs_test mapped 9 100 (\<lambda>h iov. iov = [])"

definition iovecs_from_mutable_writes_through_to_guest_memory :: "i32 + host_ptr \<Rightarrow> bool" where
  "iovecs_from_mutable_writes_through_to_guest_memory mapped = on_queue mapped 8 (\<lambda>mem vq h.
     let a = vq_used_addr vq + 4096;
         b = a + 64
     in Option.bind (write_desc mem vq 0 a 4 (VIRTQ_DESC_F_NEXT OR VIRTQ_DESC_F_WRITE) 1 h) (\<lambda>h.
        Option.bind (write_desc mem vq 1 b 4 VIRTQ_DESC_F_WRITE 0 h) (\<lambda>h.
        Option.bind (publish_avail mem vq 0 0 1 h) (\<lambda>h.
        case pop_avail mem h vq of
          (Ok (Some head), vq) \<Rightarrow>
            (case bind (read_chain mem h vq head) (\<lambda>chain.
                  bind (iovecs_from mem (dc_writable chain) 2 6 True) (\<lambda>iov. Ok (chain, iov))) of
               Ok (chain, iov) \<Rightarrow>
                 (let h' = fold (\<lambda>(p, n). store p (replicate n 88)) iov h in
                  Some (dc_writable chain = [(a, 4), (b, 4)] \<and> sum_list (map snd iov) = 6 \<and>
                    map_option (load h') (get_slice mem Gpa a 4) = Some [0, 0, 88, 88] \<and>
                    map_option (load h') (get_slice mem Gpa b 4) = Some [88, 88, 88, 88]))
             | _ \<Rightarrow> None)
        | _ \<Rightarrow> None))))"

text \<open>Evaluation of a queue test: addresses are numerals, offsets from the mapping's base.\<close>

lemma from_le_zero [simp]: "from_le (replicate n 0) = 0"
  by (induction n) simp_all

lemma chain_loop_numeral:
  "chain_loop mem h vq (numeral k) idx chain =
     bind (read_desc mem h vq idx) (\<lambda>d.
     if flag_on VIRTQ_DESC_F_INDIRECT d then Err IndirectUnsupported
     else let chain = add_segment d chain in
          if \<not> flag_on VIRTQ_DESC_F_NEXT d then Ok chain
          else chain_loop mem h vq (pred_numeral k) (d_next d) chain)"
  by (simp add: numeral_eq_Suc)

lemma load_zero [simp]: "load (\<lambda>_. 0) s = replicate (snd s) 0"
  by (simp add: load_def map_replicate_const)

lemmas vq_eval = on_queue_def vq_test_queue_def one_region write_desc_def publish_avail_def place_def
  virtqueue_new_def DESC_LEN_def AVAIL_RING_OFFSET_def USED_RING_OFFSET_def USED_ELEM_LEN_def
  VIRTQ_DESC_F_NEXT_def VIRTQ_DESC_F_WRITE_def VIRTQ_DESC_F_INDIRECT_def
  mem_read_u16_def mem_read_u32_def mem_read_u64_def mem_write_u16_def mem_write_u32_def
  pop_avail_def push_used_def read_desc_def flag_on_def add_segment_def read_chain_def MAX_CHAIN_LEN_def chain_loop_numeral
  gather_readable_def scatter_writable_def heap_eval

lemma queue_tests:
  "pop_avail_returns_none_when_empty (Inr base)"
  "push_used_advances_index_and_records_head_and_len (Inr base)"
  "indirect_descriptor_is_rejected (Inr base)"
  by (simp_all add: pop_avail_returns_none_when_empty_def push_used_advances_index_and_records_head_and_len_def
      indirect_descriptor_is_rejected_def vq_eval Let_def)

lemma request_response_test: "single_request_response_chain_roundtrip (Inr base)"
  by (simp add: single_request_response_chain_roundtrip_def vq_eval Let_def)

lemma three_descriptors_test: "multi_descriptor_readable_chain_is_gathered_in_order (Inr base)"
  by (simp add: multi_descriptor_readable_chain_is_gathered_in_order_def vq_eval Let_def)

lemma prefix_test: "gather_readable_prefix_stops_at_max_len_across_segments (Inr base)"
  by (simp add: gather_readable_prefix_stops_at_max_len_across_segments_def gather_readable_prefix_def
      three_segment_readable_chain_def vq_eval Let_def)

lemmas iovec_eval = iovecs_test_def three_segment_readable_chain_def iovecs_from_def iovecs_to_vec_def vq_eval

lemma three_above_one [simp]: "\<not> (3 :: u64) \<le> 1"
  by (simp add: word_le_nat_alt)

lemma iovec_tests:
  "iovecs_from_with_no_skip_covers_all_segments (Inr base)"
  "iovecs_from_skip_within_first_segment (Inr base)"
  "iovecs_from_skip_exactly_one_full_segment (Inr base)"
  "iovecs_from_skip_spanning_multiple_segments (Inr base)"
  "iovecs_from_max_total_truncates_mid_segment (Inr base)"
  "iovecs_from_skip_and_max_total_combined (Inr base)"
  "iovecs_from_skip_past_everything_yields_empty (Inr base)"
  by (simp_all add: iovecs_from_with_no_skip_covers_all_segments_def iovecs_from_skip_within_first_segment_def
      iovecs_from_skip_exactly_one_full_segment_def iovecs_from_skip_spanning_multiple_segments_def
      iovecs_from_max_total_truncates_mid_segment_def iovecs_from_skip_and_max_total_combined_def
      iovecs_from_skip_past_everything_yields_empty_def iovec_eval Let_def)

lemma load_halves: "load h (p, 4) = load h (p, 2) @ load h (ptr_add p 2, 2)"
  by (simp add: load_def ptr_add_def upt_rec)

lemma replicate_few: "replicate 2 x = [x, x]" "replicate 4 x = [x, x, x, x]"
  by (simp_all add: numeral_eq_Suc)

lemma write_through_test: "iovecs_from_mutable_writes_through_to_guest_memory (Inr base)"
  by (simp add: iovecs_from_mutable_writes_through_to_guest_memory_def iovecs_from_def vq_eval Let_def)
    (simp add: load_halves heap_eval replicate_few)

section \<open>The session (fuse/dispatch.rs)\<close>

text \<open>
  The tests that do not depend on what the temporary directory holds, for every host. \<open>unwrap_ok\<close>
  is the body of a successful reply.
\<close>

definition unwrap_ok :: "reply option \<Rightarrow> bytes option" where
  "unwrap_ok reply =
     (case reply of
        Some (ReplyBytes b) \<Rightarrow>
          if 8 \<le> length b \<and> u32_at 4 b = 0 \<and> OUT_HEADER_LEN \<le> length b
          then Some (drop OUT_HEADER_LEN b) else None
      | _ \<Rightarrow> None)"

definition init_negotiates_version :: "'w host \<Rightarrow> session \<times> 'w \<Rightarrow> bool" where
  "init_negotiates_version H \<sigma> =
     (let body = writer_u32 0 (writer_u32 0 (writer_u32 45 (writer_u32 7 writer_new)));
          req = fuse_request 26 1 0 body
      in case unwrap_ok (fst (session_handle H req \<sigma>)) of
           Some reply \<Rightarrow> length reply = INIT_OUT_LEN \<and> u32_at 0 reply = 7 \<and> u32_at 4 reply = INIT_OUT_MINOR
         | None \<Rightarrow> False)"

definition forget_gets_no_reply :: "'w host \<Rightarrow> session \<times> 'w \<Rightarrow> bool" where
  "forget_gets_no_reply H \<sigma> =
     (let body = writer_u64 1 writer_new;
          req = fuse_request 2 1 ROOT_ID body
      in fst (session_handle H req \<sigma>) = Some ReplyNone)"

definition unknown_opcode_is_enosys_not_a_panic :: "'w host \<Rightarrow> session \<times> 'w \<Rightarrow> bool" where
  "unknown_opcode_is_enosys_not_a_panic H \<sigma> =
     (case fst (session_handle H (fuse_request 9999 1 ROOT_ID []) \<sigma>) of
        Some (ReplyBytes b) \<Rightarrow> 8 \<le> length b \<and> (word_at 4 4 b :: i32) = - 38
      | _ \<Rightarrow> False)"

lemma init_test: "init_negotiates_version H \<sigma>"
proof -
  let ?body = "le32 7 @ le32 45 @ le32 0 @ le32 0"
  have "init_in_from_bytes ?body =
      Ok \<lparr>init_major = 7, init_minor = 45, init_max_readahead = 0, init_flags = 0\<rparr>"
    by (simp add: init_in_from_bytes_eq rust_slice_def word_at_append_right)
  then have "fst (session_handle H (fuse_request 26 1 0 ?body) \<sigma>) = Some (ok_reply 1 (init_out 0))"
    by (simp add: session_handle_request opcode_from_def handle_op_def try_parse_def done_reply_def)
  then show ?thesis
    by (simp add: init_negotiates_version_def writer_defs unwrap_ok_def ok_reply_def out_header_reply_eq
        OUT_HEADER_LEN_def)
      (simp add: init_out_bytes word_at_append_right INIT_OUT_LEN_def INIT_OUT_MINOR_def)
qed

lemma forget_test: "forget_gets_no_reply H \<sigma>"
proof -
  have "forget_in_from_bytes (le64 1) = Ok \<lparr>forget_nlookup = 1\<rparr>"
    by (simp add: parser_eqs rust_slice_def)
  moreover have "fst (fs_forget H i n \<tau>) = Ok ()" for i n \<tau>
    by (simp add: fs_forget_def split: prod.split)
  ultimately show ?thesis
    by (simp add: forget_gets_no_reply_def writer_defs session_handle_request opcode_from_def handle_op_def
        try_parse_def try_fs_def done_reply_def split: prod.split result.split)
      (metis fst_conv result.distinct(1,3))
qed

lemma enosys_test:
  assumes "errno_table_ok (errno_of H)"
  shows "unknown_opcode_is_enosys_not_a_panic H \<sigma>"
  by (simp add: unknown_opcode_is_enosys_not_a_panic_def session_handle_request opcode_from_def handle_op_def
      done_reply_def out_header_error_for_def out_header_reply_eq to_linux_errno_named [OF assms]
      word_at_append_right)

end
