(* ===== verification/Spec2Isabelle.thy ===== *)
theory Spec2Isabelle
  imports Server_Safety Engine_Properties Engine_Limits Readdir_Paging Memory_Safety Queue_Service
    Fd_Balance Map_Balance Doorbell Daemon Control_Properties Control_Loop Vring_Isolation
    Protocol_Properties Interference Session_Types End_To_End Guest_Data Unit_Tests
begin

text \<open>
  \<^bold>\<open>riftlessfs: a virtio-fs daemon.\<close> The program shares a directory of the host with a guest.
  A VMM (the front-end) connects to a UNIX socket and, with vhost-user messages, hands over the
  guest's memory and the addresses of its virtqueues (vrings). The guest's kernel puts FUSE
  requests into the vrings and kicks; the daemon walks the descriptor chain of each request,
  carries it out with system calls on the shared directory, writes the reply into the chain's
  buffers and publishes it in the used ring. The paths below are those of \<open>src/crates/\<close>.

  \<^bold>\<open>Conventions.\<close> The code is modelled as the release profile builds it: unchecked arithmetic
  wraps, so integers are words of their width, and a panic aborts the process. A fallible
  function returns \<open>Ok v\<close>, \<open>Err e\<close> with the function's own error type, or \<open>Panic\<close>
  (theory Prelude); every early return, \<open>?\<close>, index out of range, \<open>unwrap\<close> and division
  by zero of the source is a branch of the model. What the program calls in the operating system
  is a parameter: the records \<open>host\<close> (Host: the calls of the engine, the numbers of errno and
  flags, the iteration order of hash maps), \<open>vmm\<close> (Guest\_Memory: mappings, socket, polling),
  \<open>bell_sys\<close> and \<open>listener_sys\<close>, over an arbitrary type of worlds \<open>'w\<close>. Nothing is
  assumed of them but named laws, stated where they are used: \<open>stream_recv\<close>, \<open>stream_send\<close>
  and \<open>talking_front_end\<close> (sockets), \<open>vectored_io\<close> (\<open>preadv\<close> and \<open>pwritev\<close> against
  \<open>pread\<close> and \<open>pwrite\<close>), \<open>read_after_write\<close>, \<open>fd_accounting\<close>,
  \<open>map_accounting\<close>, \<open>visits_all\<close>, \<open>bell_law\<close>, \<open>wake_ups\<close>, \<open>wakes_spare_file\<close>,
  \<open>sane_front_end\<close> and \<open>fair_front_end\<close>. Mem\_Host is a small host for which they hold, and the concrete
  examples run on it. The memory of the process is a function from host addresses to bytes.

  \<^bold>\<open>The components\<close>, each in its own theory, in the order in which the code is layered:
  \<^item> Prelude: words and bytes, outcomes and their sequencing, little-endian encoding.
  \<^item> Proto\_Error: \<open>riftlessfs-proto/src/error.rs\<close> and the errors of the virtqueue.
  \<^item> Cursor: \<open>fuse/bytes.rs\<close>, \<open>Reader\<close> as a record of buffer and position, \<open>Writer\<close>
    as the bytes written; collection \<open>cursor\<close> turns reads into words at an offset.
  \<^item> Errno: \<open>fuse/linux_errno.rs\<close>, the table of arms in order, over any host's numbers.
  \<^item> Core\_Types: \<open>riftlessfs-core/src/error.rs\<close>, \<open>attr.rs\<close>, \<open>FileKind\<close>;
    Host: the parameter record and \<open>platform/\<close> (flags of a reference descriptor).
  \<^item> Inode\_Store: \<open>inode.rs\<close>. The two hash maps and the counter are a record; \<open>register\<close>,
    \<open>forget\<close>, \<open>note_rename\<close> and \<open>open_child\<close> are operations on it and the world. The
    invariant \<open>inode_store_ok\<close> says that the maps are inverse to each other.
  \<^item> Id\_Table, Handle\_Store: \<open>handle.rs\<close>, with the locale \<open>id_table\<close> as the contract
    of a table that issues ids, interpreted on \<open>HandleStore\<close>.
  \<^item> Passthrough: \<open>passthrough.rs\<close>. An operation is a function on the tables and the world,
    written with \<open>fs_bind\<close> as the source is with \<open>?\<close>; \<open>fs_keeps\<close> and the collection
    \<open>keeps\<close> show that each keeps the tables well formed and uses up at most two ids.
  \<^item> Wire: \<open>fuse/wire.rs\<close>, every parser with an equation by offsets, every encoder.
  \<^item> Dispatch: \<open>fuse/dispatch.rs\<close>. \<open>session_handle\<close> is \<open>Session::handle\<close>: \<open>handle_op\<close>
    has one arm per opcode, with the readdir cache in the session record.
  \<^item> Vhost\_Message: \<open>vhost_user/header.rs\<close>, \<open>payload.rs\<close>, with the locales
    \<open>fixed_codec\<close> and \<open>exact_codec\<close> for the payloads.
  \<^item> Guest\_Memory: \<open>vhost_user/memory.rs\<close>, regions, mapping and address translation.
  \<^item> Virtqueue: \<open>vhost_user/virtqueue.rs\<close>, the rings, the chain walk, gather and scatter.
  \<^item> Connection: \<open>vhost_user/connection.rs\<close>, the send and receive loops.
  \<^item> Server: \<open>vhost_user/server.rs\<close>. \<open>handle_one_message\<close> and \<open>handle_request\<close> are the
    control side; \<open>process_vring\<close>, \<open>process_loop\<close> and \<open>process_chain\<close> the request side
    with the generic and the zero-copy paths; \<open>server_turn\<close> is one turn of the loop of \<open>run\<close>.
  \<^item> Daemon: the loop of \<open>Server::run\<close> as a whole (\<open>server_run\<close>) and
    \<open>riftlessfsd/src/main.rs\<close> from the parsed arguments on. Doorbell: \<open>doorbell.rs\<close>.
  \<^item> Guest\_Driver: \<open>TestQueue\<close>, the guest's driver in the tests of \<open>vhost_user/server.rs\<close>: the
    buffers it allocates, the chains it writes, the ring it publishes them in, and its handshake.
    Unit\_Tests: the tests of the protocol crate as definitions, each shown to hold of the model.

  \<^bold>\<open>What is shown\<close>, with the claim ids:
  \<^item> The whole daemon: no turn panics (C1, Server\_Safety) and no turn touches memory outside the
    front-end's mappings (C2, Memory\_Safety), by an invariant over \<open>server_reach\<close>, whose steps
    are turns and arbitrary changes by guest and host; the program ends with exit code 0 or 1
    (C27, where it ends and allocations succeed); only enabled vrings are served (C31), and a broken chain ends the loop (C32); a guest
    that writes while its requests are handled gains nothing by it (C23, Interference).
  \<^item> Guest and daemon together: from the handshake on, an exchange of the driver with the daemon
    through shared memory is a call of the session (C4, End\_To\_End), and data written by the
    guest is what it reads back (C12, Guest\_Data). These theorems join the control side, the
    virtqueue, the event loop, the dispatcher and the engine.
  \<^item> Requests: a vring of a driver that keeps to the protocol is served in full and in order
    (C3, Queue\_Service); the zero-copy paths are equal to the generic one (C5); every request is
    answered and well-formed (C6); directory pages make up the listing (C19), which is a snapshot
    (C20, Session\_Types); replies have the kernel's layout (C30).
  \<^item> Tables: the inode table refines a ledger of references (C7); lookups identify files (C15);
    handles are not reissued (C16); unknown ids and handles are refused (C17, C18); the tables of
    a session stay typed (C9, by the locale \<open>handle_invariant\<close>); renames move the recorded
    location (C29).
  \<^item> Control: the loop refines an abstract machine of commands, for a front-end that does not hang
    up before its messages have been read (C8, Control\_Loop); vrings are set up as announced
    (C13); messages with their descriptors and payloads survive the socket (C14, C26).
  \<^item> Resources: descriptors (C10, Fd\_Balance) and mappings (C11, Map\_Balance) are balanced.
  \<^item> Boundaries: address translation and the chain walk are exact (C21, C22), errors and
    names come through (C24, C25), a rung doorbell is heard once (C28).
  \<^item> Limits of the code, as theorems: a front-end that hangs up before its messages are read
    loses them (C33); a replaced file keeps its location (C34); the entry of
    \<open>LINK\<close> is not counted (C35); \<open>..\<close> is looked up like any name (C36); a failed \<open>create\<close> loses
    a descriptor (C37); early ring addresses are dropped (C38); a queue size of 0 panics (C39); a
    huge region outgrows its mapping (C40). \<open>RENAME2\<close> ignores its flags
    (\<open>rename_flags_are_ignored\<close>).

  \<^bold>\<open>Bounds and fuel.\<close> The chain walk is bounded by 512 as in the source. The receive and send
  loops end by themselves, as each round moves at least a byte. The loops over a vring and over a
  kick descriptor may go on for ever if the guest keeps them busy, so they have fuel, and running
  out is \<open>None\<close>: C3 gives the amount that is enough for a vring (one more than the requests
  published), C4 and C12 need 2 as the driver waits for each answer, C28 gives it for the doorbell
  and C8 the number of turns for a stream of commands. More fuel never changes the result of a turn
  (lemma \<open>turn_does_not_depend_on_fuel\<close>). The safety theorems hold for any amount. Ids are 64-bit counters; the theorems that
  need them to last say how many are used.

  \<^bold>\<open>Not modelled.\<close> Locks and threads: the server calls the engine from one thread. Writes of the
  guest while one phase of a request is at work: they happen between turns, and in Interference
  between requests and between the phases of a request (walk, header, dispatch, used ring). Failing
  allocations, which abort the process: the theorems about panics and exit codes take them to
  succeed. Logging, timing and printing, and the command line (clap).
  The destructors that run when \<open>Server::run\<close> returns, just before the process exits. The
  wrappers \<open>from_stream\<close>, \<open>as_raw_fd\<close> and \<open>connect\<close> around a socket, and \<open>len\<close>,
  \<open>is_empty\<close> and \<open>into_vec\<close> of the byte writer, which are the list itself. Of the tests, those
  that need a real directory, socket pair or eventfd, and the benchmarks: two of the dispatcher's,
  those of the connection and the doorbell, of which C14 and C28 are
  the general forms, and the engine's integration tests.
\<close>

section \<open>The event loop\<close>

lemma asking_vmm_sane: "sane_front_end asking_vmm"
  by (auto simp: sane_front_end_def asking_vmm_recv msg_header_request_def request_try_from_def sane_message_def)

text \<open>
  C1. The daemon cannot be made to panic by the guest, the host or the files it shares: from a
  server built on a newly opened directory, after any number of turns of the event loop, with
  the guest changing shared memory and the host changing in any way in between, one more turn
  does not panic and leaves the tables and queues well formed. The two hypotheses are that the
  front-end never sets a queue size whose low 16 bits are 0, on a host with a page size other
  than 0, and that the 64-bit ids have not run out.
\<close>

theorem event_loop_never_panics:
  assumes "sane_front_end V"
    and "passthrough_new H dir w0 = (Ok fs, w1)"
    and "server_reach fuel H V (server_new conn (session_new fs)) k (srv, h, w)"
    and "2 + 4 * fuel * (k + 1) < 2 ^ 64 - 1"
    and "server_turn fuel H V (srv, h, w) = Some (t, srv', h', w')"
  shows "t \<noteq> Stop Panic \<and> server_ok (2 + 4 * fuel * (k + 1)) srv'"
proof -
  have "server_ok 2 (server_new conn (session_new fs))"
    using passthrough_ok_new [OF assms(2)] by (rule server_ok_new)
  from server_reach_ok [OF assms(3,1) this] assms(4)
  have "server_ok (2 + 4 * fuel * k) srv"
    by (simp add: algebra_simps)
  from server_turn_safe [OF assms(1) this _ assms(5)] assms(4) show ?thesis
    by (simp add: algebra_simps)
qed

theorem event_loop_never_panics_witness:
  "\<exists>t srv' h' w'. server_turn 1 mem_host asking_vmm
      (server_new 9 (session_new mem_fs), \<lambda>_. 0, mem_world0) = Some (t, srv', h', w') \<and>
    t \<noteq> Stop Panic \<and> server_ok 6 srv' \<and> mw_out w' \<noteq> []"
proof -
  let ?\<sigma> = "(server_new 9 (session_new mem_fs), \<lambda>_. 0, mem_world0)"
  obtain t srv' h' w' where turn: "server_turn 1 mem_host asking_vmm ?\<sigma> = Some (t, srv', h', w')" "mw_out w' \<noteq> []"
    by (simp add: server_turn_def Let_def server_new_def kick_slots_def NUM_QUEUES_def numeral_2_eq_2
       vring_slot_default_def handle_one_message_def asking_vmm_recv turn_polled_def turn_kicks_def
       msg_header_request_def request_try_from_def handle_request_def ctl_reply_def server_reply_def
       POLLIN_def POLLHUP_def POLLERR_def connection_send_def
      send_loop.simps mem_send_def mem_world0_def u64_payload_to_bytes_def msg_header_to_bytes_def)
  show ?thesis
    using turn event_loop_never_panics [OF asking_vmm_sane mem_passthrough_new reach_start _ turn(1)] 
    by simp
qed

text \<open>The regions stay inside the mappings, turn after turn.\<close>

lemma server_reach_mapped:
  assumes "server_reach fuel H V srv0 k \<sigma>" and "fair_front_end V" and "regions_mapped srv0"
  shows "regions_mapped (fst \<sigma>)"
  using assms(1)
proof (induction rule: server_reach.induct)
  case (reach_turn k \<sigma> \<sigma>')
  then show ?case
    using server_turn_mapped [OF assms(2)] by (metis prod.collapse)
qed (use assms(3) in simp_all)

text \<open>
  C2. A turn of the event loop touches no host memory but the mappings the front-end supplied:
  in every reachable state, a turn leaves every byte outside the current mappings as it was,
  and neither its outcome, nor the new state of the server and the world, nor what it writes to
  the mappings depends on any byte outside them. The hypotheses are that \<open>preadv\<close> and
  \<open>pwritev\<close> access only the buffers they are given, and that in no memory table a region's
  size and the slack of its offset add up past a \<open>u64\<close>.
\<close>

theorem event_loop_memory_confined:
  assumes "buffers_only H" and "fair_front_end V"
    and "server_reach fuel H V (server_new conn s) k (srv, h, w)"
    and "server_turn fuel H V (srv, h, w) = Some (t, srv', h', w')"
  shows "(\<forall>p. p \<notin> mapped_bytes srv' \<longrightarrow> h' p = h p) \<and>
     (\<forall>g. agree (mapped_bytes srv') h g \<longrightarrow>
        (\<exists>g'. server_turn fuel H V (srv, g, w) = Some (t, srv', g', w') \<and>
              agree (mapped_bytes srv') h' g'))"
proof -
  have "regions_mapped srv"
    using server_reach_mapped [OF assms(3,2) regions_mapped_new] by simp
  then have sub: "guest_bytes srv' \<subseteq> mapped_bytes srv'"
    using server_turn_mapped [OF assms(2) _ assms(4)] guest_bytes_mapped by blast
  note conf = server_turn_confined [OF assms(1)]
  have "\<exists>g'. server_turn fuel H V (srv, g, w) = Some (t, srv', g', w') \<and> agree (mapped_bytes srv') h' g'"
    if g: "agree (mapped_bytes srv') h g" for g
  proof -
    obtain g' where g': "server_turn fuel H V (srv, g, w) = Some (t, srv', g', w')"
        "agree (guest_bytes srv') h' g'"
      using conf(2) [OF assms(4)] agree_subset [OF g sub] by blast
    have "h' p = g' p" if "p \<in> mapped_bytes srv'" for p
      using conf(1) [OF assms(4)] conf(1) [OF g'(1)] g g'(2) that by (cases "p \<in> guest_bytes srv'") (auto simp: agree_def)
    with g'(1) show ?thesis by (auto simp: agree_def)
  qed
  with conf(1) [OF assms(4)] sub show ?thesis by blast
qed

text \<open>A front-end that sends the same memory table again and again.\<close>

definition table_region :: memory_region where
  "table_region = \<lparr>guest_phys_addr = 0, memory_size = 4096, userspace_addr = 0x10000, mmap_offset = 0\<rparr>"

definition table_vmm :: "mem_world vmm" where
  "table_vmm = mem_vmm\<lparr>sys_recv_with_fd := (\<lambda>n m w.
     (Inr (if n = 12 then (le32 5 @ le32 1 @ le32 40, [7])
           else (memory_regions_to_bytes [table_region], [])), w))\<rparr>"

lemma table_vmm_sel [simp]:
  "page_size table_vmm = 4096" "sys_mmap table_vmm d m off w = (Inr (unat d, unat off), w)"
  "sys_poll table_vmm ds w = (Inr (map (\<lambda>_. POLLIN) ds), w)"
  by (simp_all add: table_vmm_def)

lemma table_region_sel [simp]:
  "guest_phys_addr table_region = 0" "memory_size table_region = 4096" "mmap_offset table_region = 0"
  by (simp_all add: table_region_def)

lemma table_vmm_recv:
  "connection_recv table_vmm w =
     (Ok (\<lparr>mh_request = 5, mh_flags = 1, mh_size = 40\<rparr>, memory_regions_to_bytes [table_region], [7]), w)"
proof -
  have "length (memory_regions_to_bytes [table_region]) = 40"
    by (simp add: memory_regions_to_bytes_def memory_region_to_bytes_def)
  then show ?thesis
    by (auto simp: connection_recv_def recv_exact.simps HEADER_LEN_def table_vmm_def MAX_PAYLOAD_def
        msg_header_from_bytes_def word_at_append_right)
qed

lemma table_decoded: "memory_regions_from_bytes (memory_regions_to_bytes [table_region]) = Ok [table_region]"
  using memory_regions_round_trip [of "[table_region]" "[]"] by simp

lemma table_vmm_fair: "fair_front_end table_vmm"
  by (simp add: fair_front_end_def fair_table_def table_vmm_recv table_decoded)

lemma table_turn:
  "\<exists>t srv' h' w'. server_turn 1 mem_host table_vmm (server_new 9 s, h, w) = Some (t, srv', h', w') \<and>
     mapped_bytes srv' = slice_bytes ((7, 0), 4096)"
proof -
  have "msg_header_request \<lparr>mh_request = 5, mh_flags = 1, mh_size = 40\<rparr> = Ok SetMemTable"
    by (simp add: msg_header_request_def request_try_from_def)
  then show ?thesis
    by (simp add: server_turn_def Let_def handle_one_message_def table_vmm_recv turn_polled_def turn_kicks_def
      handle_request_def ctl_set_mem_table_def ctl_try_def
      table_decoded map_regions_def map_one_def mapped_bytes_def ptr_add_def
      POLLIN_def POLLHUP_def POLLERR_def)
qed

theorem event_loop_memory_confined_witness:
  "\<exists>t srv' h' w'. server_turn 1 mem_host table_vmm
      (server_new 9 (session_new mem_fs), \<lambda>_. 0, mem_world0) = Some (t, srv', h', w') \<and>
    mapped_bytes srv' = slice_bytes ((7, 0), 4096) \<and> (\<forall>p. p \<notin> slice_bytes ((7, 0), 4096) \<longrightarrow> h' p = 0)"
proof -
  let ?\<sigma> = "(server_new 9 (session_new mem_fs), \<lambda>_. 0 :: u8, mem_world0)"
  obtain t srv' h' w' where turn: "server_turn 1 mem_host table_vmm ?\<sigma> = Some (t, srv', h', w')"
      and bytes: "mapped_bytes srv' = slice_bytes ((7, 0), 4096)"
    using table_turn by metis
  show ?thesis
    using turn bytes
      event_loop_memory_confined [OF vectored_io_buffers_only [OF mem_host_vectored_io] table_vmm_fair reach_start turn] by auto
qed

section \<open>Requests\<close>

text \<open>
  C5. The two zero-copy paths are optimisations only. For a request that can be gathered, the
  header prefix can be gathered too, and dispatching on it gives the result, the session, the
  guest memory and the file system that the generic path gives, under the documented behaviour
  of \<open>preadv\<close> and \<open>pwritev\<close>. A \<open>READ\<close> must have room for its reply in buffers that do not overlap.
\<close>

theorem zero_copy_equals_generic:
  assumes "regions_disjoint Gpa mem" and "gather_readable mem h chain = Ok b" and "rust_slice b"
    and "vectored_io H"
    and "opcode_from (u32_at 4 b) = OpRead \<Longrightarrow> 60 \<le> length b \<Longrightarrow> read_has_room mem chain b"
  shows "\<exists>prefix. gather_readable_prefix mem h chain REQUEST_HEADER_LEN = Ok prefix \<and>
     dispatch_request H mem chain prefix (s, h, w) = dispatch_generic H mem chain (s, h, w)"
  using gather_readable_prefix_eq [OF assms(1,2)] dispatch_request_eq [OF assms] by blast

definition read_request :: bytes where
  "read_request = le32 60 @ le32 15 @ le64 7 @ le64 2 @ replicate 16 0
     @ le64 1 @ le64 0 @ le32 5"

definition one_region :: guest_memory where
  "one_region = [\<lparr>rg_gpa = 0, rg_user_addr = 0, rg_len = 4096, rg_ptr = (1, 0),
     rg_mmap_base = (1, 0), rg_mmap_len = 4096\<rparr>]"

definition read_chain_example :: desc_chain where
  "read_chain_example = \<lparr>dc_head = 0, dc_readable = [(0, 60)], dc_writable = [(1024, 64)]\<rparr>"

lemma gather_example:
  "gather_readable one_region (store (1, 0) read_request (\<lambda>_. 0)) read_chain_example = Ok read_request"
proof -
  have "length read_request = 60" by (simp add: read_request_def)
  with load_store_same [of "(1, 0)" read_request "\<lambda>_. 0"] show ?thesis
    by (simp add: gather_readable_eq read_chain_example_def one_region_def get_slice_def find_region_def
      in_region_def ptr_add_def)
qed

theorem zero_copy_equals_generic_witness:
  "\<exists>prefix. gather_readable_prefix one_region (store (1, 0) read_request (\<lambda>_. 0)) read_chain_example
       REQUEST_HEADER_LEN = Ok prefix \<and>
     dispatch_request mem_host one_region read_chain_example prefix
       (session_new mem_fs, store (1, 0) read_request (\<lambda>_. 0), mem_world1) =
     dispatch_generic mem_host one_region read_chain_example
       (session_new mem_fs, store (1, 0) read_request (\<lambda>_. 0), mem_world1)"
proof -
  have "regions_disjoint Gpa one_region"
    by (simp add: regions_disjoint_def one_region_def)
  moreover have "rust_slice read_request" "u32_at 56 read_request = 5"
    by (simp_all add: rust_slice_def read_request_def word_at_append_right)
  moreover have "read_has_room one_region read_chain_example read_request"
    using calculation(3)
    by (simp add: read_has_room_def read_chain_example_def one_region_def get_slice_def find_region_def
      in_region_def all_apart_def OUT_HEADER_LEN_def)
  ultimately show ?thesis
    using zero_copy_equals_generic [OF _ gather_example _ mem_host_vectored_io] by blast
qed

text \<open>
  C6. A session on a newly opened directory answers every request of a sequence, whatever bytes
  the requests are made of: none panics, and each has a reply that starts with a well-formed
  header with the request's own id, except that a request too short for a header and the two
  \<open>FORGET\<close> operations may have none.
\<close>

theorem session_answers_every_request:
  assumes "passthrough_new H dir w0 = (Ok fs, w1)" and "\<forall>b \<in> set bs. rust_slice b"
    and "2 + 2 * length bs < 2 ^ 64 - 1"
  shows "\<exists>rs s' w'. session_run H bs (session_new fs, w1) = (Some rs, s', w') \<and>
     list_all2 answers bs rs"
  using session_run_safe [of 2 "session_new fs" bs H w1] passthrough_ok_new [OF assms(1)] assms(2,3)
  by (auto simp: session_new_def)

theorem session_answers_every_request_witness:
  "\<exists>rs s' w'. session_run mem_host [replicate 40 1, [1, 2, 3]] (session_new mem_fs, mem_world1) =
      (Some rs, s', w') \<and> list_all2 answers [replicate 40 1, [1, 2, 3]] rs"
  using session_answers_every_request [OF mem_passthrough_new, of "[replicate 40 1, [1, 2, 3]]"]
  by (simp add: rust_slice_def)

end
